(* ===== verification/Prelude.thy ===== *)
theory Prelude
  imports Main "HOL-Library.Word" "HOL-Library.AList"
begin

text \<open>
  Shared vocabulary of the development: Go's machine integers, instants and durations,
  contexts, results of fallible calls, and the generic facts on lists, maps and results
  that the component theories use.

  \<^item> \<open>uint64\<close> is \<open>64 word\<close>; its \<open>+\<close> wraps as Go's does.
  \<^item> \<open>int\<close> and \<open>int64\<close> (64 bits on every supported target) are \<open>int\<close>; where a source
    expression can leave the range the model applies \<open>wrap_s64\<close>.
  \<^item> \<open>time.Time\<close> is an instant in nanoseconds since Go's zero time
    (0001-01-01T00:00:00 UTC), so \<open>IsZero\<close> is equality with \<open>0\<close>; \<open>UTC()\<close> does not change
    the instant. \<open>time.Duration\<close> is a number of nanoseconds.
  \<^item> A pointer that may be nil is an \<open>option\<close>.
  \<^item> A call that may fail returns \<open>error + value\<close>, \<open>Inl\<close> being the error.
\<close>

named_theorems op_defs \<open>definitions of operations, unfolded by proofs about one operation\<close>
named_theorems inv_pres \<open>every operation keeps the invariant of its component\<close>
named_theorems frame \<open>what an operation leaves unchanged\<close>

type_synonym u64 = "64 word"
type_synonym u32 = "32 word"
type_synonym time = int
type_synonym duration = int

subsection \<open>Machine integers\<close>

definition max_s64 :: int where
  "max_s64 = 9223372036854775807"

definition min_s64 :: int where
  "min_s64 = - 9223372036854775808"

definition in_s64 :: "int \<Rightarrow> bool" where
  "in_s64 x \<longleftrightarrow> min_s64 \<le> x \<and> x \<le> max_s64"

definition wrap_s64 :: "int \<Rightarrow> int" where
  "wrap_s64 x = (x + 9223372036854775808) mod 18446744073709551616 - 9223372036854775808"

lemma wrap_s64_id [simp]: "in_s64 x \<Longrightarrow> wrap_s64 x = x"
  by (simp add: in_s64_def min_s64_def max_s64_def wrap_s64_def)

lemma in_s64_wrap_s64 [simp]: "in_s64 (wrap_s64 x)"
proof -
  have "0 \<le> (x + 9223372036854775808) mod 18446744073709551616"
    and "(x + 9223372036854775808) mod 18446744073709551616 < 18446744073709551616"
    by simp_all
  then show ?thesis
    unfolding in_s64_def min_s64_def max_s64_def wrap_s64_def by linarith
qed

text \<open>The largest \<open>uint64\<close>, \<open>math.MaxUint64\<close>.\<close>

abbreviation max_u64 :: u64 where
  "max_u64 \<equiv> - 1"

lemma unat_Suc_u64:
  fixes w :: u64
  assumes "w \<noteq> max_u64"
  shows "unat (w + 1) = Suc (unat w)"
  using assms by (metis add.commute add.inverse_inverse add_eq_0_iff unatSuc)

lemma less_Suc_u64:
  fixes w :: u64
  assumes "w \<noteq> max_u64"
  shows "w < w + 1"
  using unat_Suc_u64 [OF assms] by (simp add: word_less_nat_alt)

lemma Suc_u64_nonzero:
  fixes w :: u64
  assumes "w \<noteq> max_u64"
  shows "w + 1 \<noteq> 0"
  using unat_Suc_u64 [OF assms] by force

lemma Suc_u64_neq [simp]: "(w :: u64) + 1 \<noteq> w"
  by simp

subsection \<open>Contexts\<close>

datatype context_error = Canceled | DeadlineExceeded

text \<open>A \<open>context.Context\<close> argument: nil, live, or done with what \<open>ctx.Err()\<close> returns.\<close>

datatype ctx = CtxNil | CtxLive | CtxDone context_error

subsection \<open>Results\<close>

type_synonym ('e, 'a) result = "'e + 'a"

definition is_ok :: "('e, 'a) result \<Rightarrow> bool" where
  "is_ok r \<longleftrightarrow> (case r of Inl _ \<Rightarrow> False | Inr _ \<Rightarrow> True)"

lemma is_ok_simps [simp]: "is_ok (Inr x)" "\<not> is_ok (Inl e)"
  by (simp_all add: is_ok_def)

lemma is_ok_iff: "is_ok r \<longleftrightarrow> (\<exists>x. r = Inr x)"
  by (cases r) simp_all

lemma not_ok_iff: "\<not> is_ok r \<longleftrightarrow> (\<exists>e. r = Inl e)"
  by (cases r) simp_all

subsection \<open>Lists\<close>

lemma distinct_map_fst_update:
  "distinct (map fst kvs) \<Longrightarrow> distinct (map fst (AList.update k v kvs))"
  by (rule AList.distinct_update)

lemma map_of_eq_Some_in_set: "map_of kvs k = Some v \<Longrightarrow> (k, v) \<in> set kvs"
  by (rule map_of_SomeD)

lemma nth_append_snoc_less: "i < length xs \<Longrightarrow> (xs @ ys) ! i = xs ! i"
  by (simp add: nth_append)

end
