(* ===== verification/Go_Strings.thy ===== *)
theory Go_Strings
  imports Prelude "HOL-Library.Char_ord" "HOL-Library.List_Lexorder"
begin

text \<open>
  The operations of Go's \<open>strings\<close>, \<open>strconv\<close> and \<open>encoding/hex\<close> packages that the runtime
  uses, on byte strings (a Go string is a sequence of bytes, as \<open>string\<close> is here).
  Comparison of strings is the lexicographic order on bytes of
  \<open>HOL-Library.List_Lexorder\<close> and \<open>Char_ord\<close>, which is Go's \<open><\<close> on strings.
\<close>

subsection \<open>strings.TrimSpace\<close>

text \<open>
  \<open>TrimSpace\<close> removes leading and trailing Unicode white space. The white-space code points
  are listed by their UTF-8 encodings: the six ASCII ones, U+0085, U+00A0, U+1680,
  U+2000 to U+200A, U+2028, U+2029, U+202F, U+205F and U+3000. No encoding is a prefix or a
  suffix of another, so that decoding runes from either end meets exactly these sequences.
\<close>

definition space_encodings :: "string list" where
  "space_encodings =
     [[CHR 0x20], [CHR 0x09], [CHR 0x0A], [CHR 0x0B], [CHR 0x0C], [CHR 0x0D],
      [CHR 0xC2, CHR 0x85], [CHR 0xC2, CHR 0xA0], [CHR 0xE1, CHR 0x9A, CHR 0x80],
      [CHR 0xE2, CHR 0x80, CHR 0x80], [CHR 0xE2, CHR 0x80, CHR 0x81],
      [CHR 0xE2, CHR 0x80, CHR 0x82], [CHR 0xE2, CHR 0x80, CHR 0x83],
      [CHR 0xE2, CHR 0x80, CHR 0x84], [CHR 0xE2, CHR 0x80, CHR 0x85],
      [CHR 0xE2, CHR 0x80, CHR 0x86], [CHR 0xE2, CHR 0x80, CHR 0x87],
      [CHR 0xE2, CHR 0x80, CHR 0x88], [CHR 0xE2, CHR 0x80, CHR 0x89],
      [CHR 0xE2, CHR 0x80, CHR 0x8A], [CHR 0xE2, CHR 0x80, CHR 0xA8],
      [CHR 0xE2, CHR 0x80, CHR 0xA9], [CHR 0xE2, CHR 0x80, CHR 0xAF],
      [CHR 0xE2, CHR 0x81, CHR 0x9F], [CHR 0xE3, CHR 0x80, CHR 0x80]]"

definition find_prefix :: "string list \<Rightarrow> string \<Rightarrow> string option" where
  "find_prefix ps s = find (\<lambda>p. p \<noteq> [] \<and> take (length p) s = p) ps"

lemma find_prefix_SomeD:
  assumes "find_prefix ps s = Some p"
  shows "p \<noteq> []" and "length p \<le> length s" and "take (length p) s = p"
proof -
  from assms have *: "p \<noteq> []" "take (length p) s = p"
    by (auto simp: find_prefix_def find_Some_iff)
  then show "p \<noteq> []" "take (length p) s = p" by simp_all
  from *(2) have "length p = min (length s) (length p)"
    by (metis length_take)
  then show "length p \<le> length s" by simp
qed

lemma find_prefix_None:
  "find_prefix ps s = None \<longleftrightarrow> (\<forall>p\<in>set ps. p = [] \<or> take (length p) s \<noteq> p)"
  by (auto simp: find_prefix_def find_None_iff)

lemma find_prefix_None_append:
  "find_prefix ps (t @ u) = None \<Longrightarrow> find_prefix ps t = None"
  unfolding find_prefix_None
proof
  fix p
  assume *: "\<forall>p\<in>set ps. p = [] \<or> take (length p) (t @ u) \<noteq> p" and p: "p \<in> set ps"
  show "p = [] \<or> take (length p) t \<noteq> p"
  proof (rule ccontr)
    assume "\<not> (p = [] \<or> take (length p) t \<noteq> p)"
    then have "p \<noteq> []" and t: "take (length p) t = p" by simp_all
    from t have "length p \<le> length t" by (metis length_take min.cobounded1)
    with t have "take (length p) (t @ u) = p" by simp
    with * p \<open>p \<noteq> []\<close> show False by blast
  qed
qed

function strip :: "string list \<Rightarrow> string \<Rightarrow> string" where
  "strip ps s = (case find_prefix ps s of None \<Rightarrow> s | Some p \<Rightarrow> strip ps (drop (length p) s))"
  by pat_completeness auto
termination
proof (relation "measure (\<lambda>(ps, s). length s)")
  show "wf (measure (\<lambda>(ps, s). length s))" by simp
next
  fix ps :: "string list" and s p
  assume "find_prefix ps s = Some p"
  from find_prefix_SomeD [OF this]
  show "((ps, drop (length p) s), ps, s) \<in> measure (\<lambda>(ps, s). length s)"
    by (cases p) auto
qed

declare strip.simps [simp del]

lemma strip_None [simp]: "find_prefix ps s = None \<Longrightarrow> strip ps s = s"
  by (simp add: strip.simps)

lemma find_prefix_strip [simp]: "find_prefix ps (strip ps s) = None"
proof (induction ps s rule: strip.induct)
  case (1 ps s)
  then show ?case
    by (cases "find_prefix ps s") (simp_all add: strip.simps [of ps s])
qed

lemma strip_suffix: "\<exists>t. s = t @ strip ps s"
proof (induction ps s rule: strip.induct)
  case (1 ps s)
  show ?case
  proof (cases "find_prefix ps s")
    case None
    then show ?thesis by simp
  next
    case (Some p)
    with "1" obtain t where "drop (length p) s = t @ strip ps (drop (length p) s)" by blast
    then have "s = take (length p) s @ t @ strip ps (drop (length p) s)"
      by (metis append_take_drop_id)
    with Some show ?thesis
      by (metis append.assoc option.simps(5) strip.simps)
  qed
qed

lemma strip_idem [simp]: "strip ps (strip ps s) = strip ps s"
  by simp

definition trim_left :: "string \<Rightarrow> string" where
  "trim_left s = strip space_encodings s"

definition trim_right :: "string \<Rightarrow> string" where
  "trim_right s = rev (strip (map rev space_encodings) (rev s))"

definition trim_space :: "string \<Rightarrow> string" where
  "trim_space s = trim_right (trim_left s)"

text \<open>\<open>strings.TrimSpace(s) == ""\<close>.\<close>

definition blank :: "string \<Rightarrow> bool" where
  "blank s \<longleftrightarrow> trim_space s = []"

lemma trim_right_prefix: "\<exists>t. s = trim_right s @ t"
proof -
  obtain t where "rev s = t @ strip (map rev space_encodings) (rev s)"
    using strip_suffix by blast
  then have "s = rev (strip (map rev space_encodings) (rev s)) @ rev t"
    by (metis rev_append rev_rev_ident)
  then show ?thesis by (auto simp: trim_right_def)
qed

lemma trim_left_trim_space [simp]: "trim_left (trim_space s) = trim_space s"
proof -
  obtain t where "trim_left s = trim_space s @ t"
    unfolding trim_space_def using trim_right_prefix by blast
  moreover have "find_prefix space_encodings (trim_left s) = None"
    by (simp add: trim_left_def)
  ultimately have "find_prefix space_encodings (trim_space s) = None"
    by (metis find_prefix_None_append)
  then show ?thesis by (simp add: trim_left_def)
qed

lemma trim_space_idem [simp]: "trim_space (trim_space s) = trim_space s"
proof -
  have "trim_space (trim_space s) = trim_right (trim_space s)"
    by (simp add: trim_space_def [of "trim_space s"])
  also have "\<dots> = trim_space s"
    by (simp add: trim_space_def trim_right_def)
  finally show ?thesis .
qed

lemma blank_trim_space [simp]: "blank (trim_space s) \<longleftrightarrow> blank s"
  by (simp add: blank_def)

lemma strip_Nil [simp]: "strip ps [] = []"
  using strip_suffix [of "[]" ps] by simp

lemma trim_space_Nil [simp]: "trim_space [] = []"
  by (simp add: trim_space_def trim_left_def trim_right_def)

lemma blank_Nil [simp]: "blank []"
  by (simp add: blank_def)

subsection \<open>strconv.FormatUint and fmt's \<open>%d\<close>, base 10\<close>

definition digit_char :: "nat \<Rightarrow> char" where
  "digit_char d = char_of (48 + d)"

fun dec_nat :: "nat \<Rightarrow> string" where
  "dec_nat n = (if n < 10 then [digit_char n] else dec_nat (n div 10) @ [digit_char (n mod 10)])"

declare dec_nat.simps [simp del]

definition dec_int :: "int \<Rightarrow> string" where
  "dec_int i = (if i < 0 then CHR ''-'' # dec_nat (nat (- i)) else dec_nat (nat i))"

definition dec_u64 :: "u64 \<Rightarrow> string" where
  "dec_u64 w = dec_nat (unat w)"

definition undec :: "string \<Rightarrow> nat" where
  "undec s = foldl (\<lambda>a c. a * 10 + (of_char c - 48)) 0 s"

lemma of_char_digit [simp]: "d < 10 \<Longrightarrow> of_char (digit_char d) = 48 + d"
  by (simp add: digit_char_def)

lemma undec_dec_nat [simp]: "undec (dec_nat n) = n"
proof (induction n rule: dec_nat.induct)
  case (1 n)
  show ?case
  proof (cases "n < 10")
    case True
    then show ?thesis by (simp add: dec_nat.simps [of n] undec_def)
  next
    case False
    with "1" have "undec (dec_nat (n div 10)) = n div 10" by blast
    with False show ?thesis by (simp add: dec_nat.simps [of n] undec_def)
  qed
qed

lemma dec_nat_inject [simp]: "dec_nat m = dec_nat n \<longleftrightarrow> m = n"
  by (metis undec_dec_nat)

lemma dec_u64_inject [simp]: "dec_u64 v = dec_u64 w \<longleftrightarrow> v = w"
  by (simp add: dec_u64_def unsigned_word_eqI [of v w] word_unat_eq_iff)

lemma dec_nat_digits: "c \<in> set (dec_nat n) \<Longrightarrow> \<exists>d<10. c = digit_char d"
proof (induction n rule: dec_nat.induct)
  case (1 n)
  then show ?case
    by (cases "n < 10") (auto simp: dec_nat.simps [of n] intro: exI [of _ "n mod 10"])
qed

lemma colon_not_in_dec_nat [simp]: "CHR '':'' \<notin> set (dec_nat n)"
proof
  assume "CHR '':'' \<in> set (dec_nat n)"
  then obtain d where d: "d < 10" "CHR '':'' = digit_char d"
    using dec_nat_digits by blast
  then have "(of_char CHR '':'' :: nat) = 48 + d"
    by (simp only: of_char_digit)
  then have "(58 :: nat) = 48 + d" by simp
  with d(1) show False by simp
qed

text \<open>A key of the form \<open>prefix:decimal\<close> determines its two parts.\<close>

lemma append_colon_inject:
  assumes "CHR '':'' \<notin> set s" and "CHR '':'' \<notin> set t"
  shows "a @ CHR '':'' # s = b @ CHR '':'' # t \<longleftrightarrow> a = b \<and> s = t"
proof
  assume eq: "a @ CHR '':'' # s = b @ CHR '':'' # t"
  have "takeWhile (\<lambda>c. c \<noteq> CHR '':'') (rev (a @ CHR '':'' # s)) = rev s"
    and "takeWhile (\<lambda>c. c \<noteq> CHR '':'') (rev (b @ CHR '':'' # t)) = rev t"
    using assms by (simp_all add: takeWhile_append)
  with eq have "s = t" by (metis rev_is_rev_conv)
  with eq show "a = b \<and> s = t" by simp
qed simp

subsection \<open>encoding/hex\<close>

definition hex_digit :: "nat \<Rightarrow> char" where
  "hex_digit d = (if d < 10 then char_of (48 + d) else char_of (87 + d))"

definition hex_byte :: "char \<Rightarrow> string" where
  "hex_byte c = [hex_digit (of_char c div 16), hex_digit (of_char c mod 16)]"

definition hex_encode :: "string \<Rightarrow> string" where
  "hex_encode s = concat (map hex_byte s)"

lemma length_hex_encode [simp]: "length (hex_encode s) = 2 * length s"
  by (induction s) (simp_all add: hex_encode_def hex_byte_def)

end
