(* ===== verification/Go_Json.thy ===== *)
theory Go_Json
  imports Go_Strings
begin

text \<open>
  The part of Go's \<open>encoding/json\<close> that the runtime uses. A document is parsed to a tree
  (\<open>json.Valid\<close> asks only whether that succeeds, \<open>json.Unmarshal\<close> reads the tree), string
  literals are kept as written in the tree and decoded by \<open>unquote\<close>, and the encoders follow
  \<open>json.Marshal\<close> with its default HTML escaping. Containers nest at most 10000 deep, as in
  the package's scanner.
\<close>

datatype jv =
    JNull
  | JBool bool
  | JNum string
  | JStr string
  | JArr "jv list"
  | JObj "(string \<times> jv) list"

subsection \<open>Scanning\<close>

definition json_space :: "char \<Rightarrow> bool" where
  "json_space c \<longleftrightarrow> c = CHR 0x20 \<or> c = CHR 0x09 \<or> c = CHR 0x0D \<or> c = CHR 0x0A"

definition skip_ws :: "string \<Rightarrow> string" where
  "skip_ws s = dropWhile json_space s"

definition is_digit :: "char \<Rightarrow> bool" where
  "is_digit c \<longleftrightarrow> 48 \<le> (of_char c :: nat) \<and> (of_char c :: nat) \<le> 57"

definition hex_val :: "char \<Rightarrow> nat option" where
  "hex_val c = (let n = of_char c :: nat in
     if 48 \<le> n \<and> n \<le> 57 then Some (n - 48)
     else if 97 \<le> n \<and> n \<le> 102 then Some (n - 87)
     else if 65 \<le> n \<and> n \<le> 70 then Some (n - 55)
     else None)"

definition is_hex :: "char \<Rightarrow> bool" where
  "is_hex c \<longleftrightarrow> hex_val c \<noteq> None"

text \<open>The body of a string literal up to its closing quote, as written, and what follows it.\<close>

fun scan_str :: "string \<Rightarrow> (string \<times> string) option" where
  "scan_str [] = None"
| "scan_str (c # cs) =
     (if c = CHR 0x22 then Some ([], cs)
      else if c = CHR 0x5C then
        (case cs of
           [] \<Rightarrow> None
         | e # r \<Rightarrow>
             (if e \<in> set [CHR ''b'', CHR ''f'', CHR ''n'', CHR ''r'', CHR ''t'', CHR 0x5C, CHR ''/'', CHR 0x22]
              then map_option (\<lambda>(a, b). (c # e # a, b)) (scan_str r)
              else if e = CHR ''u'' then
                (case r of
                   h1 # h2 # h3 # h4 # r' \<Rightarrow>
                     (if is_hex h1 \<and> is_hex h2 \<and> is_hex h3 \<and> is_hex h4
                      then map_option (\<lambda>(a, b). (c # e # h1 # h2 # h3 # h4 # a, b)) (scan_str r')
                      else None)
                 | _ \<Rightarrow> None)
              else None))
      else if (of_char c :: nat) < 32 then None
      else map_option (\<lambda>(a, b). (c # a, b)) (scan_str cs))"

definition scan_digits :: "string \<Rightarrow> (string \<times> string) option" where
  "scan_digits s = (let d = takeWhile is_digit s in
     if d = [] then None else Some (d, dropWhile is_digit s))"

definition scan_frac :: "string \<Rightarrow> (string \<times> string) option" where
  "scan_frac s = (case s of
       c # r \<Rightarrow> if c = CHR ''.'' then map_option (\<lambda>(d, t). (c # d, t)) (scan_digits r) else Some ([], s)
     | [] \<Rightarrow> Some ([], s))"

definition scan_exp :: "string \<Rightarrow> (string \<times> string) option" where
  "scan_exp s = (case s of
       c # r \<Rightarrow>
         if c = CHR ''e'' \<or> c = CHR ''E'' then
           (case r of
              g # r' \<Rightarrow>
                if g = CHR ''+'' \<or> g = CHR ''-''
                then map_option (\<lambda>(d, t). (c # g # d, t)) (scan_digits r')
                else map_option (\<lambda>(d, t). (c # d, t)) (scan_digits r)
            | [] \<Rightarrow> None)
         else Some ([], s)
     | [] \<Rightarrow> Some ([], s))"

definition scan_int :: "string \<Rightarrow> (string \<times> string) option" where
  "scan_int s = (case s of
       c # r \<Rightarrow> if c = CHR ''0'' then Some ([c], r) else scan_digits s
     | [] \<Rightarrow> None)"

definition scan_num :: "string \<Rightarrow> (string \<times> string) option" where
  "scan_num s =
     (let (g, s1) = (case s of c # r \<Rightarrow> if c = CHR ''-'' then ([c], r) else ([], s) | [] \<Rightarrow> ([], s)) in
      case scan_int s1 of None \<Rightarrow> None | Some (i, s2) \<Rightarrow>
      case scan_frac s2 of None \<Rightarrow> None | Some (f, s3) \<Rightarrow>
      case scan_exp s3 of None \<Rightarrow> None | Some (e, s4) \<Rightarrow> Some (g @ i @ f @ e, s4))"

definition max_nesting :: nat where
  "max_nesting = 10000"

text \<open>
  The first argument is fuel: it bounds the number of nested calls. Two nested calls consume
  at least one byte, so twice the length of the input is enough (\<open>parse_json_fuel\<close> below).
\<close>

fun parse_value :: "nat \<Rightarrow> nat \<Rightarrow> string \<Rightarrow> (jv \<times> string) option"
and parse_elems :: "nat \<Rightarrow> nat \<Rightarrow> string \<Rightarrow> (jv list \<times> string) option"
and parse_members :: "nat \<Rightarrow> nat \<Rightarrow> string \<Rightarrow> ((string \<times> jv) list \<times> string) option"
where
  "parse_value 0 depth s = None"
| "parse_value (Suc fuel) depth s =
     (case skip_ws s of
        [] \<Rightarrow> None
      | c # r \<Rightarrow>
          if c = CHR ''{'' then
            (if max_nesting \<le> depth then None
             else case skip_ws r of
                    [] \<Rightarrow> None
                  | d # r' \<Rightarrow>
                      if d = CHR ''}'' then Some (JObj [], r')
                      else map_option (\<lambda>(ms, t). (JObj ms, t)) (parse_members fuel (Suc depth) r))
          else if c = CHR ''['' then
            (if max_nesting \<le> depth then None
             else case skip_ws r of
                    [] \<Rightarrow> None
                  | d # r' \<Rightarrow>
                      if d = CHR '']'' then Some (JArr [], r')
                      else map_option (\<lambda>(vs, t). (JArr vs, t)) (parse_elems fuel (Suc depth) r))
          else if c = CHR 0x22 then map_option (\<lambda>(a, t). (JStr a, t)) (scan_str r)
          else if c = CHR ''t'' then (if take 3 r = ''rue'' then Some (JBool True, drop 3 r) else None)
          else if c = CHR ''f'' then (if take 4 r = ''alse'' then Some (JBool False, drop 4 r) else None)
          else if c = CHR ''n'' then (if take 3 r = ''ull'' then Some (JNull, drop 3 r) else None)
          else map_option (\<lambda>(n, t). (JNum n, t)) (scan_num (c # r)))"
| "parse_elems 0 depth s = None"
| "parse_elems (Suc fuel) depth s =
     (case parse_value fuel depth s of
        None \<Rightarrow> None
      | Some (v, t) \<Rightarrow>
          (case skip_ws t of
             [] \<Rightarrow> None
           | c # r \<Rightarrow>
               if c = CHR '']'' then Some ([v], r)
               else if c = CHR '','' then map_option (\<lambda>(vs, u). (v # vs, u)) (parse_elems fuel depth r)
               else None))"
| "parse_members 0 depth s = None"
| "parse_members (Suc fuel) depth s =
     (case skip_ws s of
        [] \<Rightarrow> None
      | q # r \<Rightarrow>
          if q \<noteq> CHR 0x22 then None
          else case scan_str r of
            None \<Rightarrow> None
          | Some (k, t) \<Rightarrow>
              (case skip_ws t of
                 [] \<Rightarrow> None
               | c # r' \<Rightarrow>
                   if c \<noteq> CHR '':'' then None
                   else case parse_value fuel depth r' of
                     None \<Rightarrow> None
                   | Some (v, u) \<Rightarrow>
                       (case skip_ws u of
                          [] \<Rightarrow> None
                        | d # u' \<Rightarrow>
                            if d = CHR ''}'' then Some ([(k, v)], u')
                            else if d = CHR '','' then
                              map_option (\<lambda>(ms, w). ((k, v) # ms, w)) (parse_members fuel depth u')
                            else None)))"

definition parse_json :: "string \<Rightarrow> jv option" where
  "parse_json s = (case parse_value (Suc (2 * length s)) 0 s of
       None \<Rightarrow> None
     | Some (v, t) \<Rightarrow> if skip_ws t = [] then Some v else None)"

definition json_valid :: "string \<Rightarrow> bool" where
  "json_valid s \<longleftrightarrow> parse_json s \<noteq> None"

subsubsection \<open>The fuel is enough\<close>

lemma skip_ws_le: "length (skip_ws s) \<le> length s"
  by (simp add: skip_ws_def length_dropWhile_le)

lemma skip_ws_ConsD: "skip_ws s = c # r \<Longrightarrow> length r < length s"
  using skip_ws_le [of s] by simp

lemma scan_str_len: "scan_str s = Some (a, t) \<Longrightarrow> length t < length s"
proof (induction s arbitrary: a t rule: scan_str.induct)
  case (2 c cs)
  then show ?case
    by (fastforce split: if_splits list.splits)
qed simp

lemma scan_digits_len: "scan_digits s = Some (a, t) \<Longrightarrow> length t < length s"
  unfolding scan_digits_def Let_def
  by (cases s) (auto simp: length_dropWhile_le le_imp_less_Suc split: if_splits)

lemma scan_frac_len: "scan_frac s = Some (a, t) \<Longrightarrow> length t \<le> length s"
  by (auto simp: scan_frac_def dest: scan_digits_len split: list.splits if_splits)

lemma scan_exp_len: "scan_exp s = Some (a, t) \<Longrightarrow> length t \<le> length s"
  by (auto simp: scan_exp_def dest: scan_digits_len split: list.splits if_splits)

lemma scan_int_len: "scan_int s = Some (a, t) \<Longrightarrow> length t < length s"
  by (auto simp: scan_int_def dest: scan_digits_len split: list.splits if_splits)

lemma scan_num_len: "scan_num s = Some (a, t) \<Longrightarrow> length t < length s"
  by (fastforce simp: scan_num_def Let_def
      dest!: scan_int_len scan_frac_len scan_exp_len split: list.splits if_splits option.splits)

lemmas scan_len = scan_str_len scan_num_len skip_ws_ConsD

lemma parse_len:
  "parse_value fuel depth s = Some (v, t) \<Longrightarrow> length t < length s"
  "parse_elems fuel depth s = Some (vs, t) \<Longrightarrow> length t < length s"
  "parse_members fuel depth s = Some (ms, t) \<Longrightarrow> length t < length s"
proof (induction fuel depth s and fuel depth s and fuel depth s arbitrary: v t and vs t and ms t
    rule: parse_value_parse_elems_parse_members.induct)
  case (2 fuel depth s)
  then show ?case
    by (fastforce dest: scan_len split: list.splits if_splits)
next
  case (4 fuel depth s)
  then show ?case
    by (fastforce dest: scan_len split: list.splits if_splits option.splits)
next
  case (6 fuel depth s)
  then show ?case
    by (fastforce dest: scan_len split: list.splits if_splits option.splits)
qed simp_all

text \<open>Above twice the length of the input, more fuel changes nothing.\<close>

lemma parse_stable:
  "2 * length s < fuel \<Longrightarrow> parse_value (Suc fuel) depth s = parse_value fuel depth s"
  "2 * length s + 1 < fuel \<Longrightarrow> parse_elems (Suc fuel) depth s = parse_elems fuel depth s"
  "2 * length s + 1 < fuel \<Longrightarrow> parse_members (Suc fuel) depth s = parse_members fuel depth s"
proof (induction fuel depth s and fuel depth s and fuel depth s
    rule: parse_value_parse_elems_parse_members.induct)
  case (2 fuel depth s)
  show ?case
  proof (cases "skip_ws s")
    case (Cons c r)
    then have "2 * length r + 1 < fuel"
      using skip_ws_ConsD [OF Cons] "2.prems" by simp
    with Cons "2.IH" show ?thesis
      by (auto simp del: parse_elems.simps parse_members.simps split: list.splits)
  qed simp
next
  case (4 fuel depth s)
  then have v: "parse_value (Suc fuel) depth s = parse_value fuel depth s" by simp
  show ?case
  proof (cases "parse_value fuel depth s")
    case (Some p)
    obtain x t where p: "p = (x, t)" by (cases p)
    show ?thesis
    proof (cases "skip_ws t")
      case (Cons c r)
      then have "2 * length r + 1 < fuel"
        using skip_ws_ConsD [OF Cons] parse_len(1) [OF Some [unfolded p]] "4.prems" by simp
      with Cons Some p v "4.IH"(2) show ?thesis
        by (auto simp del: parse_value.simps)
    qed (simp add: v Some p del: parse_value.simps)
  qed (simp add: v del: parse_value.simps)
next
  case (6 fuel depth s)
  show ?case
  proof (cases "skip_ws s")
    case (Cons q r)
    show ?thesis
    proof (cases "scan_str r")
      case (Some p)
      obtain k t where p: "p = (k, t)" by (cases p)
      show ?thesis
      proof (cases "skip_ws t")
        case t: (Cons c r')
        have len: "length r' < length s"
          using skip_ws_ConsD [OF Cons] scan_str_len [OF Some [unfolded p]] skip_ws_ConsD [OF t] by simp
        with "6.IH"(1) [OF Cons _ Some [unfolded p] refl t] "6.prems"
        have v: "q = CHR 0x22 \<Longrightarrow> c = CHR '':'' \<Longrightarrow>
            parse_value (Suc fuel) depth r' = parse_value fuel depth r'"
          by (auto simp del: parse_value.simps)
        show ?thesis
        proof (cases "parse_value fuel depth r'")
          case val: (Some y)
          obtain x u where y: "y = (x, u)" by (cases y)
          show ?thesis
          proof (cases "skip_ws u")
            case u: (Cons d u')
            have "2 * length u' + 1 < fuel"
              using skip_ws_ConsD [OF u] parse_len(1) [OF val [unfolded y]] len "6.prems" by simp
            with "6.IH"(2) [OF Cons _ Some [unfolded p] refl t _ val [unfolded y] refl u]
            show ?thesis
              using Cons Some p t v val y u by (auto simp del: parse_value.simps)
          qed (use Cons Some p t v val y in \<open>auto simp del: parse_value.simps\<close>)
        qed (use Cons Some p t v in \<open>auto simp del: parse_value.simps\<close>)
      qed (simp add: Cons Some p)
    qed (simp add: Cons)
  qed simp
qed simp_all

lemma parse_json_fuel:
  assumes "2 * length s < fuel"
  shows "parse_value fuel 0 s = parse_value (Suc (2 * length s)) 0 s"
  using assms
proof (induction fuel)
  case (Suc fuel)
  then show ?case
    by (metis less_antisym parse_stable(1))
qed simp

lemma json_valid_Nil [simp]: "\<not> json_valid []"
  by (simp add: json_valid_def parse_json_def skip_ws_def)

subsection \<open>UTF-8\<close>

definition cont_byte :: "char \<Rightarrow> bool" where
  "cont_byte c \<longleftrightarrow> 128 \<le> (of_char c :: nat) \<and> (of_char c :: nat) \<le> 191"

text \<open>
  The number of bytes of the first rune when it is a valid encoding, \<open>0\<close> when the first byte
  starts no valid encoding (\<open>utf8.DecodeRune\<close> then yields \<open>RuneError\<close> of width 1).
\<close>

definition rune_len :: "string \<Rightarrow> nat" where
  "rune_len s = (case s of
       [] \<Rightarrow> 0
     | a # r \<Rightarrow>
         (let n = of_char a :: nat in
          if n < 128 then 1
          else case r of
            [] \<Rightarrow> 0
          | b # r2 \<Rightarrow>
              (let m = of_char b :: nat in
               if 194 \<le> n \<and> n \<le> 223 \<and> cont_byte b then 2
               else case r2 of
                 [] \<Rightarrow> 0
               | c # r3 \<Rightarrow>
                   if (n = 224 \<and> 160 \<le> m \<and> m \<le> 191 \<or> n = 237 \<and> 128 \<le> m \<and> m \<le> 159 \<or>
                       225 \<le> n \<and> n \<le> 239 \<and> n \<noteq> 237 \<and> cont_byte b) \<and> cont_byte c then 3
                   else case r3 of
                     [] \<Rightarrow> 0
                   | d # _ \<Rightarrow>
                       if (n = 240 \<and> 144 \<le> m \<and> m \<le> 191 \<or> n = 244 \<and> 128 \<le> m \<and> m \<le> 143 \<or>
                           241 \<le> n \<and> n \<le> 243 \<and> cont_byte b) \<and> cont_byte c \<and> cont_byte d then 4
                       else 0)))"

lemma rune_len_le: "rune_len s \<le> length s"
  by (auto simp: rune_len_def Let_def split: list.splits)

definition encode_rune :: "nat \<Rightarrow> string" where
  "encode_rune n =
     (if n < 128 then [char_of n]
      else if n < 2048 then [char_of (192 + n div 64), char_of (128 + n mod 64)]
      else if n < 65536 then
        [char_of (224 + n div 4096), char_of (128 + n div 64 mod 64), char_of (128 + n mod 64)]
      else [char_of (240 + n div 262144), char_of (128 + n div 4096 mod 64),
            char_of (128 + n div 64 mod 64), char_of (128 + n mod 64)])"

definition rune_error :: string where
  "rune_error = [CHR 0xEF, CHR 0xBF, CHR 0xBD]"

subsection \<open>Decoding string literals\<close>

definition hex4 :: "char \<Rightarrow> char \<Rightarrow> char \<Rightarrow> char \<Rightarrow> nat" where
  "hex4 a b c d = ((the (hex_val a) * 16 + the (hex_val b)) * 16 + the (hex_val c)) * 16 + the (hex_val d)"

definition unescape :: "char \<Rightarrow> char" where
  "unescape e =
     (if e = CHR ''b'' then CHR 0x08 else if e = CHR ''f'' then CHR 0x0C
      else if e = CHR ''n'' then CHR 0x0A else if e = CHR ''r'' then CHR 0x0D
      else if e = CHR ''t'' then CHR 0x09 else e)"

text \<open>
  The bytes a scanned literal denotes: escapes are replaced, a surrogate pair becomes its
  code point, and a lone surrogate or an invalid byte becomes U+FFFD.
\<close>

fun unquote :: "string \<Rightarrow> string" where
  "unquote [] = []"
| "unquote (c # cs) =
     (if c = CHR 0x5C then
        (case cs of
           [] \<Rightarrow> []
         | e # r \<Rightarrow>
             if e = CHR ''u'' then
               (case r of
                  h1 # h2 # h3 # h4 # r1 \<Rightarrow>
                    (let n = hex4 h1 h2 h3 h4 in
                     if 55296 \<le> n \<and> n \<le> 57343 then
                       (case r1 of
                          b # u # k1 # k2 # k3 # k4 # r2 \<Rightarrow>
                            (if b = CHR 0x5C \<and> u = CHR ''u'' \<and> n \<le> 56319 \<and>
                                56320 \<le> hex4 k1 k2 k3 k4 \<and> hex4 k1 k2 k3 k4 \<le> 57343 then
                               encode_rune (65536 + (n - 55296) * 1024 + (hex4 k1 k2 k3 k4 - 56320)) @ unquote r2
                             else rune_error @ unquote r1)
                        | _ \<Rightarrow> rune_error @ unquote r1)
                     else encode_rune n @ unquote r1)
                | _ \<Rightarrow> [])
             else unescape e # unquote r)
      else if (of_char c :: nat) < 128 then c # unquote cs
      else (let k = rune_len (c # cs) in
            if k = 0 then rune_error @ unquote cs
            else c # take (k - 1) cs @ unquote (drop (k - 1) cs)))"

subsection \<open>Reading a struct field\<close>

text \<open>
  \<open>Unmarshal\<close> matches an object key with a field name exactly or, failing that, under simple
  case folding; for the ASCII field names used here the folding maps ASCII letters, U+017F
  and U+212A to upper case.
\<close>

fun fold_name :: "string \<Rightarrow> string" where
  "fold_name [] = []"
| "fold_name (c # cs) =
     (if c = CHR 0xC5 \<and> take 1 cs = [CHR 0xBF] then CHR ''S'' # fold_name (drop 1 cs)
      else if c = CHR 0xE2 \<and> take 2 cs = [CHR 0x84, CHR 0xAA] then CHR ''K'' # fold_name (drop 2 cs)
      else if 97 \<le> (of_char c :: nat) \<and> (of_char c :: nat) \<le> 122
           then char_of ((of_char c :: nat) - 32) # fold_name cs
      else c # fold_name cs)"

definition key_matches :: "string \<Rightarrow> string \<Rightarrow> bool" where
  "key_matches name k \<longleftrightarrow> unquote k = name \<or> fold_name (unquote k) = fold_name name"

text \<open>
  Decoding into a struct with one string field: later occurrences overwrite earlier ones,
  null leaves the field, any other type is an error; unknown keys are skipped.
\<close>

fun string_field :: "string \<Rightarrow> string \<Rightarrow> (string \<times> jv) list \<Rightarrow> string option" where
  "string_field name acc [] = Some acc"
| "string_field name acc ((k, v) # ms) =
     (if key_matches name k then
        (case v of
           JStr a \<Rightarrow> string_field name (unquote a) ms
         | JNull \<Rightarrow> string_field name acc ms
         | _ \<Rightarrow> None)
      else string_field name acc ms)"

definition unmarshal_string_field :: "string \<Rightarrow> string \<Rightarrow> string option" where
  "unmarshal_string_field name s = (case parse_json s of
       None \<Rightarrow> None
     | Some JNull \<Rightarrow> Some []
     | Some (JObj ms) \<Rightarrow> string_field name [] ms
     | Some _ \<Rightarrow> None)"

subsection \<open>Encoding\<close>

definition hex_u :: "nat \<Rightarrow> string" where
  "hex_u n = [CHR 0x5C, CHR ''u'', hex_digit (n div 4096 mod 16), hex_digit (n div 256 mod 16),
              hex_digit (n div 16 mod 16), hex_digit (n mod 16)]"

definition line_sep :: "string \<Rightarrow> bool" where
  "line_sep s \<longleftrightarrow> take 3 s = [CHR 0xE2, CHR 0x80, CHR 0xA8] \<or> take 3 s = [CHR 0xE2, CHR 0x80, CHR 0xA9]"

definition escape_ascii :: "char \<Rightarrow> string" where
  "escape_ascii c =
     (let n = of_char c :: nat in
      if c = CHR 0x22 \<or> c = CHR 0x5C then [CHR 0x5C, c]
      else if n = 8 then [CHR 0x5C, CHR ''b''] else if n = 12 then [CHR 0x5C, CHR ''f'']
      else if n = 10 then [CHR 0x5C, CHR ''n''] else if n = 13 then [CHR 0x5C, CHR ''r'']
      else if n = 9 then [CHR 0x5C, CHR ''t'']
      else if n < 32 \<or> c = CHR ''<'' \<or> c = CHR ''>'' \<or> c = CHR ''&'' then hex_u n
      else [c])"

fun escape_string :: "string \<Rightarrow> string" where
  "escape_string [] = []"
| "escape_string (c # cs) =
     (if (of_char c :: nat) < 128 then escape_ascii c @ escape_string cs
      else (let k = rune_len (c # cs) in
            if k = 0 then hex_u 65533 @ escape_string cs
            else if line_sep (c # cs) then
              hex_u (if take 3 (c # cs) = [CHR 0xE2, CHR 0x80, CHR 0xA8] then 8232 else 8233)
              @ escape_string (drop 2 cs)
            else c # take (k - 1) cs @ escape_string (drop (k - 1) cs)))"

definition enc_string :: "string \<Rightarrow> string" where
  "enc_string s = CHR 0x22 # escape_string s @ [CHR 0x22]"

text \<open>
  A \<open>json.RawMessage\<close> is compacted when it is marshalled: white space outside string
  literals is dropped and HTML characters and line separators are escaped.
\<close>

fun compact :: "bool \<Rightarrow> string \<Rightarrow> string" where
  "compact instr [] = []"
| "compact instr (c # cs) =
     (if c = CHR ''<'' \<or> c = CHR ''>'' \<or> c = CHR ''&'' then hex_u (of_char c) @ compact instr cs
      else if line_sep (c # cs) then
        hex_u (if take 3 (c # cs) = [CHR 0xE2, CHR 0x80, CHR 0xA8] then 8232 else 8233)
        @ compact instr (drop 2 cs)
      else if instr then
        (if c = CHR 0x5C then c # take 1 cs @ compact instr (drop 1 cs)
         else if c = CHR 0x22 then c # compact False cs
         else c # compact True cs)
      else if json_space c then compact False cs
      else if c = CHR 0x22 then c # compact True cs
      else c # compact False cs)"

definition enc_raw :: "string \<Rightarrow> string option" where
  "enc_raw s = (if s = [] then Some ''null'' else if json_valid s then Some (compact False s) else None)"

definition enc_bool :: "bool \<Rightarrow> string" where
  "enc_bool b = (if b then ''true'' else ''false'')"

fun intercalate :: "string \<Rightarrow> string list \<Rightarrow> string" where
  "intercalate sep [] = []"
| "intercalate sep [x] = x"
| "intercalate sep (x # y # zs) = x @ sep @ intercalate sep (y # zs)"

text \<open>An object from its encoded members, in order; an absent member was omitted.\<close>

definition enc_obj :: "(string \<times> string) list \<Rightarrow> string" where
  "enc_obj ms = CHR ''{'' # intercalate '','' (map (\<lambda>(k, v). enc_string k @ CHR '':'' # v) ms) @ [CHR ''}'']"

subsection \<open>time.Time in RFC 3339 form\<close>

text \<open>
  Civil date of an instant in the proleptic Gregorian calendar; day 0 is 0001-01-01.
\<close>

definition year_of_days :: "int \<Rightarrow> int \<times> int" where
  "year_of_days d =
     (let n400 = d div 146097; d1 = d mod 146097;
          n100 = min 3 (d1 div 36524); d2 = d1 - n100 * 36524;
          n4 = d2 div 1461; d3 = d2 mod 1461;
          n1 = min 3 (d3 div 365); d4 = d3 - n1 * 365
      in (400 * n400 + 100 * n100 + 4 * n4 + n1 + 1, d4))"

definition leap_year :: "int \<Rightarrow> bool" where
  "leap_year y \<longleftrightarrow> y mod 4 = 0 \<and> (y mod 100 \<noteq> 0 \<or> y mod 400 = 0)"

fun month_day :: "int list \<Rightarrow> int \<Rightarrow> int \<Rightarrow> int \<times> int" where
  "month_day [] m d = (m, d + 1)"
| "month_day (n # ns) m d = (if d < n then (m, d + 1) else month_day ns (m + 1) (d - n))"

definition pad :: "nat \<Rightarrow> int \<Rightarrow> string" where
  "pad w i = (let s = dec_nat (nat i) in replicate (w - length s) CHR ''0'' @ s)"

definition frac_nanos :: "int \<Rightarrow> string" where
  "frac_nanos n = (if n = 0 then [] else CHR ''.'' # rev (dropWhile (\<lambda>c. c = CHR ''0'') (rev (pad 9 n))))"

definition enc_time :: "time \<Rightarrow> string option" where
  "enc_time t =
     (let secs = t div 1000000000; nanos = t mod 1000000000;
          days = secs div 86400; sod = secs mod 86400;
          (y, yd) = year_of_days days;
          (m, d) = month_day [31, if leap_year y then 29 else 28, 31, 30, 31, 30, 31, 31, 30, 31, 30, 31] 1 yd
      in if y < 0 \<or> 9999 < y then None
         else Some (CHR 0x22 # pad 4 y @ ''-'' @ pad 2 m @ ''-'' @ pad 2 d @ ''T''
                @ pad 2 (sod div 3600) @ '':'' @ pad 2 (sod div 60 mod 60) @ '':'' @ pad 2 (sod mod 60)
                @ frac_nanos nanos @ ''Z'' @ [CHR 0x22]))"

end
