(* ===== verification/Go_Sha256.thy ===== *)
theory Go_Sha256
  imports Go_Strings
begin

unbundle bit_operations_syntax

text \<open>
  \<open>crypto/sha256.Sum256\<close> (FIPS 180-4) on byte strings, and the hexadecimal digests the runtime
  derives from it. Nothing below assumes collision resistance: theorems that need two
  digests to differ say so about those two inputs.
\<close>

definition sha_k :: "u32 list" where
  "sha_k =
     [1116352408, 1899447441, 3049323471, 3921009573, 961987163, 1508970993, 2453635748, 2870763221,
      3624381080, 310598401, 607225278, 1426881987, 1925078388, 2162078206, 2614888103, 3248222580,
      3835390401, 4022224774, 264347078, 604807628, 770255983, 1249150122, 1555081692, 1996064986,
      2554220882, 2821834349, 2952996808, 3210313671, 3336571891, 3584528711, 113926993, 338241895,
      666307205, 773529912, 1294757372, 1396182291, 1695183700, 1986661051, 2177026350, 2456956037,
      2730485921, 2820302411, 3259730800, 3345764771, 3516065817, 3600352804, 4094571909, 275423344,
      430227734, 506948616, 659060556, 883997877, 958139571, 1322822218, 1537002063, 1747873779,
      1955562222, 2024104815, 2227730452, 2361852424, 2428436474, 2756734187, 3204031479, 3329325298]"

definition sha_h0 :: "u32 list" where
  "sha_h0 = [1779033703, 3144134277, 1013904242, 2773480762, 1359893119, 2600822924, 528734635, 1541459225]"

definition rotr :: "nat \<Rightarrow> u32 \<Rightarrow> u32" where
  "rotr n x = drop_bit n x OR push_bit (32 - n) x"

definition small_sigma0 :: "u32 \<Rightarrow> u32" where
  "small_sigma0 x = rotr 7 x XOR rotr 18 x XOR drop_bit 3 x"

definition small_sigma1 :: "u32 \<Rightarrow> u32" where
  "small_sigma1 x = rotr 17 x XOR rotr 19 x XOR drop_bit 10 x"

definition big_sigma0 :: "u32 \<Rightarrow> u32" where
  "big_sigma0 x = rotr 2 x XOR rotr 13 x XOR rotr 22 x"

definition big_sigma1 :: "u32 \<Rightarrow> u32" where
  "big_sigma1 x = rotr 6 x XOR rotr 11 x XOR rotr 25 x"

definition be_word :: "string \<Rightarrow> u32" where
  "be_word bs = word_of_int (foldl (\<lambda>a c. a * 256 + of_char c) 0 bs)"

definition be_bytes :: "nat \<Rightarrow> int \<Rightarrow> string" where
  "be_bytes k n = map (\<lambda>i. char_of (n div 256 ^ i)) (rev [0..<k])"

fun chunks :: "nat \<Rightarrow> string \<Rightarrow> string list" where
  "chunks n s = (if n = 0 \<or> s = [] then [] else take n s # chunks n (drop n s))"

declare chunks.simps [simp del]

text \<open>The message schedule, latest word first.\<close>

fun extend_schedule :: "nat \<Rightarrow> u32 list \<Rightarrow> u32 list" where
  "extend_schedule 0 ws = ws"
| "extend_schedule (Suc n) ws =
     extend_schedule n
       ((small_sigma1 (ws ! 1) + ws ! 6 + small_sigma0 (ws ! 14) + ws ! 15) # ws)"

definition sha_round :: "u32 \<times> u32 \<Rightarrow> u32 list \<Rightarrow> u32 list" where
  "sha_round kw h = (case h of
       [a, b, c, d, e, f, g, i] \<Rightarrow>
         (let t1 = i + big_sigma1 e + ((e AND f) XOR (NOT e AND g)) + fst kw + snd kw;
              t2 = big_sigma0 a + ((a AND b) XOR (a AND c) XOR (b AND c))
          in [t1 + t2, a, b, c, d + t1, e, f, g])
     | _ \<Rightarrow> h)"

definition sha_block :: "string \<Rightarrow> u32 list \<Rightarrow> u32 list" where
  "sha_block blk h =
     (let ws = rev (extend_schedule 48 (rev (map be_word (chunks 4 blk))))
      in map2 (+) h (fold sha_round (zip sha_k ws) h))"

definition sha_pad :: "string \<Rightarrow> string" where
  "sha_pad s = s @ [CHR 0x80] @ replicate ((119 - length s mod 64) mod 64) (CHR 0x00) @ be_bytes 8 (8 * int (length s))"

definition sha256 :: "string \<Rightarrow> string" where
  "sha256 s = concat (map (\<lambda>w. be_bytes 4 (uint w)) (fold sha_block (chunks 64 (sha_pad s)) sha_h0))"

definition sha256_hex :: "string \<Rightarrow> string" where
  "sha256_hex s = hex_encode (sha256 s)"

lemma length_be_bytes [simp]: "length (be_bytes k n) = k"
  by (simp add: be_bytes_def)

lemma length_sha_round [simp]: "length (sha_round kw h) = length h"
  by (auto simp: sha_round_def Let_def split: list.splits)

lemma length_fold_sha_round [simp]: "length (fold sha_round kws h) = length h"
  by (induction kws arbitrary: h) simp_all

lemma length_sha_block [simp]: "length (sha_block b h) = length h"
  by (simp add: sha_block_def)

lemma length_fold_sha_block [simp]: "length (fold sha_block bs h) = length h"
  by (induction bs arbitrary: h) simp_all

lemma length_sha256 [simp]: "length (sha256 s) = 32"
proof -
  have "length (concat (map (\<lambda>w. be_bytes 4 (uint w)) hs)) = 4 * length hs" for hs :: "u32 list"
    by (induction hs) simp_all
  then show ?thesis by (simp add: sha256_def sha_h0_def)
qed

lemma length_sha256_hex [simp]: "length (sha256_hex s) = 64"
  by (simp add: sha256_hex_def)

end
