(* ===== verification/Kernel_Types.thy ===== *)
theory Kernel_Types
  imports Go_Json Go_Sha256
begin

text \<open>
  The data model of the kernel: \<open>kernel/types.go\<close>, the request and record types of
  \<open>kernel/store.go\<close>, \<open>kernel/execution.go\<close>, \<open>kernel/quarantine.go\<close> and \<open>kernel/control.go\<close>,
  the in-process proof of \<open>internal/featurecontrol\<close>, and the kernel's error values.

  Field names carry a prefix naming their struct. A Go string type with declared constants
  becomes a datatype with one constructor per constant and one for every other string. The
  \<open>clone*\<close> helpers of the sources copy slices and pointers; values here are immutable, so
  they are the identity and do not appear.
\<close>

subsection \<open>Errors\<close>

text \<open>The error values of the package: its sentinel errors, the two wrappers of \<open>control_no_effect.go\<close> around a cause,
  errors of the context and of the entropy source, and \<open>ErrForeign\<close> for any error that a custom store brings along. A
  store may return any of them, a wrapper minted by another call of the kernel included.\<close>

datatype kernel_error =
    ErrInvalidInput | ErrNotFound | ErrAlreadyExists | ErrConflict | ErrTerminal | ErrDeadline
  | ErrExecutionConflict | ErrExecutionRequired | ErrExecutionBusy | ErrExecutionQuarantined
  | ErrContext context_error | ErrEntropy
  | ControlPreStoreFailure kernel_error | ControlStoreOutcomeError kernel_error | ErrForeign string

subsection \<open>Runs\<close>

datatype RunStatus =
    RunStatusRunning | RunStatusWaitingInput | RunStatusPausedBudget
  | RunStatusCompleted | RunStatusFailed | RunStatusCancelled | RunStatusOther string

record ActorRef =
  actor_TenantID :: string
  actor_ActorID :: string

record ThreadRef =
  thread_Kind :: string
  thread_ID :: string

record Run =
  run_ID :: string
  run_Kind :: string
  run_Actor :: ActorRef
  run_Thread :: ThreadRef
  run_RequestID :: string
  run_Goal :: string
  run_Status :: RunStatus
  run_Revision :: u64
  run_ErrorCode :: string
  run_ErrorDetail :: string
  run_DeadlineAt :: "time option"
  run_EndedAt :: "time option"
  run_CreatedAt :: time
  run_UpdatedAt :: time

record EventDraft =
  ed_Type :: string
  ed_Message :: string
  ed_Data :: string
  ed_Wakeup :: bool
  ed_WakeupAt :: "time option"
  ed_WakeupGeneration :: u64

record Event =
  ev_Seq :: int
  ev_Type :: string
  ev_Message :: string
  ev_Data :: string
  ev_CreatedAt :: time

datatype CheckpointStatus = CheckpointPending | CheckpointResolved | CheckpointOther string

record Checkpoint =
  cp_ID :: string
  cp_Kind :: string
  cp_Status :: CheckpointStatus
  cp_Payload :: string
  cp_Response :: string
  cp_CreatedAt :: time
  cp_ResolvedAt :: "time option"

record RunResult =
  res_ContentType :: string
  res_Content :: string

record Snapshot =
  sn_Run :: Run
  sn_State :: string
  sn_Checkpoint :: "Checkpoint option"
  sn_Result :: "RunResult option"
  sn_EventHead :: int

subsection \<open>Requests and store records\<close>

record CreateRequest =
  cr_ExecutionRequired :: bool
  cr_ID :: string
  cr_Kind :: string
  cr_Actor :: ActorRef
  cr_Thread :: ThreadRef
  cr_RequestID :: string
  cr_Goal :: string
  cr_DeadlineAt :: "time option"
  cr_State :: string
  cr_Events :: "EventDraft list"

record Mutation =
  mu_Status :: RunStatus
  mu_State :: string
  mu_Checkpoint :: "Checkpoint option"
  mu_Result :: "RunResult option"
  mu_ErrorCode :: string
  mu_ErrorDetail :: string
  mu_Events :: "EventDraft list"

record StoreRecord =
  rec_ExecutionRequired :: bool
  rec_Run :: Run
  rec_State :: string
  rec_Checkpoint :: "Checkpoint option"
  rec_Result :: "RunResult option"

record StoreMutation =
  sm_Record :: StoreRecord
  sm_Events :: "EventDraft list"

record CommittedTransition =
  ct_ID :: string
  ct_RunID :: string
  ct_Kind :: string
  ct_Status :: RunStatus
  ct_Revision :: u64
  ct_Events :: "EventDraft list"
  ct_CommittedAt :: time
  ct_Attempts :: u32

record TransitionClaimRequest =
  tcr_WorkerID :: string
  tcr_Limit :: int
  tcr_LeaseDuration :: duration
  tcr_Now :: time

record TransitionClaim =
  tc_Transition :: CommittedTransition
  tc_LeaseID :: string
  tc_WorkerID :: string
  tc_LeaseUntil :: time

record TransitionLeaseRequest =
  tl_TransitionID :: string
  tl_LeaseID :: string
  tl_WorkerID :: string

record TransitionRetryRequest =
  tr_Lease :: TransitionLeaseRequest
  tr_AvailableAt :: time

subsection \<open>Execution leases, quarantine and controls\<close>

record ExecutionLease =
  el_RunID :: string
  el_OwnerID :: string
  el_LeaseID :: string
  el_Epoch :: u64
  el_ExpiresAt :: time

text \<open>The zero value \<open>ExecutionLease{}\<close>.\<close>

definition zero_lease :: ExecutionLease where
  "zero_lease = \<lparr>el_RunID = [], el_OwnerID = [], el_LeaseID = [], el_Epoch = 0, el_ExpiresAt = 0\<rparr>"

record ExecutionAcquireRequest =
  ea_RunID :: string
  ea_OwnerID :: string
  ea_LeaseDuration :: duration

record ExecutionRenewRequest =
  er_Lease :: ExecutionLease
  er_LeaseDuration :: duration

record ExecutionQuarantine =
  eq_RunID :: string
  eq_Revision :: u64
  eq_Generation :: u64
  eq_Reason :: string

datatype ControlKind =
    ControlApproval | ControlAllowance | ControlCancel | ControlDeadline
  | ControlExternalSignal | ControlOther string

record Proof =
  pf_runID :: string
  pf_revision :: u64
  pf_kind :: string
  pf_source :: string
  pf_hash :: string

record ControlGuard =
  cg_Kind :: ControlKind
  cg_CheckpointID :: string
  cg_BlockedCode :: string
  cg_WaitID :: string
  cg_WaitDeadlineAt :: "time option"
  cg_verified :: "Proof option"

end
