(* ===== verification/Kernel_Validate.thy ===== *)
theory Kernel_Validate
  imports Kernel_Types
begin

text \<open>
  The kernel's validation functions: the run state machine and the shape checks of
  \<open>kernel/runtime.go\<close>, the outbox predicate of \<open>kernel/store.go\<close>, lease and quarantine shape
  checks, the sealed proofs of \<open>internal/featurecontrol\<close> and the guard of trusted controls,
  \<open>kernel.ValidateControl\<close>. A Go \<open>error\<close> result is \<open>kernel_error option\<close>, \<open>None\<close> for nil.
\<close>

subsection \<open>The run state machine\<close>

definition terminalStatus :: "RunStatus \<Rightarrow> bool" where
  "terminalStatus status \<longleftrightarrow>
     status = RunStatusCompleted \<or> status = RunStatusFailed \<or> status = RunStatusCancelled"

fun validTransition :: "RunStatus \<Rightarrow> RunStatus \<Rightarrow> bool" where
  "validTransition RunStatusRunning next \<longleftrightarrow>
     next = RunStatusRunning \<or> next = RunStatusWaitingInput \<or> next = RunStatusPausedBudget \<or>
     terminalStatus next"
| "validTransition RunStatusWaitingInput next \<longleftrightarrow> next = RunStatusRunning \<or> terminalStatus next"
| "validTransition RunStatusPausedBudget next \<longleftrightarrow> next = RunStatusRunning \<or> terminalStatus next"
| "validTransition RunStatusCompleted next \<longleftrightarrow> False"
| "validTransition RunStatusFailed next \<longleftrightarrow> False"
| "validTransition RunStatusCancelled next \<longleftrightarrow> False"
| "validTransition (RunStatusOther s) next \<longleftrightarrow> False"

definition NeedsTransitionProjection :: "RunStatus \<Rightarrow> EventDraft list \<Rightarrow> bool" where
  "NeedsTransitionProjection status events \<longleftrightarrow>
     terminalStatus status \<or> list_ex ed_Wakeup events"

subsection \<open>Shape checks\<close>

fun valid_kind_chars :: "nat \<Rightarrow> string \<Rightarrow> bool" where
  "valid_kind_chars index [] \<longleftrightarrow> True"
| "valid_kind_chars index (c # cs) \<longleftrightarrow>
     (CHR ''a'' \<le> c \<and> c \<le> CHR ''z'' \<or>
      0 < index \<and> CHR ''0'' \<le> c \<and> c \<le> CHR ''9'' \<or>
      0 < index \<and> (c = CHR ''_'' \<or> c = CHR ''-'' \<or> c = CHR ''.'')) \<and>
     valid_kind_chars (Suc index) cs"

definition validRunKind :: "string \<Rightarrow> bool" where
  "validRunKind kind \<longleftrightarrow>
     kind \<noteq> [] \<and> length kind \<le> 64 \<and> trim_space kind = kind \<and> valid_kind_chars 0 kind"

definition validActor :: "ActorRef \<Rightarrow> bool" where
  "validActor actor \<longleftrightarrow> \<not> blank (actor_TenantID actor) \<and> \<not> blank (actor_ActorID actor)"

definition validThread :: "ThreadRef \<Rightarrow> bool" where
  "validThread thread \<longleftrightarrow> \<not> blank (thread_Kind thread) \<and> \<not> blank (thread_ID thread)"

definition validState :: "string \<Rightarrow> bool" where
  "validState state \<longleftrightarrow> state \<noteq> [] \<and> json_valid state"

definition validCheckpoint :: "Checkpoint \<Rightarrow> bool" where
  "validCheckpoint cp \<longleftrightarrow>
     (if blank (cp_ID cp) \<or> blank (cp_Kind cp) \<or> \<not> json_valid (cp_Payload cp) \<or> cp_CreatedAt cp = 0
      then False
      else if cp_Status cp = CheckpointPending
      then cp_ResolvedAt cp = None \<and> cp_Response cp = []
      else cp_Status cp = CheckpointResolved \<and> cp_ResolvedAt cp \<noteq> None \<and> json_valid (cp_Response cp))"

definition validResult :: "RunResult \<Rightarrow> bool" where
  "validResult r \<longleftrightarrow> \<not> blank (res_ContentType r) \<and> res_Content r \<noteq> [] \<and> json_valid (res_Content r)"

definition validCreateRequest :: "CreateRequest \<Rightarrow> bool" where
  "validCreateRequest r \<longleftrightarrow>
     validRunKind (cr_Kind r) \<and> validActor (cr_Actor r) \<and> validThread (cr_Thread r) \<and>
     \<not> blank (cr_Goal r) \<and> validState (cr_State r)"

definition validMutationCheckpoint :: "Mutation \<Rightarrow> bool" where
  "validMutationCheckpoint m \<longleftrightarrow>
     (if mu_Status m = RunStatusWaitingInput
      then (case mu_Checkpoint m of
              None \<Rightarrow> False
            | Some cp \<Rightarrow> cp_Status cp = CheckpointPending \<and> validCheckpoint cp)
      else (case mu_Checkpoint m of None \<Rightarrow> True | Some cp \<Rightarrow> validCheckpoint cp))"

definition validMutationResult :: "Mutation \<Rightarrow> bool" where
  "validMutationResult m \<longleftrightarrow>
     (if mu_Status m = RunStatusCompleted
      then (case mu_Result m of None \<Rightarrow> False | Some r \<Rightarrow> validResult r)
      else mu_Result m = None)"

definition validateMutation :: "Snapshot \<Rightarrow> Mutation \<Rightarrow> kernel_error option" where
  "validateMutation current m =
     (if terminalStatus (run_Status (sn_Run current)) then Some ErrTerminal
      else if \<not> validTransition (run_Status (sn_Run current)) (mu_Status m) \<or> \<not> validState (mu_State m)
      then Some ErrInvalidInput
      else if \<not> validMutationCheckpoint m \<or> \<not> validMutationResult m then Some ErrInvalidInput
      else None)"

definition identifiedApplyEventType :: string where
  "identifiedApplyEventType = ''kernel.apply.evidence''"

definition hasReservedApplyEvidence :: "EventDraft list \<Rightarrow> bool" where
  "hasReservedApplyEvidence events \<longleftrightarrow> list_ex (\<lambda>e. ed_Type e = identifiedApplyEventType) events"

subsection \<open>Leases and quarantine requests\<close>

definition maxExecutionLeaseDuration :: duration where
  "maxExecutionLeaseDuration = 24 * 3600 * 1000000000"

definition validExecutionDuration :: "duration \<Rightarrow> bool" where
  "validExecutionDuration ttl \<longleftrightarrow> 1000000 \<le> ttl \<and> ttl \<le> maxExecutionLeaseDuration"

definition validExecutionAcquireRequest :: "ExecutionAcquireRequest \<Rightarrow> bool" where
  "validExecutionAcquireRequest r \<longleftrightarrow>
     \<not> blank (ea_RunID r) \<and> \<not> blank (ea_OwnerID r) \<and> validExecutionDuration (ea_LeaseDuration r)"

definition validExecutionLease :: "ExecutionLease \<Rightarrow> bool" where
  "validExecutionLease l \<longleftrightarrow>
     \<not> blank (el_RunID l) \<and> \<not> blank (el_OwnerID l) \<and> \<not> blank (el_LeaseID l) \<and>
     0 < el_Epoch l \<and> el_ExpiresAt l \<noteq> 0"

definition validExecutionQuarantine :: "ExecutionQuarantine \<Rightarrow> bool" where
  "validExecutionQuarantine v \<longleftrightarrow>
     eq_RunID v \<noteq> [] \<and> trim_space (eq_RunID v) = eq_RunID v \<and> length (eq_RunID v) \<le> 128 \<and>
     0 < eq_Revision v \<and> eq_Revision v \<le> 9223372036854775807 \<and>
     eq_Generation v \<le> 9223372036854775807 \<and>
     eq_Reason v \<noteq> [] \<and> length (eq_Reason v) \<le> 64 \<and> trim_space (eq_Reason v) = eq_Reason v"

subsection \<open>Sealed proofs\<close>

definition checkpoint_status_string :: "CheckpointStatus \<Rightarrow> string" where
  "checkpoint_status_string st = (case st of
       CheckpointPending \<Rightarrow> ''pending'' | CheckpointResolved \<Rightarrow> ''resolved'' | CheckpointOther s \<Rightarrow> s)"

text \<open>\<open>json.Marshal\<close> of a \<open>*Checkpoint\<close>; it fails on an invalid raw message or an
  unrepresentable year.\<close>

definition enc_checkpoint :: "Checkpoint option \<Rightarrow> string option" where
  "enc_checkpoint ocp = (case ocp of
       None \<Rightarrow> Some ''null''
     | Some cp \<Rightarrow>
         (case enc_raw (cp_Payload cp) of None \<Rightarrow> None | Some payload \<Rightarrow>
          case enc_raw (cp_Response cp) of None \<Rightarrow> None | Some response \<Rightarrow>
          case enc_time (cp_CreatedAt cp) of None \<Rightarrow> None | Some created \<Rightarrow>
          case (case cp_ResolvedAt cp of None \<Rightarrow> Some [] | Some t \<Rightarrow>
                  map_option (\<lambda>r. [(''resolvedAt'', r)]) (enc_time t)) of None \<Rightarrow> None
          | Some resolved \<Rightarrow>
            Some (enc_obj ([(''id'', enc_string (cp_ID cp)), (''kind'', enc_string (cp_Kind cp)),
                    (''status'', enc_string (checkpoint_status_string (cp_Status cp))),
                    (''payload'', payload)]
                   @ (if cp_Response cp = [] then [] else [(''response'', response)])
                   @ [(''createdAt'', created)] @ resolved))))"

definition proof_material :: "string \<Rightarrow> Checkpoint option \<Rightarrow> string option" where
  "proof_material state ocp =
     (case enc_raw state of None \<Rightarrow> None | Some st \<Rightarrow>
      case enc_checkpoint ocp of None \<Rightarrow> None | Some cp \<Rightarrow>
        Some (enc_obj [(''state'', st), (''checkpoint'', cp)]))"

definition digest :: "string \<Rightarrow> Checkpoint option \<Rightarrow> string option" where
  "digest state ocp = map_option sha256 (proof_material state ocp)"

definition Seal :: "string \<Rightarrow> u64 \<Rightarrow> string \<Rightarrow> string \<Rightarrow> string \<Rightarrow> Checkpoint option \<Rightarrow> Proof option" where
  "Seal runID revision kind source state ocp =
     (if runID = [] \<or> revision = 0 \<or> kind = [] \<or> source = [] \<or> \<not> json_valid state then None
      else case digest state ocp of
        None \<Rightarrow> None
      | Some h \<Rightarrow> Some \<lparr>pf_runID = runID, pf_revision = revision, pf_kind = kind,
                        pf_source = source, pf_hash = h\<rparr>)"

definition Matches ::
  "Proof option \<Rightarrow> string \<Rightarrow> u64 \<Rightarrow> string \<Rightarrow> string \<Rightarrow> string \<Rightarrow> Checkpoint option \<Rightarrow> bool" where
  "Matches opf runID revision kind source state ocp \<longleftrightarrow> (case opf of
       None \<Rightarrow> False
     | Some p \<Rightarrow>
         if pf_runID p \<noteq> runID \<or> pf_revision p \<noteq> revision \<or> pf_kind p \<noteq> kind \<or> pf_source p \<noteq> source
         then False
         else (case digest state ocp of None \<Rightarrow> False | Some h \<Rightarrow> h = pf_hash p))"

subsection \<open>Trusted controls\<close>

definition control_kind_string :: "ControlKind \<Rightarrow> string" where
  "control_kind_string k = (case k of
       ControlApproval \<Rightarrow> ''approval'' | ControlAllowance \<Rightarrow> ''allowance'' | ControlCancel \<Rightarrow> ''cancel''
     | ControlDeadline \<Rightarrow> ''deadline'' | ControlExternalSignal \<Rightarrow> ''external_signal'' | ControlOther s \<Rightarrow> s)"

definition feature_gated :: "ControlKind \<Rightarrow> bool" where
  "feature_gated k \<longleftrightarrow> k = ControlApproval \<or> k = ControlAllowance \<or> k = ControlExternalSignal"

definition control_source :: "ControlGuard \<Rightarrow> string" where
  "control_source g =
     (if cg_Kind g = ControlExternalSignal then cg_WaitID g
      else if cg_Kind g = ControlAllowance then cg_BlockedCode g
      else cg_CheckpointID g)"

text \<open>The branch of the final \<open>switch\<close> for each kind of control.\<close>

definition check_approval :: "Snapshot \<Rightarrow> ControlGuard \<Rightarrow> StoreRecord \<Rightarrow> kernel_error option" where
  "check_approval current g next =
     (if cg_WaitID g \<noteq> [] \<or> cg_WaitDeadlineAt g \<noteq> None then Some ErrInvalidInput
      else if blank (cg_CheckpointID g) \<or> cg_BlockedCode g \<noteq> [] \<or>
              run_Status (sn_Run current) \<noteq> RunStatusWaitingInput
      then Some ErrInvalidInput
      else case sn_Checkpoint current of
        None \<Rightarrow> Some ErrInvalidInput
      | Some cp \<Rightarrow>
          if cp_ID cp \<noteq> cg_CheckpointID g \<or> cp_Status cp \<noteq> CheckpointPending \<or>
             run_Status (rec_Run next) \<noteq> RunStatusRunning
          then Some ErrInvalidInput
          else case rec_Checkpoint next of
            None \<Rightarrow> Some ErrInvalidInput
          | Some ncp \<Rightarrow>
              if cp_ID ncp \<noteq> cp_ID cp \<or> cp_Kind ncp \<noteq> cp_Kind cp \<or>
                 cp_Status ncp \<noteq> CheckpointResolved \<or> cp_Payload ncp \<noteq> cp_Payload cp
              then Some ErrInvalidInput
              else case unmarshal_string_field ''decision'' (cp_Response ncp) of
                None \<Rightarrow> Some ErrInvalidInput
              | Some d \<Rightarrow> if d \<noteq> ''approve'' \<and> d \<noteq> ''reject'' then Some ErrInvalidInput else None)"

definition check_allowance :: "Snapshot \<Rightarrow> ControlGuard \<Rightarrow> StoreRecord \<Rightarrow> kernel_error option" where
  "check_allowance current g next =
     (if cg_WaitID g \<noteq> [] \<or> cg_WaitDeadlineAt g \<noteq> None then Some ErrInvalidInput
      else if cg_CheckpointID g \<noteq> [] \<or> blank (cg_BlockedCode g) \<or>
              run_Status (sn_Run current) \<noteq> RunStatusPausedBudget \<or>
              run_ErrorCode (sn_Run current) \<noteq> cg_BlockedCode g \<or>
              run_Status (rec_Run next) \<noteq> RunStatusRunning \<or> rec_State next = sn_State current
      then Some ErrInvalidInput
      else None)"

definition check_external_signal ::
  "Snapshot \<Rightarrow> ControlGuard \<Rightarrow> StoreRecord \<Rightarrow> time \<Rightarrow> kernel_error option" where
  "check_external_signal current g next storeNow =
     (if cg_CheckpointID g \<noteq> [] \<or> cg_BlockedCode g \<noteq> [] \<or> blank (cg_WaitID g) \<or>
         cg_WaitDeadlineAt g = None \<or> storeNow = 0 \<or> the (cg_WaitDeadlineAt g) \<le> storeNow \<or>
         run_Status (sn_Run current) \<noteq> RunStatusRunning \<or> run_Status (rec_Run next) \<noteq> RunStatusRunning \<or>
         rec_State next = sn_State current \<or> rec_Checkpoint next \<noteq> sn_Checkpoint current \<or>
         run_ErrorCode (rec_Run next) \<noteq> run_ErrorCode (sn_Run current) \<or>
         run_ErrorDetail (rec_Run next) \<noteq> run_ErrorDetail (sn_Run current)
      then (case cg_WaitDeadlineAt g of
              None \<Rightarrow> Some ErrInvalidInput
            | Some d \<Rightarrow> if d \<le> storeNow then Some ErrDeadline else Some ErrInvalidInput)
      else None)"

definition check_cancel :: "Snapshot \<Rightarrow> ControlGuard \<Rightarrow> StoreRecord \<Rightarrow> kernel_error option" where
  "check_cancel current g next =
     (if cg_WaitID g \<noteq> [] \<or> cg_WaitDeadlineAt g \<noteq> None then Some ErrInvalidInput
      else if cg_CheckpointID g \<noteq> [] \<or> cg_BlockedCode g \<noteq> [] \<or>
              run_Status (rec_Run next) \<noteq> RunStatusCancelled \<or>
              run_ErrorCode (rec_Run next) \<noteq> ''run.cancelled'' \<or> rec_State next \<noteq> sn_State current
      then Some ErrInvalidInput
      else None)"

definition check_deadline ::
  "Snapshot \<Rightarrow> ControlGuard \<Rightarrow> StoreRecord \<Rightarrow> time \<Rightarrow> kernel_error option" where
  "check_deadline current g next storeNow =
     (if cg_WaitID g \<noteq> [] \<or> cg_WaitDeadlineAt g \<noteq> None then Some ErrInvalidInput
      else if cg_CheckpointID g \<noteq> [] \<or> cg_BlockedCode g \<noteq> [] \<or>
              run_Status (rec_Run next) \<noteq> RunStatusFailed \<or>
              run_ErrorCode (rec_Run next) \<noteq> ''run.deadline_exceeded'' \<or>
              rec_State next \<noteq> sn_State current \<or> run_DeadlineAt (sn_Run current) = None \<or>
              storeNow = 0 \<or> storeNow < the (run_DeadlineAt (sn_Run current))
      then Some ErrDeadline
      else None)"

definition ValidateControl ::
  "Snapshot \<Rightarrow> ControlGuard \<Rightarrow> StoreMutation \<Rightarrow> time \<Rightarrow> kernel_error option" where
  "ValidateControl current g mutation storeNow =
     (let next = sm_Record mutation; cur = sn_Run current; nr = rec_Run next in
      if run_ID cur = [] \<or> run_ID nr \<noteq> run_ID cur \<or> run_Revision nr \<noteq> run_Revision cur + 1
      then Some ErrConflict
      else if run_Kind nr \<noteq> run_Kind cur \<or> run_Actor nr \<noteq> run_Actor cur \<or>
              run_Thread nr \<noteq> run_Thread cur \<or> run_Goal nr \<noteq> run_Goal cur \<or>
              run_RequestID nr \<noteq> run_RequestID cur \<or> run_CreatedAt nr \<noteq> run_CreatedAt cur \<or>
              (run_DeadlineAt nr = None) \<noteq> (run_DeadlineAt cur = None)
      then Some ErrInvalidInput
      else if run_DeadlineAt nr \<noteq> None \<and> run_DeadlineAt nr \<noteq> run_DeadlineAt cur
      then Some ErrInvalidInput
      else if terminalStatus (run_Status cur) then Some ErrTerminal
      else if \<not> validTransition (run_Status cur) (run_Status nr) \<or> \<not> validState (rec_State next)
      then Some ErrInvalidInput
      else if rec_Result next \<noteq> None then Some ErrInvalidInput
      else if feature_gated (cg_Kind g) \<and> run_DeadlineAt cur \<noteq> None \<and> the (run_DeadlineAt cur) \<le> storeNow
      then Some ErrDeadline
      else if feature_gated (cg_Kind g) \<and>
              \<not> Matches (cg_verified g) (run_ID cur) (run_Revision cur) (control_kind_string (cg_Kind g))
                  (control_source g) (rec_State next) (rec_Checkpoint next)
      then Some ErrInvalidInput
      else case cg_Kind g of
        ControlApproval \<Rightarrow> check_approval current g next
      | ControlAllowance \<Rightarrow> check_allowance current g next
      | ControlExternalSignal \<Rightarrow> check_external_signal current g next storeNow
      | ControlCancel \<Rightarrow> check_cancel current g next
      | ControlDeadline \<Rightarrow> check_deadline current g next storeNow
      | ControlOther s \<Rightarrow> Some ErrInvalidInput)"

subsection \<open>Facts about the state machine\<close>

lemma terminalStatus_simps [simp]:
  "terminalStatus RunStatusCompleted" "terminalStatus RunStatusFailed" "terminalStatus RunStatusCancelled"
  "\<not> terminalStatus RunStatusRunning" "\<not> terminalStatus RunStatusWaitingInput"
  "\<not> terminalStatus RunStatusPausedBudget" "\<not> terminalStatus (RunStatusOther s)"
  by (simp_all add: terminalStatus_def)

lemma terminal_no_transition: "terminalStatus st \<Longrightarrow> \<not> validTransition st next"
  by (cases st) simp_all

lemma validTransition_known:
  assumes "validTransition st next"
  shows "(\<forall>s. st \<noteq> RunStatusOther s) \<and> (\<forall>s. next \<noteq> RunStatusOther s)"
  using assms by (cases st) (auto simp: terminalStatus_def)

lemma validateMutation_None:
  "validateMutation current m = None \<longleftrightarrow>
     \<not> terminalStatus (run_Status (sn_Run current)) \<and>
     validTransition (run_Status (sn_Run current)) (mu_Status m) \<and> validState (mu_State m) \<and>
     validMutationCheckpoint m \<and> validMutationResult m"
  by (auto simp: validateMutation_def)

lemma NeedsTransitionProjection_terminal [simp]:
  "terminalStatus st \<Longrightarrow> NeedsTransitionProjection st events"
  by (simp add: NeedsTransitionProjection_def)

subsection \<open>Facts about proofs and controls\<close>

lemma Matches_iff:
  "Matches opf runID revision kind source state ocp \<longleftrightarrow>
     (\<exists>h. digest state ocp = Some h \<and>
        opf = Some \<lparr>pf_runID = runID, pf_revision = revision, pf_kind = kind, pf_source = source, pf_hash = h\<rparr>)"
  by (auto simp: Matches_def split: option.splits)

lemma digest_SomeD: "digest state ocp = Some h \<Longrightarrow> \<exists>m. proof_material state ocp = Some m \<and> h = sha256 m"
  by (auto simp: digest_def)

lemma ValidateControl_NoneD:
  assumes "ValidateControl current g mutation now = None"
  shows "run_ID (sn_Run current) \<noteq> []"
    and "run_ID (rec_Run (sm_Record mutation)) = run_ID (sn_Run current)"
    and "run_Revision (rec_Run (sm_Record mutation)) = run_Revision (sn_Run current) + 1"
    and "\<not> terminalStatus (run_Status (sn_Run current))"
    and "validTransition (run_Status (sn_Run current)) (run_Status (rec_Run (sm_Record mutation)))"
    and "rec_Result (sm_Record mutation) = None"
    and "validState (rec_State (sm_Record mutation))"
  using assms by (auto simp: ValidateControl_def Let_def split: if_splits)

text \<open>The immutable identity of a run: everything a control must not rewrite.\<close>

definition run_identity ::
  "Run \<Rightarrow> string \<times> string \<times> ActorRef \<times> ThreadRef \<times> string \<times> string \<times> time \<times> time option" where
  "run_identity r = (run_ID r, run_Kind r, run_Actor r, run_Thread r, run_RequestID r, run_Goal r,
     run_CreatedAt r, run_DeadlineAt r)"

lemma ValidateControl_identity:
  assumes "ValidateControl current g mutation now = None"
  shows "run_identity (rec_Run (sm_Record mutation)) = run_identity (sn_Run current)"
  using assms by (auto simp: ValidateControl_def Let_def run_identity_def split: if_splits)

lemma ValidateControl_gated:
  assumes "ValidateControl current g mutation now = None" and "feature_gated (cg_Kind g)"
  shows "Matches (cg_verified g) (run_ID (sn_Run current)) (run_Revision (sn_Run current))
           (control_kind_string (cg_Kind g)) (control_source g)
           (rec_State (sm_Record mutation)) (rec_Checkpoint (sm_Record mutation))"
    and "\<And>d. run_DeadlineAt (sn_Run current) = Some d \<Longrightarrow> now < d"
  using assms by (auto simp: ValidateControl_def Let_def split: if_splits)

lemma ValidateControl_kind:
  assumes "ValidateControl current g mutation now = None"
  shows "cg_Kind g = ControlApproval \<Longrightarrow> check_approval current g (sm_Record mutation) = None"
    and "cg_Kind g = ControlAllowance \<Longrightarrow> check_allowance current g (sm_Record mutation) = None"
    and "cg_Kind g = ControlExternalSignal \<Longrightarrow> check_external_signal current g (sm_Record mutation) now = None"
    and "cg_Kind g = ControlCancel \<Longrightarrow> check_cancel current g (sm_Record mutation) = None"
    and "cg_Kind g = ControlDeadline \<Longrightarrow> check_deadline current g (sm_Record mutation) now = None"
    and "cg_Kind g \<noteq> ControlOther s"
  using assms by (auto simp: ValidateControl_def Let_def split: if_splits)

end
