(* ===== verification/Memory_Store.thy ===== *)
theory Memory_Store
  imports Kernel_Validate
begin

text \<open>
  The in-memory kernel store: \<open>memory/store.go\<close> (runs, event journals and the
  committed-transition outbox), \<open>memory/execution.go\<close> (fenced execution leases),
  \<open>memory/control.go\<close> and \<open>memory/quarantine.go\<close>.

  Every method holds the store mutex, so it is one atomic function of the store. It returns
  the store it leaves and its result. A Go map whose absent keys read as the zero value
  (\<open>events\<close>, \<open>execution\<close>) is a total function; one that is tested for presence
  (\<open>records\<close>, \<open>transitions\<close>) is a partial map. \<open>st_clock\<close> is the current reading of the
  store's \<open>executionClock\<close>; the random lease identity of \<open>newMemoryLeaseID\<close> is an argument,
  \<open>None\<close> when the entropy source fails.
\<close>

record transitionState =
  ts_transition :: CommittedTransition
  ts_availableAt :: time
  ts_leaseID :: string
  ts_workerID :: string
  ts_leaseUntil :: time

record memoryExecutionState =
  mx_epoch :: u64
  mx_lease :: ExecutionLease
  mx_quarantineRev :: u64
  mx_quarantineGen :: u64
  mx_quarantineCode :: string

definition zero_execution :: memoryExecutionState where
  "zero_execution = \<lparr>mx_epoch = 0, mx_lease = zero_lease, mx_quarantineRev = 0,
     mx_quarantineGen = 0, mx_quarantineCode = []\<rparr>"

record Store =
  st_records :: "string \<rightharpoonup> Snapshot"
  st_events :: "string \<Rightarrow> Event list"
  st_transitions :: "string \<rightharpoonup> transitionState"
  st_transitionOrder :: "string list"
  st_execution :: "string \<Rightarrow> memoryExecutionState"
  st_clock :: time

definition NewStore :: "time \<Rightarrow> Store" where
  "NewStore clock = \<lparr>st_records = Map.empty, st_events = (\<lambda>_. []), st_transitions = Map.empty,
     st_transitionOrder = [], st_execution = (\<lambda>_. zero_execution), st_clock = clock\<rparr>"

subsection \<open>Runs and journals\<close>

definition snapshotFromRecord :: "StoreRecord \<Rightarrow> Snapshot" where
  "snapshotFromRecord r = \<lparr>sn_Run = rec_Run r, sn_State = rec_State r,
     sn_Checkpoint = rec_Checkpoint r, sn_Result = rec_Result r, sn_EventHead = 0\<rparr>"

fun appendEvents :: "Event list \<Rightarrow> EventDraft list \<Rightarrow> time \<Rightarrow> Event list" where
  "appendEvents current [] createdAt = current"
| "appendEvents current (d # ds) createdAt =
     appendEvents (current @ [\<lparr>ev_Seq = int (length current) + 1, ev_Type = ed_Type d,
       ev_Message = ed_Message d, ev_Data = ed_Data d, ev_CreatedAt = createdAt\<rparr>]) ds createdAt"

definition committedTransitionID :: "string \<Rightarrow> u64 \<Rightarrow> string" where
  "committedTransitionID runID revision = runID @ CHR '':'' # dec_u64 revision"

definition appendCommittedTransition :: "Run \<Rightarrow> EventDraft list \<Rightarrow> Store \<Rightarrow> Store" where
  "appendCommittedTransition run events s =
     (if \<not> NeedsTransitionProjection (run_Status run) events then s
      else let tid = committedTransitionID (run_ID run) (run_Revision run) in
        s\<lparr>st_transitions := (st_transitions s)(tid \<mapsto>
             \<lparr>ts_transition = \<lparr>ct_ID = tid, ct_RunID = run_ID run, ct_Kind = run_Kind run,
                ct_Status = run_Status run, ct_Revision = run_Revision run, ct_Events = events,
                ct_CommittedAt = run_UpdatedAt run, ct_Attempts = 0\<rparr>,
              ts_availableAt = 0, ts_leaseID = [], ts_workerID = [], ts_leaseUntil = 0\<rparr>),
          st_transitionOrder := st_transitionOrder s @ [tid]\<rparr>)"

definition Create :: "StoreRecord \<Rightarrow> EventDraft list \<Rightarrow> Store \<Rightarrow> Store \<times> (kernel_error + Snapshot)" where
  "Create r events s =
     (let runID = run_ID (rec_Run r) in
      if st_records s runID \<noteq> None then (s, Inl ErrAlreadyExists)
      else
        let journal = appendEvents [] events (run_UpdatedAt (rec_Run r));
            snapshot = (snapshotFromRecord r)\<lparr>sn_EventHead := int (length journal)\<rparr>;
            s1 = (if rec_ExecutionRequired r
                  then s\<lparr>st_execution := (st_execution s)(runID := zero_execution\<lparr>mx_epoch := 1\<rparr>)\<rparr>
                  else s);
            s2 = s1\<lparr>st_records := (st_records s1)(runID \<mapsto> snapshot),
                    st_events := (st_events s1)(runID := journal)\<rparr>
        in (appendCommittedTransition (rec_Run r) events s2, Inr snapshot))"

definition ListEvents :: "string \<Rightarrow> int \<Rightarrow> int \<Rightarrow> Store \<Rightarrow> kernel_error + Event list" where
  "ListEvents runID afterSeq limit s =
     (if blank runID \<or> afterSeq < 0 \<or> limit \<le> 0 \<or> 10000 < limit then Inl ErrInvalidInput
      else if st_records s runID = None then Inl ErrNotFound
      else
        let journal = st_events s runID; len = int (length journal) in
        if len \<le> afterSeq then Inr []
        else
          let end = (if limit < len - afterSeq then afterSeq + limit else len)
          in Inr (take (nat (end - afterSeq)) (drop (nat afterSeq) journal)))"

definition Load :: "string \<Rightarrow> Store \<Rightarrow> kernel_error + Snapshot" where
  "Load runID s = (case st_records s runID of None \<Rightarrow> Inl ErrNotFound | Some sn \<Rightarrow> Inr sn)"

definition applyLocked ::
  "string \<Rightarrow> u64 \<Rightarrow> StoreMutation \<Rightarrow> Store \<Rightarrow> Store \<times> (kernel_error + Snapshot)" where
  "applyLocked runID expectedRevision m s =
     (case st_records s runID of
        None \<Rightarrow> (s, Inl ErrNotFound)
      | Some current \<Rightarrow>
          if run_Revision (sn_Run current) \<noteq> expectedRevision then (s, Inl ErrConflict)
          else
            let nextEvents = appendEvents (st_events s runID) (sm_Events m) (run_UpdatedAt (rec_Run (sm_Record m)));
                next = (snapshotFromRecord (sm_Record m))\<lparr>sn_EventHead := int (length nextEvents)\<rparr>;
                s1 = s\<lparr>st_records := (st_records s)(runID \<mapsto> next),
                       st_events := (st_events s)(runID := nextEvents)\<rparr>
            in (appendCommittedTransition (rec_Run (sm_Record m)) (sm_Events m) s1, Inr next))"

definition Apply ::
  "string \<Rightarrow> u64 \<Rightarrow> StoreMutation \<Rightarrow> Store \<Rightarrow> Store \<times> (kernel_error + Snapshot)" where
  "Apply runID expectedRevision m s =
     (if 0 < mx_epoch (st_execution s runID) then (s, Inl ErrExecutionRequired)
      else applyLocked runID expectedRevision m s)"

subsection \<open>The committed-transition outbox\<close>

definition transition_lease_id :: "string \<Rightarrow> string \<Rightarrow> u32 \<Rightarrow> string" where
  "transition_lease_id workerID tid attempts =
     workerID @ CHR '':'' # tid @ CHR '':'' # dec_nat (unat attempts)"

definition claimable :: "transitionState \<Rightarrow> time \<Rightarrow> bool" where
  "claimable state now \<longleftrightarrow>
     \<not> (now < ts_availableAt state) \<and> \<not> (ts_leaseUntil state \<noteq> 0 \<and> now < ts_leaseUntil state)"

definition claim_state :: "TransitionClaimRequest \<Rightarrow> string \<Rightarrow> transitionState \<Rightarrow> transitionState" where
  "claim_state req tid state =
     (let t = (ts_transition state)\<lparr>ct_Attempts := ct_Attempts (ts_transition state) + 1\<rparr>;
          worker = trim_space (tcr_WorkerID req)
      in state\<lparr>ts_transition := t, ts_workerID := worker,
               ts_leaseID := transition_lease_id worker tid (ct_Attempts t),
               ts_leaseUntil := tcr_Now req + tcr_LeaseDuration req\<rparr>)"

definition claim_of :: "transitionState \<Rightarrow> TransitionClaim" where
  "claim_of state = \<lparr>tc_Transition = ts_transition state, tc_LeaseID = ts_leaseID state,
     tc_WorkerID = ts_workerID state, tc_LeaseUntil = ts_leaseUntil state\<rparr>"

text \<open>The loop of \<open>ClaimTransitions\<close> over \<open>transitionOrder\<close>. The code allocates a slice with the capacity of the limit before
  it; a limit for which that allocation panics is outside the model.\<close>

fun claim_loop ::
  "TransitionClaimRequest \<Rightarrow> string list \<Rightarrow> (string \<rightharpoonup> transitionState) \<Rightarrow> TransitionClaim list \<Rightarrow>
   (string \<rightharpoonup> transitionState) \<times> TransitionClaim list" where
  "claim_loop req [] trs claims = (trs, claims)"
| "claim_loop req (tid # ids) trs claims =
     (if tcr_Limit req \<le> int (length claims) then (trs, claims)
      else case trs tid of
        None \<Rightarrow> claim_loop req ids trs claims
      | Some state \<Rightarrow>
          if \<not> claimable state (tcr_Now req) then claim_loop req ids trs claims
          else claim_loop req ids (trs(tid \<mapsto> claim_state req tid state))
                 (claims @ [claim_of (claim_state req tid state)]))"

definition ClaimTransitions ::
  "TransitionClaimRequest \<Rightarrow> Store \<Rightarrow> Store \<times> (kernel_error + TransitionClaim list)" where
  "ClaimTransitions req s =
     (if blank (tcr_WorkerID req) \<or> tcr_Limit req \<le> 0 \<or> tcr_LeaseDuration req \<le> 0 \<or> tcr_Now req = 0
      then (s, Inl ErrInvalidInput)
      else case claim_loop req (st_transitionOrder s) (st_transitions s) [] of
        (trs, claims) \<Rightarrow> (s\<lparr>st_transitions := trs\<rparr>, Inr claims))"

definition validTransitionLease :: "TransitionLeaseRequest \<Rightarrow> bool" where
  "validTransitionLease r \<longleftrightarrow>
     \<not> blank (tl_TransitionID r) \<and> \<not> blank (tl_LeaseID r) \<and> \<not> blank (tl_WorkerID r)"

text \<open>\<open>compactTransitionOrder\<close> drops acknowledged identities from the front only.\<close>

fun compactTransitionOrder :: "(string \<rightharpoonup> transitionState) \<Rightarrow> string list \<Rightarrow> string list" where
  "compactTransitionOrder trs [] = []"
| "compactTransitionOrder trs (tid # ids) =
     (if trs tid \<noteq> None then tid # ids else compactTransitionOrder trs ids)"

definition AckTransition :: "TransitionLeaseRequest \<Rightarrow> Store \<Rightarrow> Store \<times> kernel_error option" where
  "AckTransition r s =
     (if \<not> validTransitionLease r then (s, Some ErrInvalidInput)
      else case st_transitions s (tl_TransitionID r) of
        None \<Rightarrow> (s, Some ErrNotFound)
      | Some state \<Rightarrow>
          if ts_leaseID state \<noteq> tl_LeaseID r \<or> ts_workerID state \<noteq> tl_WorkerID r then (s, Some ErrConflict)
          else let trs = (st_transitions s)(tl_TransitionID r := None)
               in (s\<lparr>st_transitions := trs,
                     st_transitionOrder := compactTransitionOrder trs (st_transitionOrder s)\<rparr>, None))"

definition RetryTransition :: "TransitionRetryRequest \<Rightarrow> Store \<Rightarrow> Store \<times> kernel_error option" where
  "RetryTransition rr s =
     (let r = tr_Lease rr in
      if \<not> validTransitionLease r then (s, Some ErrInvalidInput)
      else case st_transitions s (tl_TransitionID r) of
        None \<Rightarrow> (s, Some ErrNotFound)
      | Some state \<Rightarrow>
          if ts_leaseID state \<noteq> tl_LeaseID r \<or> ts_workerID state \<noteq> tl_WorkerID r then (s, Some ErrConflict)
          else (s\<lparr>st_transitions := (st_transitions s)(tl_TransitionID r \<mapsto>
                    state\<lparr>ts_availableAt := tr_AvailableAt rr, ts_leaseID := [], ts_workerID := [],
                          ts_leaseUntil := 0\<rparr>)\<rparr>, None))"

subsection \<open>Fenced execution\<close>

definition currentExecutionTime :: "Store \<Rightarrow> time" where
  "currentExecutionTime s = st_clock s"

definition validMemoryExecutionRequest :: "ExecutionAcquireRequest \<Rightarrow> bool" where
  "validMemoryExecutionRequest r \<longleftrightarrow>
     \<not> blank (ea_RunID r) \<and> \<not> blank (ea_OwnerID r) \<and>
     1000000 \<le> ea_LeaseDuration r \<and> ea_LeaseDuration r \<le> 24 * 3600 * 1000000000"

definition validMemoryLease :: "ExecutionLease \<Rightarrow> bool" where
  "validMemoryLease l \<longleftrightarrow>
     el_RunID l \<noteq> [] \<and> el_OwnerID l \<noteq> [] \<and> el_LeaseID l \<noteq> [] \<and> el_Epoch l \<noteq> 0 \<and> el_ExpiresAt l \<noteq> 0"

definition activeMemoryLease :: "memoryExecutionState \<Rightarrow> ExecutionLease \<Rightarrow> time \<Rightarrow> bool" where
  "activeMemoryLease state claimed now \<longleftrightarrow>
     0 < mx_epoch state \<and> el_RunID (mx_lease state) = el_RunID claimed \<and>
     el_OwnerID (mx_lease state) = el_OwnerID claimed \<and> el_LeaseID (mx_lease state) = el_LeaseID claimed \<and>
     el_Epoch (mx_lease state) = el_Epoch claimed \<and> now < el_ExpiresAt (mx_lease state)"

definition AcquireExecution ::
  "ctx \<Rightarrow> string option \<Rightarrow> ExecutionAcquireRequest \<Rightarrow> Store \<Rightarrow> Store \<times> (kernel_error + ExecutionLease)" where
  "AcquireExecution cx fresh r s =
     (if cx = CtxNil \<or> \<not> validMemoryExecutionRequest r then (s, Inl ErrInvalidInput)
      else case cx of CtxDone e \<Rightarrow> (s, Inl (ErrContext e)) | _ \<Rightarrow>
        (case st_records s (ea_RunID r) of
           None \<Rightarrow> (s, Inl ErrNotFound)
         | Some snap \<Rightarrow>
             if terminalStatus (run_Status (sn_Run snap)) then (s, Inl ErrTerminal)
             else if run_Status (sn_Run snap) \<noteq> RunStatusRunning then (s, Inl ErrExecutionConflict)
             else
               let now = currentExecutionTime s; state = st_execution s (ea_RunID r) in
               if mx_quarantineRev state \<noteq> 0 then (s, Inl ErrExecutionQuarantined)
               else if mx_epoch state = 0 then (s, Inl ErrExecutionRequired)
               else if 0 < mx_epoch state \<and> now < el_ExpiresAt (mx_lease state)
               then (s, Inl ErrExecutionConflict)
               else if mx_epoch state = max_u64 then (s, Inl ErrExecutionConflict)
               else case fresh of
                 None \<Rightarrow> (s, Inl ErrEntropy)
               | Some leaseID \<Rightarrow>
                   let lease = \<lparr>el_RunID = ea_RunID r, el_OwnerID = trim_space (ea_OwnerID r), el_LeaseID = leaseID,
                         el_Epoch = mx_epoch state + 1, el_ExpiresAt = now + ea_LeaseDuration r\<rparr>
                   in (s\<lparr>st_execution := (st_execution s)(ea_RunID r :=
                          state\<lparr>mx_epoch := el_Epoch lease, mx_lease := lease\<rparr>)\<rparr>, Inr lease)))"

definition RenewExecution ::
  "ctx \<Rightarrow> ExecutionRenewRequest \<Rightarrow> Store \<Rightarrow> Store \<times> (kernel_error + ExecutionLease)" where
  "RenewExecution cx r s =
     (if cx = CtxNil \<or> \<not> validMemoryLease (er_Lease r) \<or> er_LeaseDuration r < 1000000 \<or>
         24 * 3600 * 1000000000 < er_LeaseDuration r
      then (s, Inl ErrInvalidInput)
      else case cx of CtxDone e \<Rightarrow> (s, Inl (ErrContext e)) | _ \<Rightarrow>
        (let now = currentExecutionTime s; runID = el_RunID (er_Lease r); state = st_execution s runID in
         if \<not> activeMemoryLease state (er_Lease r) now then (s, Inl ErrExecutionConflict)
         else
           let lease = (mx_lease state)\<lparr>el_ExpiresAt := now + er_LeaseDuration r\<rparr>
           in (s\<lparr>st_execution := (st_execution s)(runID := state\<lparr>mx_lease := lease\<rparr>)\<rparr>, Inr lease)))"

definition ReleaseExecution :: "ctx \<Rightarrow> ExecutionLease \<Rightarrow> Store \<Rightarrow> Store \<times> kernel_error option" where
  "ReleaseExecution cx lease s =
     (if cx = CtxNil \<or> \<not> validMemoryLease lease then (s, Some ErrInvalidInput)
      else case cx of CtxDone e \<Rightarrow> (s, Some (ErrContext e)) | _ \<Rightarrow>
        (let state = st_execution s (el_RunID lease) in
         if \<not> activeMemoryLease state lease (currentExecutionTime s) then (s, Some ErrExecutionConflict)
         else (s\<lparr>st_execution := (st_execution s)(el_RunID lease := state\<lparr>mx_lease := zero_lease\<rparr>)\<rparr>, None)))"

definition ApplyExecution ::
  "ctx \<Rightarrow> ExecutionLease \<Rightarrow> u64 \<Rightarrow> StoreMutation \<Rightarrow> Store \<Rightarrow> Store \<times> (kernel_error + Snapshot)" where
  "ApplyExecution cx lease expectedRevision m s =
     (if cx = CtxNil \<or> \<not> validMemoryLease lease \<or> expectedRevision = 0 \<or>
         run_ID (rec_Run (sm_Record m)) \<noteq> el_RunID lease \<or>
         run_Revision (rec_Run (sm_Record m)) \<noteq> expectedRevision + 1
      then (s, Inl ErrInvalidInput)
      else case cx of CtxDone e \<Rightarrow> (s, Inl (ErrContext e)) | _ \<Rightarrow>
        (let state = st_execution s (el_RunID lease) in
         if mx_quarantineRev state \<noteq> 0 then (s, Inl ErrExecutionQuarantined)
         else if \<not> activeMemoryLease state lease (currentExecutionTime s) then (s, Inl ErrExecutionConflict)
         else case st_records s (el_RunID lease) of
           None \<Rightarrow> (s, Inl ErrNotFound)
         | Some current \<Rightarrow>
             if run_Status (sn_Run current) \<noteq> RunStatusRunning then (s, Inl ErrExecutionRequired)
             else applyLocked (el_RunID lease) expectedRevision m s))"

definition CheckExecution :: "ctx \<Rightarrow> string \<Rightarrow> ExecutionLease option \<Rightarrow> Store \<Rightarrow> kernel_error option" where
  "CheckExecution cx runID lease s =
     (if cx = CtxNil \<or> blank runID then Some ErrInvalidInput
      else case cx of CtxDone e \<Rightarrow> Some (ErrContext e) | _ \<Rightarrow>
        (case st_records s runID of
           None \<Rightarrow> Some ErrNotFound
         | Some snap \<Rightarrow>
             if terminalStatus (run_Status (sn_Run snap)) then Some ErrTerminal
             else
               let state = st_execution s runID in
               if mx_quarantineRev state \<noteq> 0 then Some ErrExecutionQuarantined
               else case lease of
                 None \<Rightarrow> if 0 < mx_epoch state then Some ErrExecutionRequired else None
               | Some l \<Rightarrow>
                   if \<not> validMemoryLease l \<or> el_RunID l \<noteq> runID then Some ErrExecutionConflict
                   else if run_Status (sn_Run snap) \<noteq> RunStatusRunning then Some ErrExecutionRequired
                   else if \<not> activeMemoryLease state l (currentExecutionTime s) then Some ErrExecutionConflict
                   else None))"

subsection \<open>Controls and quarantine\<close>

definition ApplyControl ::
  "ctx \<Rightarrow> string \<Rightarrow> u64 \<Rightarrow> ControlGuard \<Rightarrow> StoreMutation \<Rightarrow> Store \<Rightarrow> Store \<times> (kernel_error + Snapshot \<times> bool)" where
  "ApplyControl cx runID expectedRevision g m s =
     (if cx = CtxNil \<or> runID = [] \<or> expectedRevision = 0 then (s, Inl ErrInvalidInput)
      else case cx of CtxDone e \<Rightarrow> (s, Inl (ErrContext e)) | _ \<Rightarrow>
        (case st_records s runID of
           None \<Rightarrow> (s, Inl ErrNotFound)
         | Some current \<Rightarrow>
             if run_Revision (sn_Run current) \<noteq> expectedRevision then (s, Inl ErrConflict)
             else case ValidateControl current g m (currentExecutionTime s) of
               Some e \<Rightarrow> (s, Inl e)
             | None \<Rightarrow>
                 let authority = st_execution s runID in
                 if mx_quarantineRev authority \<noteq> 0 \<and>
                    run_Status (rec_Run (sm_Record m)) = RunStatusRunning
                 then (s, Inl ErrExecutionQuarantined)
                 else if mx_epoch authority = max_u64 then (s, Inl ErrExecutionConflict)
                 else
                   let revoked = 0 < mx_epoch authority;
                       s1 = (if revoked
                             then s\<lparr>st_execution := (st_execution s)(runID :=
                                    authority\<lparr>mx_epoch := mx_epoch authority + 1, mx_lease := zero_lease\<rparr>)\<rparr>
                             else s)
                   in case applyLocked runID expectedRevision m s1 of
                        (s2, Inl e) \<Rightarrow> (s2, Inl e)
                      | (s2, Inr sn) \<Rightarrow> (s2, Inr (sn, revoked))))"

definition validMemoryQuarantine :: "ExecutionQuarantine \<Rightarrow> bool" where
  "validMemoryQuarantine v \<longleftrightarrow>
     eq_RunID v \<noteq> [] \<and> trim_space (eq_RunID v) = eq_RunID v \<and> 0 < eq_Revision v \<and>
     eq_Reason v \<noteq> [] \<and> length (eq_Reason v) \<le> 64 \<and> trim_space (eq_Reason v) = eq_Reason v"

definition QuarantineExecution :: "ctx \<Rightarrow> ExecutionQuarantine \<Rightarrow> Store \<Rightarrow> Store \<times> kernel_error option" where
  "QuarantineExecution cx v s =
     (if cx = CtxNil \<or> \<not> validMemoryQuarantine v then (s, Some ErrInvalidInput)
      else case cx of CtxDone e \<Rightarrow> (s, Some (ErrContext e)) | _ \<Rightarrow>
        (case st_records s (eq_RunID v) of
           None \<Rightarrow> (s, Some ErrNotFound)
         | Some snapshot \<Rightarrow>
             if run_Revision (sn_Run snapshot) \<noteq> eq_Revision v then (s, Some ErrConflict)
             else if run_Status (sn_Run snapshot) \<noteq> RunStatusRunning then (s, Some ErrExecutionRequired)
             else
               let state = st_execution s (eq_RunID v) in
               if mx_epoch state = 0 then (s, Some ErrExecutionRequired)
               else if mx_quarantineRev state \<noteq> 0 then
                 (if mx_quarantineGen state = eq_Generation v \<and> mx_quarantineCode state = eq_Reason v
                  then (s, None) else (s, Some ErrConflict))
               else if mx_epoch state = max_u64 then (s, Some ErrExecutionConflict)
               else (s\<lparr>st_execution := (st_execution s)(eq_RunID v :=
                      \<lparr>mx_epoch = mx_epoch state + 1, mx_lease = zero_lease, mx_quarantineRev = eq_Revision v,
                       mx_quarantineGen = eq_Generation v, mx_quarantineCode = eq_Reason v\<rparr>)\<rparr>, None)))"

definition RepairExecutionQuarantine :: "ctx \<Rightarrow> ExecutionQuarantine \<Rightarrow> Store \<Rightarrow> Store \<times> kernel_error option" where
  "RepairExecutionQuarantine cx v s =
     (if cx = CtxNil \<or> \<not> validMemoryQuarantine v then (s, Some ErrInvalidInput)
      else case cx of CtxDone e \<Rightarrow> (s, Some (ErrContext e)) | _ \<Rightarrow>
        (case st_records s (eq_RunID v) of
           None \<Rightarrow> (s, Some ErrNotFound)
         | Some snapshot \<Rightarrow>
             let state = st_execution s (eq_RunID v) in
             if run_Revision (sn_Run snapshot) \<noteq> eq_Revision v \<or>
                run_Status (sn_Run snapshot) \<noteq> RunStatusRunning \<or>
                mx_quarantineRev state \<noteq> eq_Revision v \<or> mx_quarantineGen state \<noteq> eq_Generation v \<or>
                mx_quarantineCode state \<noteq> eq_Reason v
             then (s, Some ErrConflict)
             else (s\<lparr>st_execution := (st_execution s)(eq_RunID v :=
                    state\<lparr>mx_quarantineRev := 0, mx_quarantineGen := 0, mx_quarantineCode := []\<rparr>)\<rparr>, None)))"

end
