(* ===== verification/Kernel_Runtime.thy ===== *)
theory Kernel_Runtime
  imports Memory_Store
begin

text \<open>
  The kernel runtime, \<open>kernel/runtime.go\<close>, \<open>kernel/execution.go\<close>, \<open>kernel/quarantine.go\<close> and
  the entry point \<open>Runtime.ApplyControl\<close> of \<open>kernel/control.go\<close>, over the store interface.

  A Go interface value is a record of functions on the store's state \<open>'s\<close> (a \<open>store_port\<close>);
  an optional capability that the code finds by a type assertion is an optional field. The
  runtime itself has no state but the lease it may be bound to. The clock reading of
  \<open>runtime.Now()\<close> and the answer of \<open>runtime.NewID\<close> are arguments. \<open>Runtime.apply\<close> and
  \<open>Runtime.ApplyControl\<close> first read and validate and then write, and other callers may run in
  between; each is the composition of a \<open>prepare\<close> phase and a \<open>commit\<close> phase, which
  \<open>Kernel_System\<close> interleaves. Methods are modelled on non-nil receivers.
\<close>

subsection \<open>The store interface\<close>

record 's execution_port =
  port_AcquireExecution ::
    "ctx \<Rightarrow> string option \<Rightarrow> ExecutionAcquireRequest \<Rightarrow> 's \<Rightarrow> 's \<times> (kernel_error + ExecutionLease)"
  port_RenewExecution :: "ctx \<Rightarrow> ExecutionRenewRequest \<Rightarrow> 's \<Rightarrow> 's \<times> (kernel_error + ExecutionLease)"
  port_ReleaseExecution :: "ctx \<Rightarrow> ExecutionLease \<Rightarrow> 's \<Rightarrow> 's \<times> kernel_error option"
  port_ApplyExecution ::
    "ctx \<Rightarrow> ExecutionLease \<Rightarrow> u64 \<Rightarrow> StoreMutation \<Rightarrow> 's \<Rightarrow> 's \<times> (kernel_error + Snapshot)"
  port_CheckExecution :: "ctx \<Rightarrow> string \<Rightarrow> ExecutionLease option \<Rightarrow> 's \<Rightarrow> kernel_error option"

record 's quarantine_port =
  port_QuarantineExecution :: "ctx \<Rightarrow> ExecutionQuarantine \<Rightarrow> 's \<Rightarrow> 's \<times> kernel_error option"
  port_RepairExecutionQuarantine :: "ctx \<Rightarrow> ExecutionQuarantine \<Rightarrow> 's \<Rightarrow> 's \<times> kernel_error option"

record 's store_port =
  port_Create :: "StoreRecord \<Rightarrow> EventDraft list \<Rightarrow> 's \<Rightarrow> 's \<times> (kernel_error + Snapshot)"
  port_Load :: "string \<Rightarrow> 's \<Rightarrow> kernel_error + Snapshot"
  port_Apply :: "string \<Rightarrow> u64 \<Rightarrow> StoreMutation \<Rightarrow> 's \<Rightarrow> 's \<times> (kernel_error + Snapshot)"
  port_ListEvents :: "string \<Rightarrow> int \<Rightarrow> int \<Rightarrow> 's \<Rightarrow> kernel_error + Event list"
  port_execution :: "'s execution_port option"
  port_control ::
    "(ctx \<Rightarrow> string \<Rightarrow> u64 \<Rightarrow> ControlGuard \<Rightarrow> StoreMutation \<Rightarrow> 's \<Rightarrow> 's \<times> (kernel_error + Snapshot \<times> bool)) option"
  port_quarantine :: "'s quarantine_port option"

text \<open>The in-memory store implements every optional capability.\<close>

definition memory_port :: "Store store_port" where
  "memory_port = \<lparr>
     port_Create = Create, port_Load = Load, port_Apply = Apply, port_ListEvents = ListEvents,
     port_execution = Some \<lparr>port_AcquireExecution = AcquireExecution, port_RenewExecution = RenewExecution,
        port_ReleaseExecution = ReleaseExecution, port_ApplyExecution = ApplyExecution,
        port_CheckExecution = CheckExecution\<rparr>,
     port_control = Some ApplyControl,
     port_quarantine = Some \<lparr>port_QuarantineExecution = QuarantineExecution,
        port_RepairExecutionQuarantine = RepairExecutionQuarantine\<rparr>\<rparr>"

lemma memory_port_simps [simp]:
  "port_Create memory_port = Create" "port_Load memory_port = Load"
  "port_Apply memory_port = Apply" "port_ListEvents memory_port = ListEvents"
  "port_execution memory_port = Some \<lparr>port_AcquireExecution = AcquireExecution,
     port_RenewExecution = RenewExecution, port_ReleaseExecution = ReleaseExecution,
     port_ApplyExecution = ApplyExecution, port_CheckExecution = CheckExecution\<rparr>"
  "port_control memory_port = Some ApplyControl"
  "port_quarantine memory_port = Some \<lparr>port_QuarantineExecution = QuarantineExecution,
     port_RepairExecutionQuarantine = RepairExecutionQuarantine\<rparr>"
  by (simp_all add: memory_port_def)

text \<open>The lease a runtime is bound to (\<open>Runtime.execution\<close>), if any.\<close>

type_synonym binding = "ExecutionLease option"

subsection \<open>Reading and creating runs\<close>

definition rt_Load :: "'s store_port \<Rightarrow> string \<Rightarrow> 's \<Rightarrow> kernel_error + Snapshot" where
  "rt_Load port runID s =
     (if blank runID then Inl ErrInvalidInput else port_Load port (trim_space runID) s)"

definition rt_ListEvents :: "'s store_port \<Rightarrow> string \<Rightarrow> int \<Rightarrow> int \<Rightarrow> 's \<Rightarrow> kernel_error + Event list" where
  "rt_ListEvents port runID afterSeq limit s =
     (if blank runID \<or> afterSeq < 0 \<or> limit \<le> 0 \<or> 10000 < limit then Inl ErrInvalidInput
      else port_ListEvents port (trim_space runID) afterSeq limit s)"

definition SupportsExecution :: "'s store_port \<Rightarrow> bool" where
  "SupportsExecution port \<longleftrightarrow> port_execution port \<noteq> None"

definition run_created_draft :: EventDraft where
  "run_created_draft = \<lparr>ed_Type = ''run.created'', ed_Message = ''Run created'', ed_Data = [],
     ed_Wakeup = False, ed_WakeupAt = None, ed_WakeupGeneration = 0\<rparr>"

definition rt_Create ::
  "'s store_port \<Rightarrow> time \<Rightarrow> (kernel_error + string) \<Rightarrow> CreateRequest \<Rightarrow> 's \<Rightarrow> 's \<times> (kernel_error + Snapshot)" where
  "rt_Create port now newID r s =
     (if \<not> validCreateRequest r \<or> hasReservedApplyEvidence (cr_Events r) then (s, Inl ErrInvalidInput)
      else if cr_ExecutionRequired r \<and> \<not> SupportsExecution port then (s, Inl ErrExecutionRequired)
      else case (if trim_space (cr_ID r) = [] then newID else Inr (trim_space (cr_ID r))) of
        Inl e \<Rightarrow> (s, Inl e)
      | Inr runID \<Rightarrow>
          if (case cr_DeadlineAt r of None \<Rightarrow> False | Some d \<Rightarrow> d \<le> now) then (s, Inl ErrDeadline)
          else
            port_Create port
              \<lparr>rec_ExecutionRequired = cr_ExecutionRequired r,
               rec_Run = \<lparr>run_ID = runID, run_Kind = cr_Kind r, run_Actor = cr_Actor r,
                 run_Thread = cr_Thread r, run_RequestID = trim_space (cr_RequestID r),
                 run_Goal = trim_space (cr_Goal r), run_Status = RunStatusRunning, run_Revision = 1,
                 run_ErrorCode = [], run_ErrorDetail = [], run_DeadlineAt = cr_DeadlineAt r,
                 run_EndedAt = None, run_CreatedAt = now, run_UpdatedAt = now\<rparr>,
               rec_State = cr_State r, rec_Checkpoint = None, rec_Result = None\<rparr>
              (run_created_draft # cr_Events r) s)"

subsection \<open>Feature-owned transitions\<close>

definition makeStoreMutation :: "time \<Rightarrow> Snapshot \<Rightarrow> Mutation \<Rightarrow> StoreMutation" where
  "makeStoreMutation now current m =
     (let next = (sn_Run current)\<lparr>run_Status := mu_Status m, run_Revision := run_Revision (sn_Run current) + 1,
            run_ErrorCode := trim_space (mu_ErrorCode m), run_ErrorDetail := trim_space (mu_ErrorDetail m),
            run_UpdatedAt := now\<rparr>;
          next' = (if terminalStatus (mu_Status m) then next\<lparr>run_EndedAt := Some now\<rparr> else next)
      in \<lparr>sm_Record = \<lparr>rec_ExecutionRequired = False, rec_Run = next', rec_State = mu_State m,
            rec_Checkpoint = mu_Checkpoint m, rec_Result = mu_Result m\<rparr>,
          sm_Events = mu_Events m\<rparr>)"

definition validBoundRun :: "binding \<Rightarrow> string \<Rightarrow> bool" where
  "validBoundRun b runID \<longleftrightarrow> (case b of None \<Rightarrow> True | Some l \<Rightarrow> validExecutionLease l \<and> el_RunID l = runID)"

definition apply_prepare ::
  "'s store_port \<Rightarrow> binding \<Rightarrow> time \<Rightarrow> string \<Rightarrow> u64 \<Rightarrow> Mutation \<Rightarrow> bool \<Rightarrow> 's \<Rightarrow> kernel_error + StoreMutation" where
  "apply_prepare port b now runID expectedRevision m evidence s =
     (if blank runID \<or> expectedRevision = 0 then Inl ErrInvalidInput
      else if \<not> evidence \<and> hasReservedApplyEvidence (mu_Events m) then Inl ErrInvalidInput
      else if \<not> validBoundRun b (trim_space runID) then Inl ErrExecutionConflict
      else case port_Load port (trim_space runID) s of
        Inl e \<Rightarrow> Inl e
      | Inr current \<Rightarrow>
          if run_Revision (sn_Run current) \<noteq> expectedRevision then Inl ErrConflict
          else case validateMutation current m of
            Some e \<Rightarrow> Inl e
          | None \<Rightarrow> Inr (makeStoreMutation now current m))"

definition apply_commit ::
  "'s store_port \<Rightarrow> ctx \<Rightarrow> binding \<Rightarrow> string \<Rightarrow> u64 \<Rightarrow> StoreMutation \<Rightarrow> 's \<Rightarrow> 's \<times> (kernel_error + Snapshot)" where
  "apply_commit port cx b runID expectedRevision proposed s =
     (case b of
        Some lease \<Rightarrow>
          (case port_execution port of
             None \<Rightarrow> (s, Inl ErrExecutionRequired)
           | Some x \<Rightarrow> port_ApplyExecution x cx lease expectedRevision proposed s)
      | None \<Rightarrow> port_Apply port runID expectedRevision proposed s)"

definition rt_apply ::
  "'s store_port \<Rightarrow> ctx \<Rightarrow> binding \<Rightarrow> time \<Rightarrow> string \<Rightarrow> u64 \<Rightarrow> Mutation \<Rightarrow> bool \<Rightarrow> 's \<Rightarrow> 's \<times> (kernel_error + Snapshot)" where
  "rt_apply port cx b now runID expectedRevision m evidence s =
     (case apply_prepare port b now runID expectedRevision m evidence s of
        Inl e \<Rightarrow> (s, Inl e)
      | Inr proposed \<Rightarrow> apply_commit port cx b runID expectedRevision proposed s)"

definition rt_Apply ::
  "'s store_port \<Rightarrow> ctx \<Rightarrow> binding \<Rightarrow> time \<Rightarrow> string \<Rightarrow> u64 \<Rightarrow> Mutation \<Rightarrow> 's \<Rightarrow> 's \<times> (kernel_error + Snapshot)" where
  "rt_Apply port cx b now runID expectedRevision m s = rt_apply port cx b now runID expectedRevision m False s"

subsection \<open>Trusted controls\<close>

text \<open>
  \<open>controlPreStoreFailure\<close> marks an error raised before the write-capable store call,
  \<open>controlStoreOutcomeError\<close> one returned by it, whatever the store returned; \<open>IsControlNoEffect\<close> recognises only
  the first and only directly. A nil error has no wrapper: a result that is not an error passes unchanged.
\<close>

definition controlNoEffectBeforeStore :: "kernel_error \<Rightarrow> kernel_error" where
  [simp]: "controlNoEffectBeforeStore cause = ControlPreStoreFailure cause"

fun controlStoreOutcome :: "kernel_error + 'a \<Rightarrow> kernel_error + 'a" where
  "controlStoreOutcome (Inr r) = Inr r"
| "controlStoreOutcome (Inl cause) = Inl (ControlStoreOutcomeError cause)"

fun IsControlNoEffect :: "kernel_error \<Rightarrow> bool" where
  "IsControlNoEffect (ControlPreStoreFailure cause) \<longleftrightarrow> True"
| "IsControlNoEffect err \<longleftrightarrow> False"

lemma controlStoreOutcome_iff [simp]:
  "controlStoreOutcome r = Inr v \<longleftrightarrow> r = Inr v" "controlStoreOutcome r = Inl e \<longleftrightarrow> (\<exists>c. r = Inl c \<and> e = ControlStoreOutcomeError c)"
  by (cases r; auto)+

definition control_prepare ::
  "'s store_port \<Rightarrow> binding \<Rightarrow> time \<Rightarrow> string \<Rightarrow> u64 \<Rightarrow> ControlGuard \<Rightarrow> Mutation \<Rightarrow> Proof option \<Rightarrow> 's \<Rightarrow>
   kernel_error + ControlGuard \<times> StoreMutation" where
  "control_prepare port b now runID expectedRevision g m permit s =
     (if b \<noteq> None \<or> hasReservedApplyEvidence (mu_Events m) then Inl ErrInvalidInput
      else case rt_Load port runID s of
        Inl e \<Rightarrow> Inl e
      | Inr current \<Rightarrow>
          if run_Revision (sn_Run current) \<noteq> expectedRevision then Inl ErrConflict
          else case validateMutation current m of
            Some e \<Rightarrow> Inl e
          | None \<Rightarrow>
              let next = makeStoreMutation now current m; g' = g\<lparr>cg_verified := permit\<rparr> in
              case ValidateControl current g' next now of
                Some e \<Rightarrow> Inl e
              | None \<Rightarrow> Inr (g', next))"

definition control_commit ::
  "'s store_port \<Rightarrow> ctx \<Rightarrow> string \<Rightarrow> u64 \<Rightarrow> ControlGuard \<Rightarrow> StoreMutation \<Rightarrow> 's \<Rightarrow>
   's \<times> (kernel_error + Snapshot \<times> bool)" where
  "control_commit port cx runID expectedRevision g next s =
     (case port_control port of
        Some ctl \<Rightarrow>
          (case ctl cx runID expectedRevision g next s of (s', result) \<Rightarrow> (s', controlStoreOutcome result))
      | None \<Rightarrow>
          if port_execution port \<noteq> None then (s, Inl (controlNoEffectBeforeStore ErrExecutionRequired))
          else case port_Apply port runID expectedRevision next s of
                 (s', result) \<Rightarrow> (s', case controlStoreOutcome result of Inl e \<Rightarrow> Inl e | Inr sn \<Rightarrow> Inr (sn, False)))"

definition rt_ApplyControl ::
  "'s store_port \<Rightarrow> ctx \<Rightarrow> binding \<Rightarrow> time \<Rightarrow> string \<Rightarrow> u64 \<Rightarrow> ControlGuard \<Rightarrow> Mutation \<Rightarrow> Proof option \<Rightarrow> 's \<Rightarrow>
   's \<times> (kernel_error + Snapshot \<times> bool)" where
  "rt_ApplyControl port cx b now runID expectedRevision g m permit s =
     (case control_prepare port b now runID expectedRevision g m permit s of
        Inl e \<Rightarrow> (s, Inl (controlNoEffectBeforeStore e))
      | Inr (g', next) \<Rightarrow> control_commit port cx runID expectedRevision g' next s)"

definition plain_guard :: "ControlKind \<Rightarrow> ControlGuard" where
  "plain_guard k = \<lparr>cg_Kind = k, cg_CheckpointID = [], cg_BlockedCode = [], cg_WaitID = [],
     cg_WaitDeadlineAt = None, cg_verified = None\<rparr>"

definition notice_draft :: "string \<Rightarrow> string \<Rightarrow> EventDraft" where
  "notice_draft ty msg = \<lparr>ed_Type = ty, ed_Message = msg, ed_Data = [], ed_Wakeup = False,
     ed_WakeupAt = None, ed_WakeupGeneration = 0\<rparr>"

definition cancel_mutation :: "Snapshot \<Rightarrow> string \<Rightarrow> Mutation" where
  "cancel_mutation current reason = \<lparr>mu_Status = RunStatusCancelled, mu_State = sn_State current,
     mu_Checkpoint = None, mu_Result = None, mu_ErrorCode = ''run.cancelled'',
     mu_ErrorDetail = trim_space reason, mu_Events = [notice_draft ''run.cancelled'' (trim_space reason)]\<rparr>"

definition rt_Cancel ::
  "'s store_port \<Rightarrow> ctx \<Rightarrow> binding \<Rightarrow> time \<Rightarrow> string \<Rightarrow> u64 \<Rightarrow> string \<Rightarrow> 's \<Rightarrow> 's \<times> (kernel_error + Snapshot)" where
  "rt_Cancel port cx b now runID expectedRevision reason s =
     (case rt_Load port runID s of
        Inl e \<Rightarrow> (s, Inl (controlNoEffectBeforeStore e))
      | Inr current \<Rightarrow>
          if run_Revision (sn_Run current) \<noteq> expectedRevision then (s, Inl (controlNoEffectBeforeStore ErrConflict))
          else case rt_ApplyControl port cx None now runID expectedRevision (plain_guard ControlCancel)
                      (cancel_mutation current reason) None s of
                 (s', Inl e) \<Rightarrow> (s', Inl e)
               | (s', Inr (sn, _)) \<Rightarrow> (s', Inr sn))"

definition deadline_message :: string where
  "deadline_message = ''kernel run deadline exceeded''"

definition expire_mutation :: "Snapshot \<Rightarrow> Mutation" where
  "expire_mutation current = \<lparr>mu_Status = RunStatusFailed, mu_State = sn_State current,
     mu_Checkpoint = None, mu_Result = None, mu_ErrorCode = ''run.deadline_exceeded'',
     mu_ErrorDetail = deadline_message, mu_Events = [notice_draft ''run.deadline_exceeded'' deadline_message]\<rparr>"

definition rt_Expire ::
  "'s store_port \<Rightarrow> ctx \<Rightarrow> binding \<Rightarrow> time \<Rightarrow> string \<Rightarrow> u64 \<Rightarrow> 's \<Rightarrow>
   's \<times> (kernel_error + Snapshot \<times> bool)" where
  "rt_Expire port cx b now runID expectedRevision s =
     (case rt_Load port runID s of
        Inl e \<Rightarrow> (s, Inl e)
      | Inr current \<Rightarrow>
          if run_Revision (sn_Run current) \<noteq> expectedRevision then (s, Inl ErrConflict)
          else if (case run_DeadlineAt (sn_Run current) of None \<Rightarrow> True | Some d \<Rightarrow> now < d)
          then (s, Inr (current, False))
          else case rt_ApplyControl port cx None now runID expectedRevision (plain_guard ControlDeadline)
                      (expire_mutation current) None s of
                 (s', Inl e) \<Rightarrow> (s', Inl e)
               | (s', Inr (sn, _)) \<Rightarrow> (s', Inr (sn, True)))"

subsection \<open>Execution and quarantine entry points\<close>

definition WithExecution :: "'s store_port \<Rightarrow> ExecutionLease \<Rightarrow> kernel_error + binding" where
  "WithExecution port lease =
     (if \<not> validExecutionLease lease then Inl ErrInvalidInput
      else if port_execution port = None then Inl ErrExecutionRequired
      else Inr (Some lease))"

definition rt_AcquireExecution ::
  "'s store_port \<Rightarrow> ctx \<Rightarrow> string option \<Rightarrow> ExecutionAcquireRequest \<Rightarrow> 's \<Rightarrow> 's \<times> (kernel_error + ExecutionLease)" where
  "rt_AcquireExecution port cx fresh r s =
     (if \<not> validExecutionAcquireRequest r then (s, Inl ErrInvalidInput)
      else case port_execution port of
        None \<Rightarrow> (s, Inl ErrExecutionRequired)
      | Some x \<Rightarrow> port_AcquireExecution x cx fresh r s)"

definition rt_RenewExecution ::
  "'s store_port \<Rightarrow> ctx \<Rightarrow> ExecutionRenewRequest \<Rightarrow> 's \<Rightarrow> 's \<times> (kernel_error + ExecutionLease)" where
  "rt_RenewExecution port cx r s =
     (if \<not> validExecutionLease (er_Lease r) \<or> \<not> validExecutionDuration (er_LeaseDuration r)
      then (s, Inl ErrInvalidInput)
      else case port_execution port of
        None \<Rightarrow> (s, Inl ErrExecutionRequired)
      | Some x \<Rightarrow> port_RenewExecution x cx r s)"

definition rt_ReleaseExecution :: "'s store_port \<Rightarrow> ctx \<Rightarrow> ExecutionLease \<Rightarrow> 's \<Rightarrow> 's \<times> kernel_error option" where
  "rt_ReleaseExecution port cx lease s =
     (if \<not> validExecutionLease lease then (s, Some ErrInvalidInput)
      else case port_execution port of
        None \<Rightarrow> (s, Some ErrExecutionRequired)
      | Some x \<Rightarrow> port_ReleaseExecution x cx lease s)"

definition RequireExecution :: "'s store_port \<Rightarrow> ctx \<Rightarrow> binding \<Rightarrow> string \<Rightarrow> 's \<Rightarrow> kernel_error option" where
  "RequireExecution port cx b runID s =
     (if cx = CtxNil \<or> blank runID then Some ErrInvalidInput
      else case cx of CtxDone e \<Rightarrow> Some (ErrContext e) | _ \<Rightarrow>
        (if \<not> validBoundRun b runID then Some ErrExecutionConflict
         else case port_execution port of
           None \<Rightarrow> if b \<noteq> None then Some ErrExecutionRequired else None
         | Some x \<Rightarrow> port_CheckExecution x cx runID b s))"

definition rt_QuarantineExecution ::
  "'s store_port \<Rightarrow> ctx \<Rightarrow> binding \<Rightarrow> ExecutionQuarantine \<Rightarrow> 's \<Rightarrow> 's \<times> kernel_error option" where
  "rt_QuarantineExecution port cx b v s =
     (if cx = CtxNil \<or> \<not> validExecutionQuarantine v \<or> b \<noteq> None then (s, Some ErrInvalidInput)
      else case port_quarantine port of
        None \<Rightarrow> (s, Some ErrExecutionRequired)
      | Some q \<Rightarrow> port_QuarantineExecution q cx v s)"

definition rt_RepairExecutionQuarantine ::
  "'s store_port \<Rightarrow> ctx \<Rightarrow> binding \<Rightarrow> ExecutionQuarantine \<Rightarrow> 's \<Rightarrow> 's \<times> kernel_error option" where
  "rt_RepairExecutionQuarantine port cx b v s =
     (if cx = CtxNil \<or> \<not> validExecutionQuarantine v \<or> b \<noteq> None then (s, Some ErrInvalidInput)
      else case port_quarantine port of
        None \<Rightarrow> (s, Some ErrExecutionRequired)
      | Some q \<Rightarrow> port_RepairExecutionQuarantine q cx v s)"

end
