(* ===== verification/Memory_Facts.thy ===== *)
theory Memory_Facts
  imports Kernel_Runtime
begin

text \<open>
  What each operation of the in-memory store does, and the store contract the runtime relies
  on. \<open>commit_state\<close> is the effect common to every successful write of a run; the locale
  \<open>kernel_store\<close> is the compare-and-swap contract of \<open>kernel.Store\<close> and holds the facts about
  the runtime that follow from it; \<open>mem\<close> is its instance for the in-memory store.
\<close>

subsection \<open>Journals\<close>

definition wf_journal :: "Event list \<Rightarrow> bool" where
  "wf_journal j \<longleftrightarrow> (\<forall>i<length j. ev_Seq (j ! i) = int i + 1)"

lemma wf_journal_Nil [simp]: "wf_journal []"
  by (simp add: wf_journal_def)

lemma wf_journal_snoc:
  "wf_journal j \<Longrightarrow> ev_Seq e = int (length j) + 1 \<Longrightarrow> wf_journal (j @ [e])"
  by (auto simp: wf_journal_def nth_append less_Suc_eq)

lemma wf_journal_appendEvents: "wf_journal j \<Longrightarrow> wf_journal (appendEvents j ds t)"
  by (induction j ds t rule: appendEvents.induct) (simp_all add: wf_journal_snoc)

lemma length_appendEvents [simp]: "length (appendEvents j ds t) = length j + length ds"
  by (induction j ds t rule: appendEvents.induct) simp_all

lemma appendEvents_prefix: "\<exists>new. appendEvents j ds t = j @ new"
  by (induction j ds t rule: appendEvents.induct) auto

lemma take_appendEvents [simp]: "take (length j) (appendEvents j ds t) = j"
  using appendEvents_prefix [of j ds t] by auto

lemma map_type_appendEvents [simp]:
  "map ev_Type (appendEvents j ds t) = map ev_Type j @ map ed_Type ds"
  by (induction j ds t rule: appendEvents.induct) simp_all

subsection \<open>Commits\<close>

definition commit_snapshot :: "string \<Rightarrow> StoreMutation \<Rightarrow> Store \<Rightarrow> Snapshot" where
  "commit_snapshot runID m s = (snapshotFromRecord (sm_Record m))
     \<lparr>sn_EventHead := int (length (st_events s runID) + length (sm_Events m))\<rparr>"

definition commit_state :: "string \<Rightarrow> StoreMutation \<Rightarrow> Store \<Rightarrow> Store" where
  "commit_state runID m s = appendCommittedTransition (rec_Run (sm_Record m)) (sm_Events m)
     (s\<lparr>st_records := (st_records s)(runID \<mapsto> commit_snapshot runID m s),
        st_events := (st_events s)(runID := appendEvents (st_events s runID) (sm_Events m)
           (run_UpdatedAt (rec_Run (sm_Record m))))\<rparr>)"

lemma appendCommittedTransition_frame [simp]:
  "st_records (appendCommittedTransition run es s) = st_records s"
  "st_events (appendCommittedTransition run es s) = st_events s"
  "st_execution (appendCommittedTransition run es s) = st_execution s"
  "st_clock (appendCommittedTransition run es s) = st_clock s"
  by (simp_all add: appendCommittedTransition_def Let_def)

lemma commit_state_frame [simp]:
  "st_records (commit_state r m s) = (st_records s)(r \<mapsto> commit_snapshot r m s)"
  "st_events (commit_state r m s) = (st_events s)(r := appendEvents (st_events s r) (sm_Events m)
     (run_UpdatedAt (rec_Run (sm_Record m))))"
  "st_execution (commit_state r m s) = st_execution s"
  "st_clock (commit_state r m s) = st_clock s"
  by (simp_all add: commit_state_def)

lemma commit_snapshot_simps [simp]:
  "sn_Run (commit_snapshot r m s) = rec_Run (sm_Record m)"
  "sn_State (commit_snapshot r m s) = rec_State (sm_Record m)"
  "sn_Checkpoint (commit_snapshot r m s) = rec_Checkpoint (sm_Record m)"
  "sn_Result (commit_snapshot r m s) = rec_Result (sm_Record m)"
  "sn_EventHead (commit_snapshot r m s) = int (length (st_events s r) + length (sm_Events m))"
  by (simp_all add: commit_snapshot_def snapshotFromRecord_def)

lemma applyLocked_eq:
  "applyLocked r e m s =
     (case st_records s r of
        None \<Rightarrow> (s, Inl ErrNotFound)
      | Some cur \<Rightarrow>
          if run_Revision (sn_Run cur) \<noteq> e then (s, Inl ErrConflict)
          else (commit_state r m s, Inr (commit_snapshot r m s)))"
  by (simp add: applyLocked_def commit_state_def commit_snapshot_def Let_def split: option.split)

lemma applyLocked_ok:
  "applyLocked r e m s = (s', Inr sn) \<longleftrightarrow>
     (\<exists>cur. st_records s r = Some cur \<and> run_Revision (sn_Run cur) = e \<and>
        s' = commit_state r m s \<and> sn = commit_snapshot r m s)"
  by (auto simp: applyLocked_eq split: option.splits if_splits)

lemma applyLocked_err: "applyLocked r e m s = (s', Inl err) \<Longrightarrow> s' = s"
  by (auto simp: applyLocked_eq split: option.splits if_splits)

subsection \<open>The operations, by outcome\<close>

lemma active_not_zero: "activeMemoryLease x l now \<Longrightarrow> validMemoryLease l \<Longrightarrow> mx_lease x \<noteq> zero_lease"
  by (auto simp: activeMemoryLease_def validMemoryLease_def zero_lease_def)

lemma Apply_ok:
  "Apply r e m s = (s', Inr sn) \<longleftrightarrow>
     mx_epoch (st_execution s r) = 0 \<and>
     (\<exists>cur. st_records s r = Some cur \<and> run_Revision (sn_Run cur) = e \<and>
        s' = commit_state r m s \<and> sn = commit_snapshot r m s)"
  by (auto simp: Apply_def applyLocked_ok word_gt_0)

lemma Apply_err: "Apply r e m s = (s', Inl err) \<Longrightarrow> s' = s"
  by (auto simp: Apply_def dest: applyLocked_err split: if_splits)

lemma ApplyExecution_ok:
  "ApplyExecution cx l e m s = (s', Inr sn) \<Longrightarrow>
     cx = CtxLive \<and> validMemoryLease l \<and> e \<noteq> 0 \<and> run_ID (rec_Run (sm_Record m)) = el_RunID l \<and>
     run_Revision (rec_Run (sm_Record m)) = e + 1 \<and> mx_quarantineRev (st_execution s (el_RunID l)) = 0 \<and>
     activeMemoryLease (st_execution s (el_RunID l)) l (st_clock s) \<and>
     (\<exists>cur. st_records s (el_RunID l) = Some cur \<and> run_Status (sn_Run cur) = RunStatusRunning \<and>
        run_Revision (sn_Run cur) = e \<and>
        s' = commit_state (el_RunID l) m s \<and> sn = commit_snapshot (el_RunID l) m s)"
  by (auto simp: ApplyExecution_def applyLocked_ok Let_def currentExecutionTime_def
      split: if_splits ctx.splits option.splits)

lemma ApplyExecution_err: "ApplyExecution cx l e m s = (s', Inl err) \<Longrightarrow> s' = s"
  by (auto simp: ApplyExecution_def Let_def dest: applyLocked_err split: if_splits ctx.splits option.splits)

definition revoke :: "string \<Rightarrow> Store \<Rightarrow> Store" where
  "revoke r s = (if 0 < mx_epoch (st_execution s r)
     then s\<lparr>st_execution := (st_execution s)(r := (st_execution s r)
            \<lparr>mx_epoch := mx_epoch (st_execution s r) + 1, mx_lease := zero_lease\<rparr>)\<rparr>
     else s)"

lemma revoke_frame [simp]:
  "st_records (revoke r s) = st_records s" "st_events (revoke r s) = st_events s"
  "st_transitions (revoke r s) = st_transitions s" "st_transitionOrder (revoke r s) = st_transitionOrder s"
  "st_clock (revoke r s) = st_clock s"
  by (simp_all add: revoke_def)

lemma commit_snapshot_revoke [simp]: "commit_snapshot r m (revoke r' s) = commit_snapshot r m s"
  by (simp add: commit_snapshot_def)

lemma ApplyControl_eq:
  "ApplyControl cx r e g m s =
     (if cx = CtxNil \<or> r = [] \<or> e = 0 then (s, Inl ErrInvalidInput)
      else case cx of CtxDone err \<Rightarrow> (s, Inl (ErrContext err)) | _ \<Rightarrow>
        (case st_records s r of
           None \<Rightarrow> (s, Inl ErrNotFound)
         | Some cur \<Rightarrow>
             if run_Revision (sn_Run cur) \<noteq> e then (s, Inl ErrConflict)
             else case ValidateControl cur g m (st_clock s) of
               Some err \<Rightarrow> (s, Inl err)
             | None \<Rightarrow>
                 if mx_quarantineRev (st_execution s r) \<noteq> 0 \<and> run_Status (rec_Run (sm_Record m)) = RunStatusRunning
                 then (s, Inl ErrExecutionQuarantined)
                 else if mx_epoch (st_execution s r) = max_u64 then (s, Inl ErrExecutionConflict)
                 else (commit_state r m (revoke r s),
                       Inr (commit_snapshot r m s, 0 < mx_epoch (st_execution s r)))))"
  unfolding ApplyControl_def Let_def currentExecutionTime_def revoke_def [symmetric] applyLocked_eq
  by (cases cx; cases "st_records s r"; simp split: option.split)

lemma ApplyControl_ok:
  assumes "ApplyControl cx r e g m s = (s', Inr (sn, revoked))"
  shows "cx = CtxLive \<and> r \<noteq> [] \<and> e \<noteq> 0 \<and> mx_epoch (st_execution s r) \<noteq> max_u64 \<and>
     (mx_quarantineRev (st_execution s r) \<noteq> 0 \<longrightarrow> run_Status (rec_Run (sm_Record m)) \<noteq> RunStatusRunning) \<and>
     revoked = (0 < mx_epoch (st_execution s r)) \<and>
     (\<exists>cur. st_records s r = Some cur \<and> run_Revision (sn_Run cur) = e \<and>
        ValidateControl cur g m (st_clock s) = None \<and>
        s' = commit_state r m (revoke r s) \<and> sn = commit_snapshot r m s)"
  using assms by (auto simp add: ApplyControl_eq split: if_splits ctx.splits option.splits)

text \<open>A failed control leaves the store as it was: the epoch is only advanced when the
  revision-checked write that follows is certain to succeed.\<close>

lemma ApplyControl_err: "ApplyControl cx r e g m s = (s', Inl err) \<Longrightarrow> s' = s"
  by (simp add: ApplyControl_eq split: if_splits ctx.splits option.splits)

lemma AcquireExecution_ok:
  assumes "AcquireExecution cx fresh r s = (s', Inr l)"
  shows "validMemoryExecutionRequest r \<and> mx_quarantineRev (st_execution s (ea_RunID r)) = 0 \<and>
     mx_epoch (st_execution s (ea_RunID r)) \<noteq> 0 \<and> mx_epoch (st_execution s (ea_RunID r)) \<noteq> max_u64 \<and>
     el_ExpiresAt (mx_lease (st_execution s (ea_RunID r))) \<le> st_clock s \<and>
     (\<exists>cur. st_records s (ea_RunID r) = Some cur \<and> run_Status (sn_Run cur) = RunStatusRunning) \<and>
     l = \<lparr>el_RunID = ea_RunID r, el_OwnerID = trim_space (ea_OwnerID r), el_LeaseID = the fresh,
          el_Epoch = mx_epoch (st_execution s (ea_RunID r)) + 1,
          el_ExpiresAt = st_clock s + ea_LeaseDuration r\<rparr> \<and> fresh \<noteq> None \<and>
     s' = s\<lparr>st_execution := (st_execution s)(ea_RunID r :=
            (st_execution s (ea_RunID r))\<lparr>mx_epoch := el_Epoch l, mx_lease := l\<rparr>)\<rparr>"
  using assms unfolding AcquireExecution_def Let_def currentExecutionTime_def
  by (auto simp: word_neq_0_conv not_less split: if_splits ctx.splits option.splits)

lemma AcquireExecution_err: "AcquireExecution cx fresh r s = (s', Inl err) \<Longrightarrow> s' = s"
  unfolding AcquireExecution_def Let_def by (auto split: if_splits ctx.splits option.splits)

lemma RenewExecution_ok:
  assumes "RenewExecution cx r s = (s', Inr l)"
  shows "validMemoryLease (er_Lease r) \<and>
     activeMemoryLease (st_execution s (el_RunID (er_Lease r))) (er_Lease r) (st_clock s) \<and>
     l = (mx_lease (st_execution s (el_RunID (er_Lease r))))\<lparr>el_ExpiresAt := st_clock s + er_LeaseDuration r\<rparr> \<and>
     s' = s\<lparr>st_execution := (st_execution s)(el_RunID (er_Lease r) :=
            (st_execution s (el_RunID (er_Lease r)))\<lparr>mx_lease := l\<rparr>)\<rparr>"
  using assms unfolding RenewExecution_def Let_def currentExecutionTime_def
  by (auto split: if_splits ctx.splits)

lemma RenewExecution_err: "RenewExecution cx r s = (s', Inl err) \<Longrightarrow> s' = s"
  unfolding RenewExecution_def Let_def by (auto split: if_splits ctx.splits)

lemma ReleaseExecution_cases:
  assumes "ReleaseExecution cx l s = (s', res)"
  shows "res \<noteq> None \<and> s' = s \<or>
     res = None \<and> validMemoryLease l \<and> activeMemoryLease (st_execution s (el_RunID l)) l (st_clock s) \<and>
     s' = s\<lparr>st_execution := (st_execution s)(el_RunID l := (st_execution s (el_RunID l))\<lparr>mx_lease := zero_lease\<rparr>)\<rparr>"
  using assms unfolding ReleaseExecution_def Let_def currentExecutionTime_def
  by (auto split: if_splits ctx.splits)

lemma QuarantineExecution_cases:
  assumes "QuarantineExecution cx v s = (s', res)"
  shows "s' = s \<or>
     res = None \<and> mx_epoch (st_execution s (eq_RunID v)) \<noteq> 0 \<and>
     mx_epoch (st_execution s (eq_RunID v)) \<noteq> max_u64 \<and>
     mx_quarantineRev (st_execution s (eq_RunID v)) = 0 \<and> 0 < eq_Revision v \<and>
     (\<exists>cur. st_records s (eq_RunID v) = Some cur \<and> run_Status (sn_Run cur) = RunStatusRunning \<and>
        run_Revision (sn_Run cur) = eq_Revision v) \<and>
     s' = s\<lparr>st_execution := (st_execution s)(eq_RunID v :=
            \<lparr>mx_epoch = mx_epoch (st_execution s (eq_RunID v)) + 1, mx_lease = zero_lease,
             mx_quarantineRev = eq_Revision v, mx_quarantineGen = eq_Generation v,
             mx_quarantineCode = eq_Reason v\<rparr>)\<rparr>"
  using assms unfolding QuarantineExecution_def Let_def
  by (auto simp: validMemoryQuarantine_def split: if_splits ctx.splits option.splits)

lemma RepairExecutionQuarantine_cases:
  assumes "RepairExecutionQuarantine cx v s = (s', res)"
  shows "s' = s \<and> res \<noteq> None \<or>
     res = None \<and> 0 < eq_Revision v \<and> mx_quarantineRev (st_execution s (eq_RunID v)) = eq_Revision v \<and>
     mx_quarantineGen (st_execution s (eq_RunID v)) = eq_Generation v \<and>
     mx_quarantineCode (st_execution s (eq_RunID v)) = eq_Reason v \<and>
     (\<exists>cur. st_records s (eq_RunID v) = Some cur \<and> run_Status (sn_Run cur) = RunStatusRunning \<and>
        run_Revision (sn_Run cur) = eq_Revision v) \<and>
     s' = s\<lparr>st_execution := (st_execution s)(eq_RunID v :=
            (st_execution s (eq_RunID v))\<lparr>mx_quarantineRev := 0, mx_quarantineGen := 0, mx_quarantineCode := []\<rparr>)\<rparr>"
  using assms unfolding RepairExecutionQuarantine_def Let_def
  by (auto simp: validMemoryQuarantine_def split: if_splits ctx.splits option.splits)

lemma Create_cases:
  assumes "Create rc es s = (s', res)"
  shows "s' = s \<and> res = Inl ErrAlreadyExists \<and> st_records s (run_ID (rec_Run rc)) \<noteq> None \<or>
     st_records s (run_ID (rec_Run rc)) = None \<and>
     (\<exists>sn. res = Inr sn \<and>
        sn = (snapshotFromRecord rc)\<lparr>sn_EventHead := int (length es)\<rparr> \<and>
        st_records s' = (st_records s)(run_ID (rec_Run rc) \<mapsto> sn) \<and>
        st_events s' = (st_events s)(run_ID (rec_Run rc) := appendEvents [] es (run_UpdatedAt (rec_Run rc))) \<and>
        st_execution s' = (if rec_ExecutionRequired rc
          then (st_execution s)(run_ID (rec_Run rc) := zero_execution\<lparr>mx_epoch := 1\<rparr>) else st_execution s) \<and>
        st_clock s' = st_clock s)"
  using assms by (auto simp: Create_def Let_def split: if_splits)

subsection \<open>The compare-and-swap contract of a store\<close>

text \<open>
  \<open>view\<close> is the observable content of the store: the snapshot of each run. A write succeeds
  only at the expected revision and replaces exactly the addressed run; a failed write
  changes no run.
\<close>

locale kernel_store =
  fixes port :: "'s store_port"
    and view :: "'s \<Rightarrow> string \<rightharpoonup> Snapshot"
  assumes load_view:
      "port_Load port r s = (case view s r of None \<Rightarrow> Inl ErrNotFound | Some sn \<Rightarrow> Inr sn)"
    and apply_ok:
      "port_Apply port r e m s = (s', Inr sn) \<Longrightarrow>
         \<exists>cur. view s r = Some cur \<and> run_Revision (sn_Run cur) = e \<and> view s' = (view s)(r \<mapsto> sn) \<and>
           sn_Run sn = rec_Run (sm_Record m) \<and> sn_State sn = rec_State (sm_Record m) \<and>
           sn_Checkpoint sn = rec_Checkpoint (sm_Record m) \<and> sn_Result sn = rec_Result (sm_Record m)"
    and apply_err: "port_Apply port r e m s = (s', Inl err) \<Longrightarrow> view s' = view s"
    and execution_ok:
      "port_execution port = Some x \<Longrightarrow> port_ApplyExecution x cx l e m s = (s', Inr sn) \<Longrightarrow>
         \<exists>cur. view s (el_RunID l) = Some cur \<and> run_Revision (sn_Run cur) = e \<and>
           view s' = (view s)(el_RunID l \<mapsto> sn) \<and>
           sn_Run sn = rec_Run (sm_Record m) \<and> sn_State sn = rec_State (sm_Record m) \<and>
           sn_Checkpoint sn = rec_Checkpoint (sm_Record m) \<and> sn_Result sn = rec_Result (sm_Record m)"
    and execution_err:
      "port_execution port = Some x \<Longrightarrow> port_ApplyExecution x cx l e m s = (s', Inl err) \<Longrightarrow> view s' = view s"
begin

lemma prepare_ok:
  assumes "apply_prepare port b now r e m evidence s = Inr proposed"
  shows "\<exists>cur. view s (trim_space r) = Some cur \<and> run_Revision (sn_Run cur) = e \<and>
     validateMutation cur m = None \<and> proposed = makeStoreMutation now cur m \<and>
     (evidence \<or> \<not> hasReservedApplyEvidence (mu_Events m)) \<and>
     (\<forall>l. b = Some l \<longrightarrow> el_RunID l = trim_space r)"
  using assms unfolding apply_prepare_def
  by (auto simp: load_view validBoundRun_def split: if_splits option.splits sum.splits)

text \<open>A successful \<open>Runtime.Apply\<close> replaced the snapshot it validated.\<close>

lemma rt_Apply_ok:
  assumes "rt_Apply port cx b now r e m s = (s', Inr sn)" and "trim_space r = r"
  shows "\<exists>cur. view s r = Some cur \<and> run_Revision (sn_Run cur) = e \<and> validateMutation cur m = None \<and>
     view s' = (view s)(r \<mapsto> sn) \<and> sn_Run sn = rec_Run (sm_Record (makeStoreMutation now cur m)) \<and>
     sn_State sn = mu_State m \<and> sn_Checkpoint sn = mu_Checkpoint m \<and> sn_Result sn = mu_Result m"
proof -
  obtain proposed where prep: "apply_prepare port b now r e m False s = Inr proposed"
    and com: "apply_commit port cx b r e proposed s = (s', Inr sn)"
    using assms(1) unfolding rt_Apply_def rt_apply_def by (auto split: sum.splits)
  from prepare_ok [OF prep] assms(2) obtain cur where cur: "view s r = Some cur"
    "run_Revision (sn_Run cur) = e" "validateMutation cur m = None"
    "proposed = makeStoreMutation now cur m" "\<And>l. b = Some l \<Longrightarrow> el_RunID l = r"
    by auto
  have "view s' = (view s)(r \<mapsto> sn) \<and> sn_Run sn = rec_Run (sm_Record proposed) \<and>
      sn_State sn = rec_State (sm_Record proposed) \<and> sn_Checkpoint sn = rec_Checkpoint (sm_Record proposed) \<and>
      sn_Result sn = rec_Result (sm_Record proposed)"
  proof (cases b)
    case None
    with com have "port_Apply port r e proposed s = (s', Inr sn)" by (simp add: apply_commit_def)
    from apply_ok [OF this] show ?thesis by blast
  next
    case (Some l)
    with com obtain x where "port_execution port = Some x" "port_ApplyExecution x cx l e proposed s = (s', Inr sn)"
      by (auto simp: apply_commit_def split: option.splits)
    from execution_ok [OF this] cur(5) [OF Some] show ?thesis by auto
  qed
  with cur show ?thesis by (auto simp: makeStoreMutation_def Let_def)
qed

lemma rt_Apply_err:
  assumes "rt_Apply port cx b now r e m s = (s', Inl err)"
  shows "view s' = view s"
  using assms unfolding rt_Apply_def rt_apply_def apply_commit_def
  by (auto split: sum.splits option.splits dest: apply_err execution_err)

text \<open>Of two writers that expect the same revision at most one commits.\<close>

lemma rt_Apply_once:
  assumes "rt_Apply port cx b now r e m s = (s', Inr sn)" and "trim_space r = r"
    and "rt_Apply port cx' b' now' r e m' s' = (s'', res)"
  shows "\<not> is_ok res"
proof
  assume "is_ok res"
  then obtain sn' where res: "res = Inr sn'" by (auto simp: is_ok_iff)
  from rt_Apply_ok [OF assms(1,2)] obtain cur where "run_Revision (sn_Run cur) = e"
    and v: "view s' = (view s)(r \<mapsto> sn)" and "sn_Run sn = rec_Run (sm_Record (makeStoreMutation now cur m))"
    by blast
  then have "run_Revision (sn_Run sn) = e + 1" by (simp add: makeStoreMutation_def Let_def)
  moreover from rt_Apply_ok [OF assms(3) [unfolded res] assms(2)] v
  have "run_Revision (sn_Run sn) = e" by auto
  ultimately show False by simp
qed

end

interpretation mem: kernel_store memory_port st_records
proof (unfold_locales, goal_cases)
  case (1 r s)
  then show ?case by (simp add: Load_def)
next
  case (2 r e m s s' sn)
  then show ?case by (auto simp: Apply_ok)
next
  case (3 r e m s s' err)
  then show ?case by (auto dest: Apply_err)
next
  case (4 x cx l e m s s' sn)
  then show ?case using ApplyExecution_ok [of cx l e m s s' sn] by fastforce
next
  case (5 x cx l e m s s' err)
  then show ?case by (auto dest: ApplyExecution_err)
qed

end
