(* ===== verification/Kernel_System.thy ===== *)
theory Kernel_System
  imports Memory_Facts
begin

text \<open>
  The kernel under concurrency. Runtimes that share one in-memory store interleave at the store
  mutex: a write of a run is a read of the store (\<open>apply_prepare\<close>, \<open>control_prepare\<close>) followed,
  after any number of other steps, by one atomic store call. \<open>kstep\<close> is one such step, a
  prepared write stays available for ever, so every interleaving of stale writers is a path of
  the relation. The theory proves the invariant \<open>sys_inv\<close> of all reachable states and the facts
  on runs, leases and quarantine that follow from it.

  Clock readings are arbitrary (\<open>K_clock\<close> may also turn the clock back). Paths stop before the
  revision of a run reaches its largest value, where the addition of \<open>makeStoreMutation\<close> wraps.
\<close>

subsection \<open>Steps\<close>

datatype pending =
    PendingApply string u64 StoreMutation binding
  | PendingControl string u64 ControlGuard StoreMutation

record Sys =
  sys_store :: Store
  sys_pending :: "pending set"

text \<open>What the runtime relies on of its \<open>IDSource\<close>: an identity it returns is not empty and
  has no surrounding blanks, as those of \<open>randomIDSource\<close>.\<close>

definition id_source_ok :: "(kernel_error + string) \<Rightarrow> bool" where
  "id_source_ok newID \<longleftrightarrow> (case newID of Inl _ \<Rightarrow> True | Inr x \<Rightarrow> x \<noteq> [] \<and> trim_space x = x)"

inductive kstep :: "Sys \<Rightarrow> Sys \<Rightarrow> bool" where
  K_create: "id_source_ok newID \<Longrightarrow> rt_Create memory_port now newID req (sys_store \<sigma>) = (s', res) \<Longrightarrow>
     kstep \<sigma> (\<sigma>\<lparr>sys_store := s'\<rparr>)"
| K_prepare: "apply_prepare memory_port b now r e m evidence (sys_store \<sigma>) = Inr proposed \<Longrightarrow>
     kstep \<sigma> (\<sigma>\<lparr>sys_pending := insert (PendingApply r e proposed b) (sys_pending \<sigma>)\<rparr>)"
| K_commit: "PendingApply r e proposed b \<in> sys_pending \<sigma> \<Longrightarrow>
     apply_commit memory_port cx b r e proposed (sys_store \<sigma>) = (s', res) \<Longrightarrow>
     kstep \<sigma> (\<sigma>\<lparr>sys_store := s'\<rparr>)"
| K_control_prepare: "control_prepare memory_port b now r e g m permit (sys_store \<sigma>) = Inr (g', next) \<Longrightarrow>
     kstep \<sigma> (\<sigma>\<lparr>sys_pending := insert (PendingControl r e g' next) (sys_pending \<sigma>)\<rparr>)"
| K_control_commit: "PendingControl r e g next \<in> sys_pending \<sigma> \<Longrightarrow>
     control_commit memory_port cx r e g next (sys_store \<sigma>) = (s', cres) \<Longrightarrow>
     kstep \<sigma> (\<sigma>\<lparr>sys_store := s'\<rparr>)"
| K_acquire: "rt_AcquireExecution memory_port cx fresh acq (sys_store \<sigma>) = (s', lres) \<Longrightarrow>
     kstep \<sigma> (\<sigma>\<lparr>sys_store := s'\<rparr>)"
| K_renew: "rt_RenewExecution memory_port cx ren (sys_store \<sigma>) = (s', lres) \<Longrightarrow>
     kstep \<sigma> (\<sigma>\<lparr>sys_store := s'\<rparr>)"
| K_release: "rt_ReleaseExecution memory_port cx l (sys_store \<sigma>) = (s', ores) \<Longrightarrow>
     kstep \<sigma> (\<sigma>\<lparr>sys_store := s'\<rparr>)"
| K_quarantine: "rt_QuarantineExecution memory_port cx b v (sys_store \<sigma>) = (s', ores) \<Longrightarrow>
     kstep \<sigma> (\<sigma>\<lparr>sys_store := s'\<rparr>)"
| K_repair: "rt_RepairExecutionQuarantine memory_port cx b v (sys_store \<sigma>) = (s', ores) \<Longrightarrow>
     kstep \<sigma> (\<sigma>\<lparr>sys_store := s'\<rparr>)"
| K_claim: "ClaimTransitions creq (sys_store \<sigma>) = (s', clres) \<Longrightarrow> kstep \<sigma> (\<sigma>\<lparr>sys_store := s'\<rparr>)"
| K_ack: "AckTransition lreq (sys_store \<sigma>) = (s', ores) \<Longrightarrow> kstep \<sigma> (\<sigma>\<lparr>sys_store := s'\<rparr>)"
| K_retry: "RetryTransition rreq (sys_store \<sigma>) = (s', ores) \<Longrightarrow> kstep \<sigma> (\<sigma>\<lparr>sys_store := s'\<rparr>)"
| K_clock: "kstep \<sigma> (\<sigma>\<lparr>sys_store := (sys_store \<sigma>)\<lparr>st_clock := t\<rparr>\<rparr>)"

definition init_sys :: "time \<Rightarrow> Sys" where
  "init_sys t = \<lparr>sys_store = NewStore t, sys_pending = {}\<rparr>"

definition revisions_below_max :: "Store \<Rightarrow> bool" where
  "revisions_below_max s \<longleftrightarrow> (\<forall>r sn. st_records s r = Some sn \<longrightarrow> run_Revision (sn_Run sn) \<noteq> max_u64)"

definition kstep' :: "Sys \<Rightarrow> Sys \<Rightarrow> bool" where
  "kstep' \<sigma> \<tau> \<longleftrightarrow> revisions_below_max (sys_store \<sigma>) \<and> kstep \<sigma> \<tau>"

abbreviation ksteps :: "Sys \<Rightarrow> Sys \<Rightarrow> bool" where
  "ksteps \<equiv> kstep'\<^sup>*\<^sup>*"

definition reach :: "Sys \<Rightarrow> bool" where
  "reach \<sigma> \<longleftrightarrow> (\<exists>t. ksteps (init_sys t) \<sigma>)"

subsection \<open>Well-formed runs\<close>

definition snap_shape :: "Snapshot \<Rightarrow> bool" where
  "snap_shape sn \<longleftrightarrow>
     (terminalStatus (run_Status (sn_Run sn)) \<longleftrightarrow> run_EndedAt (sn_Run sn) \<noteq> None) \<and>
     (case sn_Result sn of
        None \<Rightarrow> run_Status (sn_Run sn) \<noteq> RunStatusCompleted
      | Some res \<Rightarrow> run_Status (sn_Run sn) = RunStatusCompleted \<and> validResult res) \<and>
     (case sn_Checkpoint sn of
        None \<Rightarrow> run_Status (sn_Run sn) \<noteq> RunStatusWaitingInput
      | Some cp \<Rightarrow> validCheckpoint cp \<and>
          (run_Status (sn_Run sn) = RunStatusWaitingInput \<longrightarrow> cp_Status cp = CheckpointPending)) \<and>
     validState (sn_State sn) \<and> (\<forall>x. run_Status (sn_Run sn) \<noteq> RunStatusOther x) \<and>
     run_Revision (sn_Run sn) \<noteq> 0"

definition rec_wf :: "Store \<Rightarrow> string \<Rightarrow> bool" where
  "rec_wf s r \<longleftrightarrow> wf_journal (st_events s r) \<and>
     (case st_records s r of
        None \<Rightarrow> st_events s r = []
      | Some sn \<Rightarrow> r \<noteq> [] \<and> trim_space r = r \<and> run_ID (sn_Run sn) = r \<and> snap_shape sn \<and>
          sn_EventHead sn = int (length (st_events s r)))"

text \<open>One committed transition of a run, up to the journal head.\<close>

definition snap_step :: "Snapshot \<Rightarrow> Snapshot \<Rightarrow> bool" where
  "snap_step cur next \<longleftrightarrow>
     \<not> terminalStatus (run_Status (sn_Run cur)) \<and>
     validTransition (run_Status (sn_Run cur)) (run_Status (sn_Run next)) \<and>
     run_identity (sn_Run next) = run_identity (sn_Run cur) \<and>
     run_Revision (sn_Run next) = run_Revision (sn_Run cur) + 1 \<and> snap_shape next"

definition pend :: "Store \<Rightarrow> string \<Rightarrow> u64 \<Rightarrow> StoreMutation \<Rightarrow> bool" where
  "pend s r e m \<longleftrightarrow>
     (\<exists>cur sn. st_records s (trim_space r) = Some sn \<and>
        (sn = cur \<or> run_Revision (sn_Run cur) < run_Revision (sn_Run sn)) \<and>
        run_Revision (sn_Run cur) = e \<and> snap_step cur (snapshotFromRecord (sm_Record m)))"

definition pending_ok :: "Store \<Rightarrow> pending \<Rightarrow> bool" where
  "pending_ok s p \<longleftrightarrow> (case p of
       PendingApply r e m b \<Rightarrow> pend s r e m \<and> (\<forall>l. b = Some l \<longrightarrow> el_RunID l = trim_space r)
     | PendingControl r e g m \<Rightarrow> pend s r e m)"

definition exec_wf :: "Store \<Rightarrow> string \<Rightarrow> bool" where
  "exec_wf s r \<longleftrightarrow>
     (let x = st_execution s r in
      (st_records s r = None \<or> mx_epoch x = 0 \<longrightarrow> x = zero_execution) \<and>
      (mx_lease x = zero_lease \<or> el_Epoch (mx_lease x) = mx_epoch x \<and> el_RunID (mx_lease x) = r) \<and>
      (mx_quarantineRev x \<noteq> 0 \<longrightarrow> mx_lease x = zero_lease \<and>
         (\<exists>sn. st_records s r = Some sn \<and>
            (run_Status (sn_Run sn) = RunStatusRunning \<and> run_Revision (sn_Run sn) = mx_quarantineRev x \<or>
             terminalStatus (run_Status (sn_Run sn))))))"

definition sys_inv :: "Sys \<Rightarrow> bool" where
  "sys_inv \<sigma> \<longleftrightarrow> (\<forall>r. rec_wf (sys_store \<sigma>) r) \<and> (\<forall>r. exec_wf (sys_store \<sigma>) r) \<and>
     (\<forall>p\<in>sys_pending \<sigma>. pending_ok (sys_store \<sigma>) p)"

subsection \<open>What a step does to a run\<close>

definition run_kept :: "Store \<Rightarrow> Store \<Rightarrow> string \<Rightarrow> bool" where
  "run_kept s s' r \<longleftrightarrow> st_records s' r = st_records s r \<and> st_events s' r = st_events s r"

definition run_advanced :: "Store \<Rightarrow> Store \<Rightarrow> string \<Rightarrow> bool" where
  "run_advanced s s' r \<longleftrightarrow> (\<exists>cur next ds t. st_records s r = Some cur \<and> st_records s' r = Some next \<and>
     snap_step cur next \<and> st_events s' r = appendEvents (st_events s r) ds t \<and>
     sn_EventHead next = int (length (st_events s' r)))"

definition run_created :: "Store \<Rightarrow> Store \<Rightarrow> string \<Rightarrow> bool" where
  "run_created s s' r \<longleftrightarrow> (\<exists>next. st_records s r = None \<and> st_records s' r = Some next \<and>
     r \<noteq> [] \<and> trim_space r = r \<and> run_ID (sn_Run next) = r \<and> run_Revision (sn_Run next) = 1 \<and>
     run_Status (sn_Run next) = RunStatusRunning \<and> snap_shape next \<and>
     wf_journal (st_events s' r) \<and> sn_EventHead next = int (length (st_events s' r)))"

lemma run_kept_refl [simp]: "run_kept s s r"
  by (simp add: run_kept_def)

lemma snap_shape_head [simp]: "snap_shape (sn\<lparr>sn_EventHead := h\<rparr>) = snap_shape sn"
  by (simp add: snap_shape_def split: option.split)

lemma snap_step_head [simp]: "snap_step cur (sn\<lparr>sn_EventHead := h\<rparr>) = snap_step cur sn"
  by (simp add: snap_step_def)

lemma snapshotFromRecord_run [simp]: "sn_Run (snapshotFromRecord rc) = rec_Run rc"
  by (simp add: snapshotFromRecord_def)

lemma snap_step_commit:
  "snap_step cur (commit_snapshot r m s) = snap_step cur (snapshotFromRecord (sm_Record m))"
  by (simp add: commit_snapshot_def)

lemma makeStoreMutation_step:
  assumes "validateMutation cur m = None" and "snap_shape cur" and "run_Revision (sn_Run cur) \<noteq> max_u64"
  shows "snap_step cur (snapshotFromRecord (sm_Record (makeStoreMutation now cur m)))"
proof -
  from assms(1) have v: "\<not> terminalStatus (run_Status (sn_Run cur))"
    "validTransition (run_Status (sn_Run cur)) (mu_Status m)" "validState (mu_State m)"
    "validMutationCheckpoint m" "validMutationResult m"
    by (simp_all add: validateMutation_None)
  have ended: "run_EndedAt (sn_Run cur) = None" using v(1) assms(2) by (simp add: snap_shape_def)
  have "run_Revision (sn_Run cur) + 1 \<noteq> 0" using assms(3) by (rule Suc_u64_nonzero)
  with v ended validTransition_known [OF v(2)] show ?thesis
    by (simp add: snap_step_def snap_shape_def snapshotFromRecord_def makeStoreMutation_def Let_def
        run_identity_def validMutationCheckpoint_def validMutationResult_def
        split: option.splits if_splits)
qed

text \<open>A prepared write commits only against the snapshot it was computed from.\<close>

lemma pend_current:
  assumes "pend s r e m" and "rec_wf s k" and "st_records s k = Some c" and "run_Revision (sn_Run c) = e"
    and "k = r \<or> k = trim_space r"
  shows "trim_space r = k" and "snap_step c (snapshotFromRecord (sm_Record m))"
proof -
  have "trim_space k = k" using assms(2,3) by (simp add: rec_wf_def)
  then show k: "trim_space r = k" using assms(5) by auto
  from assms(1) k assms(3) obtain cur where cur: "c = cur \<or> run_Revision (sn_Run cur) < run_Revision (sn_Run c)"
    "run_Revision (sn_Run cur) = e" "snap_step cur (snapshotFromRecord (sm_Record m))"
    by (auto simp: pend_def)
  then show "snap_step c (snapshotFromRecord (sm_Record m))" using assms(4) by auto
qed

lemma commit_runs:
  assumes "pend s r e m" and "\<And>r. rec_wf s r" and "st_records s k = Some c" and "run_Revision (sn_Run c) = e"
    and "k = r \<or> k = trim_space r" and "st_records s1 = st_records s" and "st_events s1 = st_events s"
  shows "run_advanced s (commit_state k m s1) k" and "q \<noteq> k \<Longrightarrow> run_kept s (commit_state k m s1) q"
proof -
  have "snap_step c (commit_snapshot k m s1)"
    using pend_current (2) [OF assms(1,2,3,4,5)] by (simp add: snap_step_commit)
  then show "run_advanced s (commit_state k m s1) k"
    unfolding run_advanced_def using assms(3,6,7) by auto
  show "q \<noteq> k \<Longrightarrow> run_kept s (commit_state k m s1) q" using assms(6,7) by (simp add: run_kept_def)
qed

lemma outbox_frame:
  "ClaimTransitions creq s = (s', clres) \<Longrightarrow>
     st_records s' = st_records s \<and> st_events s' = st_events s \<and> st_execution s' = st_execution s"
  "AckTransition lreq s = (s', ores) \<Longrightarrow>
     st_records s' = st_records s \<and> st_events s' = st_events s \<and> st_execution s' = st_execution s"
  "RetryTransition rreq s = (s', ores) \<Longrightarrow>
     st_records s' = st_records s \<and> st_events s' = st_events s \<and> st_execution s' = st_execution s"
  by (auto simp: ClaimTransitions_def AckTransition_def RetryTransition_def Let_def
      split: if_splits option.splits prod.splits)

lemma lease_frame:
  "rt_AcquireExecution memory_port cx fresh acq s = (s', lres) \<Longrightarrow>
     st_records s' = st_records s \<and> st_events s' = st_events s"
  "rt_RenewExecution memory_port cx ren s = (s', lres) \<Longrightarrow>
     st_records s' = st_records s \<and> st_events s' = st_events s"
  "rt_ReleaseExecution memory_port cx l s = (s', ores) \<Longrightarrow>
     st_records s' = st_records s \<and> st_events s' = st_events s"
  "rt_QuarantineExecution memory_port cx b v s = (s', ores) \<Longrightarrow>
     st_records s' = st_records s \<and> st_events s' = st_events s"
  "rt_RepairExecutionQuarantine memory_port cx b v s = (s', ores) \<Longrightarrow>
     st_records s' = st_records s \<and> st_events s' = st_events s"
  subgoal by (cases lres) (auto simp: rt_AcquireExecution_def split: if_splits
      dest: AcquireExecution_err AcquireExecution_ok)
  subgoal by (cases lres) (auto simp: rt_RenewExecution_def split: if_splits
      dest: RenewExecution_err RenewExecution_ok)
  subgoal by (auto simp: rt_ReleaseExecution_def split: if_splits dest: ReleaseExecution_cases)
  subgoal by (auto simp: rt_QuarantineExecution_def split: if_splits dest: QuarantineExecution_cases)
  subgoal by (auto simp: rt_RepairExecutionQuarantine_def split: if_splits dest: RepairExecutionQuarantine_cases)
  done

lemma rt_Create_cases:
  assumes "rt_Create memory_port now newID req s = (s', res)" and "id_source_ok newID"
  obtains "s' = s"
  | rc es where "Create rc es s = (s', res)" "run_ID (rec_Run rc) \<noteq> []"
      "trim_space (run_ID (rec_Run rc)) = run_ID (rec_Run rc)" "run_Revision (rec_Run rc) = 1"
      "run_Status (rec_Run rc) = RunStatusRunning" "snap_shape (snapshotFromRecord rc)"
      "rec_ExecutionRequired rc = cr_ExecutionRequired req"
proof -
  have shape: "validCreateRequest req \<Longrightarrow> run_Status (rec_Run rc) = RunStatusRunning \<Longrightarrow>
      run_EndedAt (rec_Run rc) = None \<Longrightarrow> rec_Result rc = None \<Longrightarrow> rec_Checkpoint rc = None \<Longrightarrow>
      rec_State rc = cr_State req \<Longrightarrow> run_Revision (rec_Run rc) = 1 \<Longrightarrow> snap_shape (snapshotFromRecord rc)" for rc
    by (simp add: snap_shape_def snapshotFromRecord_def validCreateRequest_def)
  show thesis
  proof (cases "s' = s")
    case False
    then obtain rc es where "Create rc es s = (s', res)" "run_ID (rec_Run rc) \<noteq> []"
      "trim_space (run_ID (rec_Run rc)) = run_ID (rec_Run rc)" "run_Revision (rec_Run rc) = 1"
      "run_Status (rec_Run rc) = RunStatusRunning" "run_EndedAt (rec_Run rc) = None" "rec_Result rc = None"
      "rec_Checkpoint rc = None" "rec_State rc = cr_State req" "validCreateRequest req"
      "rec_ExecutionRequired rc = cr_ExecutionRequired req"
      using assms unfolding rt_Create_def id_source_ok_def
      by (auto split: if_splits sum.splits option.splits simp: trim_space_idem)
    with shape show thesis using that(2) by blast
  qed (rule that(1))
qed

lemma Create_runs:
  assumes "Create rc es s = (s', res)" "run_ID (rec_Run rc) \<noteq> []"
    "trim_space (run_ID (rec_Run rc)) = run_ID (rec_Run rc)" "run_Revision (rec_Run rc) = 1"
    "run_Status (rec_Run rc) = RunStatusRunning" "snap_shape (snapshotFromRecord rc)"
  shows "run_kept s s' q \<or> run_created s s' q"
  using Create_cases [OF assms(1)] assms(2-)
  by (cases "q = run_ID (rec_Run rc)") (auto simp: run_kept_def run_created_def wf_journal_appendEvents)

lemma commit_step_runs:
  assumes "pending_ok s (PendingApply r e m b)" and "\<And>r. rec_wf s r"
    and "apply_commit memory_port cx b r e m s = (s', res)"
  shows "run_kept s s' q \<or> run_advanced s s' q"
proof (cases res)
  case (Inl err)
  then have "s' = s" using assms(3)
    by (auto simp: apply_commit_def split: option.splits dest: Apply_err ApplyExecution_err)
  then show ?thesis by simp
next
  case (Inr sn)
  have p: "pend s r e m" and b: "\<And>l. b = Some l \<Longrightarrow> el_RunID l = trim_space r"
    using assms(1) by (auto simp: pending_ok_def)
  have "\<exists>k c. (k = r \<or> k = trim_space r) \<and> st_records s k = Some c \<and> run_Revision (sn_Run c) = e \<and>
      s' = commit_state k m s"
  proof (cases b)
    case None
    then show ?thesis using assms(3) Inr by (auto simp: apply_commit_def Apply_ok)
  next
    case (Some l)
    with assms(3) Inr have "ApplyExecution cx l e m s = (s', Inr sn)" by (simp add: apply_commit_def)
    from ApplyExecution_ok [OF this] b [OF Some] show ?thesis by auto
  qed
  then obtain k c where "k = r \<or> k = trim_space r" "st_records s k = Some c"
    "run_Revision (sn_Run c) = e" "s' = commit_state k m s" by blast
  with commit_runs [OF p assms(2), of k c s] show ?thesis by (cases "q = k") auto
qed

lemma control_step_runs:
  assumes "pending_ok s (PendingControl r e g m)" and "\<And>r. rec_wf s r"
    and "control_commit memory_port cx r e g m s = (s', res)"
  shows "run_kept s s' q \<or> run_advanced s s' q"
proof (cases res)
  case (Inl err)
  then have "s' = s" using assms(3)
    by (auto simp: control_commit_def split: prod.splits sum.splits dest: ApplyControl_err)
  then show ?thesis by simp
next
  case (Inr v)
  obtain sn rv where v: "v = (sn, rv)" by (cases v)
  have "ApplyControl cx r e g m s = (s', Inr (sn, rv))"
    using assms(3) Inr v by (auto simp: control_commit_def split: prod.splits sum.splits)
  from ApplyControl_ok [OF this] obtain c where "st_records s r = Some c" "run_Revision (sn_Run c) = e"
    "s' = commit_state r m (revoke r s)" by blast
  with commit_runs [OF _ assms(2), of r e m r c "revoke r s"] assms(1)
  show ?thesis by (cases "q = r") (auto simp: pending_ok_def)
qed

text \<open>Every step keeps a run, advances it by one valid transition, or creates it.\<close>

lemma kstep_runs:
  assumes "kstep \<sigma> \<tau>" and inv: "sys_inv \<sigma>"
  shows "run_kept (sys_store \<sigma>) (sys_store \<tau>) q \<or> run_advanced (sys_store \<sigma>) (sys_store \<tau>) q \<or>
         run_created (sys_store \<sigma>) (sys_store \<tau>) q"
  using assms(1)
proof cases
  case (K_create newID now req s' res)
  have "run_kept (sys_store \<sigma>) s' q \<or> run_created (sys_store \<sigma>) s' q"
    by (rule rt_Create_cases [OF K_create(3,2)]) (simp, rule Create_runs)
  with K_create(1) show ?thesis by simp blast
next
  case (K_commit r e m b cx s' res)
  with inv have "pending_ok (sys_store \<sigma>) (PendingApply r e m b)" by (auto simp: sys_inv_def)
  from commit_step_runs [OF this _ K_commit(3)] inv K_commit(1) show ?thesis by (auto simp: sys_inv_def)
next
  case (K_control_commit r e g m cx s' res)
  with inv have "pending_ok (sys_store \<sigma>) (PendingControl r e g m)" by (auto simp: sys_inv_def)
  from control_step_runs [OF this _ K_control_commit(3)] inv K_control_commit(1) show ?thesis
    by (auto simp: sys_inv_def)
qed (auto simp: run_kept_def dest: lease_frame outbox_frame)

subsection \<open>The invariant\<close>

lemma rec_wf_step:
  assumes "rec_wf s r" and "run_kept s s' r \<or> run_advanced s s' r \<or> run_created s s' r"
  shows "rec_wf s' r"
  using assms
  by (auto simp: rec_wf_def run_kept_def run_advanced_def run_created_def snap_step_def run_identity_def
      intro: wf_journal_appendEvents split: option.splits)

lemma snap_step_less:
  "snap_step cur next \<Longrightarrow> run_Revision (sn_Run cur) \<noteq> max_u64 \<Longrightarrow>
   run_Revision (sn_Run cur) < run_Revision (sn_Run next)"
  by (simp add: snap_step_def less_Suc_u64)

lemma pend_step:
  assumes "pend s r e m" and "revisions_below_max s"
    and "run_kept s s' (trim_space r) \<or> run_advanced s s' (trim_space r) \<or> run_created s s' (trim_space r)"
  shows "pend s' r e m"
proof -
  from assms(1) obtain cur sn where sn: "st_records s (trim_space r) = Some sn"
    "sn = cur \<or> run_Revision (sn_Run cur) < run_Revision (sn_Run sn)"
    "run_Revision (sn_Run cur) = e" "snap_step cur (snapshotFromRecord (sm_Record m))"
    by (auto simp: pend_def)
  have max: "run_Revision (sn_Run sn) \<noteq> max_u64" using assms(2) sn(1) by (auto simp: revisions_below_max_def)
  from assms(3) sn(1) obtain sn' where "st_records s' (trim_space r) = Some sn'"
    "sn' = sn \<or> run_Revision (sn_Run sn) < run_Revision (sn_Run sn')"
    by (auto simp: run_kept_def run_advanced_def run_created_def dest: snap_step_less [OF _ max])
  with sn show ?thesis unfolding pend_def by (metis order_less_trans)
qed

lemma prepare_pend:
  assumes "apply_prepare memory_port b now r e m evidence s = Inr proposed"
    and "\<And>r. rec_wf s r" and "revisions_below_max s"
  shows "pending_ok s (PendingApply r e proposed b)"
proof -
  from mem.prepare_ok [OF assms(1)] obtain cur where cur: "st_records s (trim_space r) = Some cur"
    "run_Revision (sn_Run cur) = e" "validateMutation cur m = None" "proposed = makeStoreMutation now cur m"
    "\<forall>l. b = Some l \<longrightarrow> el_RunID l = trim_space r" by blast
  have "snap_shape cur" using assms(2) [of "trim_space r"] cur(1) by (simp add: rec_wf_def)
  moreover have "run_Revision (sn_Run cur) \<noteq> max_u64" using assms(3) cur(1) by (auto simp: revisions_below_max_def)
  ultimately show ?thesis
    using cur makeStoreMutation_step [OF cur(3)] by (auto simp: pending_ok_def pend_def)
qed

lemma control_prepare_ok:
  assumes "control_prepare memory_port b now r e g m permit s = Inr (g', next)"
  shows "\<exists>cur. st_records s (trim_space r) = Some cur \<and> run_Revision (sn_Run cur) = e \<and>
     validateMutation cur m = None \<and> next = makeStoreMutation now cur m \<and> g' = g\<lparr>cg_verified := permit\<rparr> \<and>
     ValidateControl cur g' next now = None"
  using assms by (auto simp: control_prepare_def rt_Load_def Load_def Let_def
      split: if_splits sum.splits option.splits)

lemma control_prepare_pend:
  assumes "control_prepare memory_port b now r e g m permit s = Inr (g', next)"
    and "\<And>r. rec_wf s r" and "revisions_below_max s"
  shows "pending_ok s (PendingControl r e g' next)"
proof -
  from control_prepare_ok [OF assms(1)] obtain cur where cur: "st_records s (trim_space r) = Some cur"
    "run_Revision (sn_Run cur) = e" "validateMutation cur m = None" "next = makeStoreMutation now cur m" by blast
  have "snap_shape cur" using assms(2) [of "trim_space r"] cur(1) by (simp add: rec_wf_def)
  moreover have "run_Revision (sn_Run cur) \<noteq> max_u64" using assms(3) cur(1) by (auto simp: revisions_below_max_def)
  ultimately show ?thesis
    using cur makeStoreMutation_step [OF cur(3)] by (auto simp: pending_ok_def pend_def)
qed

lemma pending_ok_step:
  assumes "pending_ok s p" and "revisions_below_max s"
    and "\<And>q. run_kept s s' q \<or> run_advanced s s' q \<or> run_created s s' q"
  shows "pending_ok s' p"
  using assms by (auto simp: pending_ok_def split: pending.splits intro: pend_step)

lemma kstep_pending:
  assumes "kstep \<sigma> \<tau>" and "sys_inv \<sigma>" and "revisions_below_max (sys_store \<sigma>)"
  shows "\<forall>p\<in>sys_pending \<tau>. pending_ok (sys_store \<tau>) p"
proof -
  have old: "\<forall>p\<in>sys_pending \<sigma>. pending_ok (sys_store \<tau>) p"
    using assms(2) pending_ok_step [OF _ assms(3) kstep_runs [OF assms(1,2)]] by (auto simp: sys_inv_def)
  from assms(1) show ?thesis
  proof cases
    case (K_prepare b now r e m evidence proposed)
    with old prepare_pend [OF K_prepare(2) _ assms(3)] assms(2) show ?thesis by (auto simp: sys_inv_def)
  next
    case (K_control_prepare b now r e g m permit g' nx)
    with old control_prepare_pend [OF K_control_prepare(2) _ assms(3)] assms(2) show ?thesis
      by (auto simp: sys_inv_def)
  qed (use old in auto)
qed

lemma exec_wf_frame:
  "exec_wf s r \<Longrightarrow> st_records s' r = st_records s r \<Longrightarrow> st_execution s' r = st_execution s r \<Longrightarrow> exec_wf s' r"
  by (simp add: exec_wf_def)

lemma zero_execution_simps [simp]:
  "mx_epoch zero_execution = 0" "mx_lease zero_execution = zero_lease"
  "mx_quarantineRev zero_execution = 0" "mx_quarantineGen zero_execution = 0"
  by (simp_all add: zero_execution_def)

lemma exec_wf_advance:
  "exec_wf s r \<Longrightarrow> st_records s r \<noteq> None \<Longrightarrow> mx_quarantineRev (st_execution s r) = 0 \<Longrightarrow>
   st_execution s' r = st_execution s r \<Longrightarrow> st_records s' r \<noteq> None \<Longrightarrow> exec_wf s' r"
  by (auto simp: exec_wf_def Let_def)

lemma exec_wf_commit:
  assumes "\<And>q. exec_wf s q" and "apply_commit memory_port cx b r e m s = (s', res)"
  shows "exec_wf s' q"
proof (cases res)
  case (Inl err)
  then have "s' = s" using assms(2)
    by (auto simp: apply_commit_def split: option.splits dest: Apply_err ApplyExecution_err)
  then show ?thesis using assms(1) by simp
next
  case (Inr sn)
  have "\<exists>k c. st_records s k = Some c \<and> mx_quarantineRev (st_execution s k) = 0 \<and> s' = commit_state k m s"
  proof (cases b)
    case None
    then obtain c where "st_records s r = Some c" "mx_epoch (st_execution s r) = 0" "s' = commit_state r m s"
      using assms(2) Inr by (auto simp: apply_commit_def Apply_ok)
    moreover from this(2) assms(1) [of r] have "mx_quarantineRev (st_execution s r) = 0"
      by (simp add: exec_wf_def Let_def)
    ultimately show ?thesis by blast
  next
    case (Some l)
    with assms(2) Inr have "ApplyExecution cx l e m s = (s', Inr sn)" by (simp add: apply_commit_def)
    from ApplyExecution_ok [OF this] show ?thesis by auto
  qed
  then obtain k c where k: "st_records s k = Some c" "mx_quarantineRev (st_execution s k) = 0" "s' = commit_state k m s"
    by blast
  show ?thesis
  proof (cases "q = k")
    case True
    with k exec_wf_advance [OF assms(1) [of k]] show ?thesis by simp
  next
    case False
    with k exec_wf_frame [OF assms(1) [of q]] show ?thesis by simp
  qed
qed

text \<open>A control that leaves a run not running from the running state ends it.\<close>

lemma ValidateControl_running:
  assumes "ValidateControl cur g m now = None" and "run_Status (sn_Run cur) = RunStatusRunning"
    and "run_Status (rec_Run (sm_Record m)) \<noteq> RunStatusRunning"
  shows "terminalStatus (run_Status (rec_Run (sm_Record m)))"
  using ValidateControl_kind [OF assms(1)] assms(2,3)
  by (cases "cg_Kind g")
     (auto simp: check_approval_def check_allowance_def check_external_signal_def check_cancel_def
        check_deadline_def split: if_splits option.splits)

lemma exec_wf_control:
  assumes "\<And>q. exec_wf s q" and "control_commit memory_port cx r e g m s = (s', res)"
  shows "exec_wf s' q"
proof (cases res)
  case (Inl err)
  then have "s' = s" using assms(2)
    by (auto simp: control_commit_def split: prod.splits sum.splits dest: ApplyControl_err)
  then show ?thesis using assms(1) by simp
next
  case (Inr v)
  obtain sn rv where v: "v = (sn, rv)" by (cases v)
  have "ApplyControl cx r e g m s = (s', Inr (sn, rv))"
    using assms(2) Inr v by (auto simp: control_commit_def split: prod.splits sum.splits)
  from ApplyControl_ok [OF this] obtain c where c: "st_records s r = Some c"
    "ValidateControl c g m (st_clock s) = None" "s' = commit_state r m (revoke r s)"
    "mx_epoch (st_execution s r) \<noteq> max_u64"
    "mx_quarantineRev (st_execution s r) \<noteq> 0 \<Longrightarrow> run_Status (rec_Run (sm_Record m)) \<noteq> RunStatusRunning"
    by blast
  show ?thesis
  proof (cases "q = r")
    case True
    have "mx_quarantineRev (st_execution s r) \<noteq> 0 \<Longrightarrow> terminalStatus (run_Status (rec_Run (sm_Record m)))"
      using assms(1) [of r] c ValidateControl_running [OF c(2)] ValidateControl_NoneD(4) [OF c(2)]
      by (auto simp: exec_wf_def Let_def)
    then show ?thesis using assms(1) [of r] c True Suc_u64_nonzero [OF c(4)]
      by (cases "mx_quarantineRev (st_execution s r) = 0") (auto simp: exec_wf_def Let_def revoke_def word_gt_0)
  next
    case False
    then show ?thesis using c exec_wf_frame [OF assms(1) [of q]] by (simp add: revoke_def)
  qed
qed

lemma exec_wf_create:
  assumes "\<And>q. exec_wf s q" and "rt_Create memory_port now newID req s = (s', res)" and "id_source_ok newID"
  shows "exec_wf s' q"
  using assms(2,3)
proof (rule rt_Create_cases)
  assume "s' = s"
  then show ?thesis using assms(1) by simp
next
  fix rc es
  assume "Create rc es s = (s', res)"
  note cases = Create_cases [OF this]
  show ?thesis
  proof (cases "s' = s")
    case False
    with cases obtain sn where new: "st_records s (run_ID (rec_Run rc)) = None"
      "st_records s' = (st_records s)(run_ID (rec_Run rc) \<mapsto> sn)"
      "st_execution s' = (if rec_ExecutionRequired rc
        then (st_execution s)(run_ID (rec_Run rc) := zero_execution\<lparr>mx_epoch := 1\<rparr>) else st_execution s)" by blast
    show ?thesis
    proof (cases "q = run_ID (rec_Run rc)")
      case True
      with new assms(1) [of q] show ?thesis
        by (cases "rec_ExecutionRequired rc") (simp_all add: exec_wf_def Let_def)
    next
      case False
      with new exec_wf_frame [OF assms(1) [of q]] show ?thesis by simp
    qed
  qed (use assms(1) in simp)
qed

lemma exec_wf_set_lease:
  assumes "\<And>q. exec_wf s q" and "0 < mx_epoch (st_execution s k)"
    and "lease = zero_lease \<or> mx_lease (st_execution s k) \<noteq> zero_lease \<and>
      el_Epoch lease = el_Epoch (mx_lease (st_execution s k)) \<and> el_RunID lease = el_RunID (mx_lease (st_execution s k))"
  shows "exec_wf (s\<lparr>st_execution := (st_execution s)(k := (st_execution s k)\<lparr>mx_lease := lease\<rparr>)\<rparr>) q"
proof (cases "q = k")
  case True
  have "mx_epoch (st_execution s k) \<noteq> 0" using assms(2) by (simp add: word_gt_0)
  with assms(1) [of k] assms(3) show ?thesis unfolding True exec_wf_def Let_def by auto
qed (use assms(1) [of q] in \<open>simp add: exec_wf_def\<close>)

lemma exec_wf_update:
  "\<forall>q. exec_wf s q \<Longrightarrow> exec_wf (s\<lparr>st_execution := (st_execution s)(k := x)\<rparr>) k \<Longrightarrow>
   exec_wf (s\<lparr>st_execution := (st_execution s)(k := x)\<rparr>) q"
  by (cases "q = k") (simp_all add: exec_wf_def)

lemma exec_wf_acquire:
  assumes "\<And>q. exec_wf s q" and "rt_AcquireExecution memory_port cx fresh acq s = (s', lres)"
  shows "exec_wf s' q"
proof (cases "s' = s")
  case False
  with assms(2) obtain l where "AcquireExecution cx fresh acq s = (s', Inr l)"
    by (cases lres) (auto simp: rt_AcquireExecution_def split: if_splits dest: AcquireExecution_err)
  from AcquireExecution_ok [OF this] obtain x cur where
    s': "s' = s\<lparr>st_execution := (st_execution s)(ea_RunID acq := x)\<rparr>" and
    "st_records s (ea_RunID acq) = Some cur" "mx_quarantineRev x = 0" "mx_epoch x \<noteq> 0"
    "el_Epoch (mx_lease x) = mx_epoch x" "el_RunID (mx_lease x) = ea_RunID acq"
    using Suc_u64_nonzero by force
  then have "exec_wf s' (ea_RunID acq)" by (simp add: exec_wf_def)
  with s' show ?thesis using exec_wf_update assms(1) by blast
qed (use assms(1) in simp)

lemma exec_wf_renew:
  assumes "\<And>q. exec_wf s q" and "rt_RenewExecution memory_port cx ren s = (s', lres)"
  shows "exec_wf s' q"
proof (cases "s' = s")
  case False
  with assms(2) obtain l where "RenewExecution cx ren s = (s', Inr l)"
    by (cases lres) (auto simp: rt_RenewExecution_def split: if_splits dest: RenewExecution_err)
  note ok = RenewExecution_ok [OF this]
  have "mx_lease (st_execution s (el_RunID (er_Lease ren))) \<noteq> zero_lease" using ok active_not_zero by blast
  moreover have "0 < mx_epoch (st_execution s (el_RunID (er_Lease ren)))"
    using ok by (simp add: activeMemoryLease_def)
  ultimately show ?thesis using ok exec_wf_set_lease [OF assms(1)] by simp
qed (use assms(1) in simp)

lemma exec_wf_release:
  assumes "\<And>q. exec_wf s q" and "rt_ReleaseExecution memory_port cx l s = (s', ores)"
  shows "exec_wf s' q"
proof (cases "s' = s")
  case False
  with assms(2) have "ReleaseExecution cx l s = (s', ores)"
    by (auto simp: rt_ReleaseExecution_def split: if_splits)
  from ReleaseExecution_cases [OF this] False show ?thesis
    using exec_wf_set_lease [OF assms(1)] by (simp add: activeMemoryLease_def)
qed (use assms(1) in simp)

lemma exec_wf_quarantine:
  assumes "\<And>q. exec_wf s q" and "rt_QuarantineExecution memory_port cx b v s = (s', ores)"
  shows "exec_wf s' q"
proof (cases "s' = s")
  case False
  with assms(2) have "QuarantineExecution cx v s = (s', ores)"
    by (simp add: rt_QuarantineExecution_def split: if_splits)
  from QuarantineExecution_cases [OF this] False obtain cur x where
    s': "s' = s\<lparr>st_execution := (st_execution s)(eq_RunID v := x)\<rparr>" and
    "st_records s (eq_RunID v) = Some cur" "run_Status (sn_Run cur) = RunStatusRunning"
    "run_Revision (sn_Run cur) = mx_quarantineRev x" "mx_epoch x \<noteq> 0" "mx_lease x = zero_lease"
    using Suc_u64_nonzero by force
  then have "exec_wf s' (eq_RunID v)" by (simp add: exec_wf_def)
  with s' show ?thesis using exec_wf_update assms(1) by blast
qed (use assms(1) in simp)

lemma exec_wf_repair:
  assumes "\<And>q. exec_wf s q" and "rt_RepairExecutionQuarantine memory_port cx b v s = (s', ores)"
  shows "exec_wf s' q"
proof (cases "s' = s")
  case False
  with assms(2) have "RepairExecutionQuarantine cx v s = (s', ores)"
    by (simp add: rt_RepairExecutionQuarantine_def split: if_splits)
  from RepairExecutionQuarantine_cases [OF this] False obtain cur x where
    s': "s' = s\<lparr>st_execution := (st_execution s)(eq_RunID v := x)\<rparr>" and
    "st_records s (eq_RunID v) = Some cur" "mx_quarantineRev x = 0"
    "mx_epoch x = mx_epoch (st_execution s (eq_RunID v))" "mx_lease x = mx_lease (st_execution s (eq_RunID v))"
    "mx_quarantineRev (st_execution s (eq_RunID v)) \<noteq> 0"
    by force
  moreover from calculation(6) assms(1) [of "eq_RunID v"] have "mx_epoch (st_execution s (eq_RunID v)) \<noteq> 0"
    by (auto simp: exec_wf_def Let_def)
  ultimately have "exec_wf s' (eq_RunID v)" using assms(1) [of "eq_RunID v"]
    by (simp add: exec_wf_def Let_def)
  with s' show ?thesis using exec_wf_update assms(1) by blast
qed (use assms(1) in simp)

lemma kstep_exec_wf:
  assumes "kstep \<sigma> \<tau>" and "sys_inv \<sigma>"
  shows "exec_wf (sys_store \<tau>) q"
proof -
  have wf: "\<And>q. exec_wf (sys_store \<sigma>) q" using assms(2) by (simp add: sys_inv_def)
  from assms(1) show ?thesis
  proof cases
    case (K_create newID now req s' res)
    then show ?thesis using exec_wf_create [OF wf K_create(3,2)] by simp
  next
    case (K_commit r e m b cx s' res)
    then show ?thesis using exec_wf_commit [OF wf K_commit(3)] by simp
  next
    case (K_control_commit r e g m cx s' res)
    then show ?thesis using exec_wf_control [OF wf K_control_commit(3)] by simp
  next
    case (K_acquire cx fresh acq s' lres)
    then show ?thesis using exec_wf_acquire [OF wf K_acquire(2)] by simp
  next
    case (K_renew cx ren s' lres)
    then show ?thesis using exec_wf_renew [OF wf K_renew(2)] by simp
  next
    case (K_release cx l s' ores)
    then show ?thesis using exec_wf_release [OF wf K_release(2)] by simp
  next
    case (K_quarantine cx b v s' ores)
    then show ?thesis using exec_wf_quarantine [OF wf K_quarantine(2)] by simp
  next
    case (K_repair cx b v s' ores)
    then show ?thesis using exec_wf_repair [OF wf K_repair(2)] by simp
  next
    case (K_claim creq s' clres)
    then show ?thesis using outbox_frame(1) [OF K_claim(2)] exec_wf_frame [OF wf] by simp
  next
    case (K_ack lreq s' ores)
    then show ?thesis using outbox_frame(2) [OF K_ack(2)] exec_wf_frame [OF wf] by simp
  next
    case (K_retry rreq s' ores)
    then show ?thesis using outbox_frame(3) [OF K_retry(2)] exec_wf_frame [OF wf] by simp
  next
    case (K_clock t)
    then show ?thesis using exec_wf_frame [OF wf] by simp
  qed (use wf in simp_all)
qed

lemma sys_inv_init: "sys_inv (init_sys t)"
  by (simp add: sys_inv_def init_sys_def NewStore_def rec_wf_def exec_wf_def)

lemma sys_inv_step:
  assumes "kstep' \<sigma> \<tau>" and "sys_inv \<sigma>"
  shows "sys_inv \<tau>"
proof -
  from assms(1) have step: "kstep \<sigma> \<tau>" and below: "revisions_below_max (sys_store \<sigma>)"
    by (simp_all add: kstep'_def)
  have "rec_wf (sys_store \<tau>) r" for r
    using rec_wf_step [OF _ kstep_runs [OF step assms(2)]] assms(2) by (simp add: sys_inv_def)
  with kstep_pending [OF step assms(2) below] kstep_exec_wf [OF step assms(2)]
  show ?thesis by (simp add: sys_inv_def)
qed

lemma sys_inv_steps: "ksteps \<sigma> \<tau> \<Longrightarrow> sys_inv \<sigma> \<Longrightarrow> sys_inv \<tau>"
  by (induction rule: rtranclp_induct) (auto intro: sys_inv_step)

lemma reach_inv: "reach \<sigma> \<Longrightarrow> sys_inv \<sigma>"
  unfolding reach_def using sys_inv_init sys_inv_steps by blast

lemma reach_steps: "reach \<sigma> \<Longrightarrow> ksteps \<sigma> \<tau> \<Longrightarrow> reach \<tau>"
  unfolding reach_def by (meson rtranclp_trans)

end
