(* ===== verification/Kernel_Examples.thy ===== *)
theory Kernel_Examples
  imports Kernel_System
begin

text \<open>
  Concrete executions of the kernel on one run, used to show that the hypotheses of its
  properties can hold: a run is created (with or without required execution), leased twice,
  quarantined, and cancelled.
\<close>

definition ex_id :: string where
  "ex_id = ''run-1''"

definition ex_req :: "bool \<Rightarrow> CreateRequest" where
  "ex_req x = \<lparr>cr_ExecutionRequired = x, cr_ID = ex_id, cr_Kind = ''demo'',
     cr_Actor = \<lparr>actor_TenantID = ''t'', actor_ActorID = ''a''\<rparr>,
     cr_Thread = \<lparr>thread_Kind = ''chat'', thread_ID = ''1''\<rparr>, cr_RequestID = ''q'', cr_Goal = ''go'',
     cr_DeadlineAt = Some 1000, cr_State = ''{}'', cr_Events = []\<rparr>"

definition ex_cur :: Snapshot where
  "ex_cur = \<lparr>sn_Run = \<lparr>run_ID = ex_id, run_Kind = ''demo'', run_Actor = \<lparr>actor_TenantID = ''t'', actor_ActorID = ''a''\<rparr>,
       run_Thread = \<lparr>thread_Kind = ''chat'', thread_ID = ''1''\<rparr>, run_RequestID = ''q'', run_Goal = ''go'',
       run_Status = RunStatusRunning, run_Revision = 1, run_ErrorCode = [], run_ErrorDetail = [],
       run_DeadlineAt = Some 1000, run_EndedAt = None, run_CreatedAt = 10, run_UpdatedAt = 10\<rparr>,
     sn_State = ''{}'', sn_Checkpoint = None, sn_Result = None, sn_EventHead = 1\<rparr>"

definition ex_created :: "bool \<Rightarrow> Sys" where
  "ex_created x = (init_sys 10)\<lparr>sys_store :=
     fst (rt_Create memory_port 10 (Inl ErrEntropy) (ex_req x) (sys_store (init_sys 10)))\<rparr>"

lemma ex_valid: "validCreateRequest (ex_req x)" "trim_space ex_id = ex_id" "\<not> blank ex_id" "ex_id \<noteq> []"
  "trim_space ''q'' = ''q''" "trim_space ''go'' = ''go''"
  by (cases x; code_simp)+

lemma ex_created_store:
  "st_records (sys_store (ex_created x)) = [ex_id \<mapsto> ex_cur]"
  "st_execution (sys_store (ex_created x)) =
     (\<lambda>_. zero_execution)(ex_id := if x then zero_execution\<lparr>mx_epoch := 1\<rparr> else zero_execution)"
  "st_clock (sys_store (ex_created x)) = 10"
  "sys_pending (ex_created x) = {}"
  using ex_valid
  by (simp_all add: ex_created_def rt_Create_def hasReservedApplyEvidence_def SupportsExecution_def Create_def
      Let_def init_sys_def NewStore_def snapshotFromRecord_def ex_cur_def ex_req_def fun_eq_iff)

lemma ex_created_step: "kstep' (init_sys 10) (ex_created x)"
proof -
  have "kstep (init_sys 10) (ex_created x)"
    unfolding ex_created_def
    by (rule kstep.K_create [of "Inl ErrEntropy" 10 "ex_req x" "init_sys 10" _
          "snd (rt_Create memory_port 10 (Inl ErrEntropy) (ex_req x) (sys_store (init_sys 10)))"])
       (simp_all add: id_source_ok_def)
  moreover have "revisions_below_max (sys_store (init_sys 10))"
    by (simp add: revisions_below_max_def init_sys_def NewStore_def)
  ultimately show ?thesis by (simp add: kstep'_def)
qed

lemma reach_created: "reach (ex_created x)"
  unfolding reach_def using ex_created_step by blast

lemma below_max_single: "st_records s = [k \<mapsto> sn] \<Longrightarrow> run_Revision (sn_Run sn) \<noteq> max_u64 \<Longrightarrow> revisions_below_max s"
  by (auto simp: revisions_below_max_def split: if_splits)

lemma below_max_created: "revisions_below_max (sys_store (ex_created x))"
  by (rule below_max_single [OF ex_created_store(1)]) (simp add: ex_cur_def)

subsection \<open>Cancellation\<close>

definition ex_cancel :: StoreMutation where
  "ex_cancel = makeStoreMutation 20 ex_cur (cancel_mutation ex_cur ''stop'')"

definition ex_guard :: ControlGuard where
  "ex_guard = (plain_guard ControlCancel)\<lparr>cg_verified := None\<rparr>"

definition ex_pending :: "bool \<Rightarrow> Sys" where
  "ex_pending x = (ex_created x)\<lparr>sys_pending := {PendingControl ex_id 1 ex_guard ex_cancel}\<rparr>"

definition ex_cancelled :: "bool \<Rightarrow> Sys" where
  "ex_cancelled x = (ex_pending x)\<lparr>sys_store :=
     fst (control_commit memory_port CtxLive ex_id 1 ex_guard ex_cancel (sys_store (ex_pending x)))\<rparr>"

lemma ex_cancel_valid:
  "validateMutation ex_cur (cancel_mutation ex_cur ''stop'') = None"
  "ValidateControl ex_cur ex_guard ex_cancel 20 = None"
  "ValidateControl ex_cur ex_guard ex_cancel 10 = None"
  "\<not> hasReservedApplyEvidence (mu_Events (cancel_mutation ex_cur ''stop''))"
  "run_Revision (sn_Run ex_cur) = 1"
  by code_simp+

lemma ex_prepare:
  "control_prepare memory_port None 20 ex_id 1 (plain_guard ControlCancel)
     (cancel_mutation ex_cur ''stop'') None (sys_store (ex_created x)) = Inr (ex_guard, ex_cancel)"
  using ex_cancel_valid ex_valid
  by (simp add: control_prepare_def rt_Load_def Load_def ex_created_store Let_def ex_guard_def ex_cancel_def)

lemma ex_pending_step: "kstep' (ex_created x) (ex_pending x)"
  using kstep.K_control_prepare [OF ex_prepare] below_max_created
  by (simp add: kstep'_def ex_pending_def ex_created_store)

lemma ex_pending_store: "sys_store (ex_pending x) = sys_store (ex_created x)"
  by (simp add: ex_pending_def)

lemma ex_control_ok:
  "control_commit memory_port CtxLive ex_id 1 ex_guard ex_cancel (sys_store (ex_created x)) =
     (commit_state ex_id ex_cancel (revoke ex_id (sys_store (ex_created x))),
      Inr (commit_snapshot ex_id ex_cancel (sys_store (ex_created x)), x))"
  using ex_cancel_valid ex_valid
  by (simp add: control_commit_def ApplyControl_eq ex_created_store)

lemma ex_cancelled_step: "kstep' (ex_pending x) (ex_cancelled x)"
proof -
  have "kstep (ex_pending x) ((ex_pending x)\<lparr>sys_store :=
      commit_state ex_id ex_cancel (revoke ex_id (sys_store (ex_created x)))\<rparr>)"
    by (rule kstep.K_control_commit [of ex_id 1 ex_guard ex_cancel _ CtxLive])
       (simp_all only: ex_pending_store ex_control_ok, simp add: ex_pending_def)
  then show ?thesis
    by (simp add: kstep'_def ex_cancelled_def ex_pending_store ex_control_ok below_max_created)
qed

lemma reach_pending: "reach (ex_pending x)"
  using reach_steps [OF reach_created] ex_pending_step by blast

lemma reach_cancelled: "reach (ex_cancelled x)"
  using reach_steps [OF reach_pending] ex_cancelled_step by blast

lemma ex_cancelled_store:
  "st_records (sys_store (ex_cancelled x)) =
     [ex_id \<mapsto> commit_snapshot ex_id ex_cancel (sys_store (ex_created x))]"
  "run_Status (rec_Run (sm_Record ex_cancel)) = RunStatusCancelled"
  "run_Revision (rec_Run (sm_Record ex_cancel)) = 2"
  by (simp_all add: ex_cancelled_def ex_pending_store ex_control_ok ex_created_store)
     (simp_all add: ex_cancel_def makeStoreMutation_def cancel_mutation_def Let_def ex_cur_def)

lemma below_max_cancelled: "revisions_below_max (sys_store (ex_cancelled x))"
  by (rule below_max_single [OF ex_cancelled_store(1)]) (simp add: ex_cancelled_store)

lemma ex_clock_step: "revisions_below_max (sys_store \<sigma>) \<Longrightarrow>
    kstep' \<sigma> (\<sigma>\<lparr>sys_store := (sys_store \<sigma>)\<lparr>st_clock := t\<rparr>\<rparr>)"
  by (simp add: kstep'_def kstep.K_clock)

subsection \<open>Leases\<close>

definition ex_acquire :: ExecutionAcquireRequest where
  "ex_acquire = \<lparr>ea_RunID = ex_id, ea_OwnerID = ''w'', ea_LeaseDuration = 1000000\<rparr>"

definition ex_lease :: "nat \<Rightarrow> time \<Rightarrow> ExecutionLease" where
  "ex_lease n t = \<lparr>el_RunID = ex_id, el_OwnerID = ''w'', el_LeaseID = ''lease'',
     el_Epoch = of_nat n, el_ExpiresAt = t + 1000000\<rparr>"

definition ex_set_execution :: "memoryExecutionState \<Rightarrow> time \<Rightarrow> Sys" where
  "ex_set_execution e t = (ex_created True)\<lparr>sys_store := (sys_store (ex_created True))
     \<lparr>st_execution := (st_execution (sys_store (ex_created True)))(ex_id := e), st_clock := t\<rparr>\<rparr>"

lemma ex_set_execution_store [simp]:
  "st_records (sys_store (ex_set_execution e t)) = [ex_id \<mapsto> ex_cur]"
  "st_execution (sys_store (ex_set_execution e t)) ex_id = e"
  "st_clock (sys_store (ex_set_execution e t)) = t"
  by (simp_all add: ex_set_execution_def ex_created_store)

lemma below_max_set: "revisions_below_max (sys_store (ex_set_execution e t))"
  by (rule below_max_single [OF ex_set_execution_store(1)]) (simp add: ex_cur_def)

lemma ex_set_clock: "ksteps (ex_set_execution e t) (ex_set_execution e t')"
proof -
  have "ex_set_execution e t' = (ex_set_execution e t)\<lparr>sys_store := (sys_store (ex_set_execution e t))\<lparr>st_clock := t'\<rparr>\<rparr>"
    by (simp add: ex_set_execution_def)
  then show ?thesis using ex_clock_step [OF below_max_set] by (metis r_into_rtranclp)
qed

lemma ex_created_set: "ex_created True = ex_set_execution (zero_execution\<lparr>mx_epoch := 1\<rparr>) 10"
proof -
  have "sys_store (ex_created True) = sys_store (ex_set_execution (zero_execution\<lparr>mx_epoch := 1\<rparr>) 10)"
    by (rule Store.equality) (simp_all add: ex_set_execution_def ex_created_store)
  then show ?thesis by (simp add: ex_set_execution_def)
qed

lemma ex_acquire_ok:
  assumes "mx_quarantineRev e = 0" "mx_epoch e \<noteq> 0" "mx_epoch e \<noteq> max_u64" "el_ExpiresAt (mx_lease e) \<le> t"
  shows "rt_AcquireExecution memory_port CtxLive (Some ''lease'') ex_acquire (sys_store (ex_set_execution e t)) =
    (sys_store (ex_set_execution (e\<lparr>mx_epoch := mx_epoch e + 1,
       mx_lease := (ex_lease 0 t)\<lparr>el_Epoch := mx_epoch e + 1\<rparr>\<rparr>) t),
     Inr ((ex_lease 0 t)\<lparr>el_Epoch := mx_epoch e + 1\<rparr>))"
proof -
  have v: "validExecutionAcquireRequest ex_acquire" "validMemoryExecutionRequest ex_acquire" "trim_space ''w'' = ''w''"
    by code_simp+
  have r: "ea_RunID ex_acquire = ex_id" "ea_OwnerID ex_acquire = ''w''" "ea_LeaseDuration ex_acquire = 1000000"
    "run_Status (sn_Run ex_cur) = RunStatusRunning" by (simp_all add: ex_acquire_def ex_cur_def)
  show ?thesis using assms
    by (simp add: rt_AcquireExecution_def AcquireExecution_def v r Let_def currentExecutionTime_def ex_lease_def)
       (simp add: ex_set_execution_def)
qed

lemma ex_acquire_steps:
  assumes "mx_quarantineRev e = 0" "mx_epoch e \<noteq> 0" "mx_epoch e \<noteq> max_u64" "el_ExpiresAt (mx_lease e) \<le> t"
  shows "ksteps (ex_set_execution e t) (ex_set_execution (e\<lparr>mx_epoch := mx_epoch e + 1,
       mx_lease := (ex_lease 0 t)\<lparr>el_Epoch := mx_epoch e + 1\<rparr>\<rparr>) t)"
proof -
  have "kstep (ex_set_execution e t) ((ex_set_execution e t)\<lparr>sys_store := sys_store (ex_set_execution (e\<lparr>mx_epoch := mx_epoch e + 1,
       mx_lease := (ex_lease 0 t)\<lparr>el_Epoch := mx_epoch e + 1\<rparr>\<rparr>) t)\<rparr>)"
    by (rule kstep.K_acquire [OF ex_acquire_ok [OF assms]])
  then show ?thesis using below_max_set by (simp add: kstep'_def ex_set_execution_def r_into_rtranclp)
qed

text \<open>The run is leased at clock reading 10 with epoch 2, the lease expires, and the run is
  leased again with epoch 3.\<close>

definition ex_leased :: "nat \<Rightarrow> time \<Rightarrow> Sys" where
  "ex_leased n t = ex_set_execution (zero_execution\<lparr>mx_epoch := of_nat n, mx_lease := ex_lease n t\<rparr>) t"

lemma ex_lease_epoch: "(ex_lease 0 t)\<lparr>el_Epoch := of_nat n\<rparr> = ex_lease n t"
  by (simp add: ex_lease_def)

lemma ex_leased_first: "ksteps (ex_created True) (ex_leased 2 10)"
  using ex_acquire_steps [of "zero_execution\<lparr>mx_epoch := 1\<rparr>" 10] ex_lease_epoch [of 2 10]
  by (simp add: ex_created_set ex_leased_def zero_lease_def)

lemma ex_leased_again: "ksteps (ex_leased 2 10) (ex_leased 3 2000000)"
proof -
  have "ksteps (ex_leased 2 10) (ex_set_execution (zero_execution\<lparr>mx_epoch := 2, mx_lease := ex_lease 2 10\<rparr>) 2000000)"
    using ex_set_clock by (simp add: ex_leased_def)
  moreover have "ksteps \<dots> (ex_leased 3 2000000)"
    using ex_acquire_steps [of "zero_execution\<lparr>mx_epoch := 2, mx_lease := ex_lease 2 10\<rparr>" 2000000]
      ex_lease_epoch [of 3 2000000]
    by (simp add: ex_leased_def ex_lease_def)
  ultimately show ?thesis by (rule rtranclp_trans)
qed

lemma reach_leased: "reach (ex_leased 2 10)" "reach (ex_leased 3 2000000)"
  using reach_steps [OF reach_created ex_leased_first] reach_steps ex_leased_again by blast+

end
