(* ===== verification/Kernel_Safety.thy ===== *)
theory Kernel_Safety
  imports Kernel_Examples "HOL-Library.Sublist"
begin

text \<open>
  Properties of the kernel over every interleaving of its callers: runs only move along valid
  transitions and never leave a terminal state, journals are append-only, concurrent writers of
  one revision cannot both commit, superseded leases stay dead, quarantined runs stay frozen, and
  trusted controls do what their guard promises.
\<close>

subsection \<open>Histories\<close>

text \<open>How a later store relates to an earlier one, for one run.\<close>

definition run_follows :: "Store \<Rightarrow> Store \<Rightarrow> string \<Rightarrow> Snapshot \<Rightarrow> bool" where
  "run_follows s s' r cur \<longleftrightarrow> (\<exists>next. st_records s' r = Some next \<and>
     run_identity (sn_Run next) = run_identity (sn_Run cur) \<and>
     validTransition\<^sup>*\<^sup>* (run_Status (sn_Run cur)) (run_Status (sn_Run next)) \<and>
     prefix (st_events s r) (st_events s' r) \<and>
     (next = cur \<and> st_events s' r = st_events s r \<or> run_Revision (sn_Run cur) < run_Revision (sn_Run next)))"

lemma run_follows_step:
  assumes "kstep' \<sigma> \<tau>" and "sys_inv \<sigma>" and "st_records (sys_store \<sigma>) r = Some cur"
  shows "run_follows (sys_store \<sigma>) (sys_store \<tau>) r cur"
proof -
  have step: "kstep \<sigma> \<tau>" and max: "run_Revision (sn_Run cur) \<noteq> max_u64"
    using assms(1,3) by (auto simp: kstep'_def revisions_below_max_def)
  from kstep_runs [OF step assms(2), of r] consider
      "run_kept (sys_store \<sigma>) (sys_store \<tau>) r" | "run_advanced (sys_store \<sigma>) (sys_store \<tau>) r"
    using assms(3) by (auto simp: run_created_def)
  then show ?thesis
  proof cases
    case 1
    then show ?thesis using assms(3) by (simp add: run_follows_def run_kept_def)
  next
    case 2
    then obtain nx ds t where nx: "st_records (sys_store \<tau>) r = Some nx" "snap_step cur nx"
      "st_events (sys_store \<tau>) r = appendEvents (st_events (sys_store \<sigma>) r) ds t"
      using assms(3) by (auto simp: run_advanced_def)
    have "prefix (st_events (sys_store \<sigma>) r) (st_events (sys_store \<tau>) r)"
      using appendEvents_prefix nx(3) by (metis prefixI)
    with nx snap_step_less [OF nx(2) max] show ?thesis
      by (auto simp: run_follows_def snap_step_def)
  qed
qed

lemma run_follows_steps:
  assumes "ksteps \<sigma> \<tau>" and "sys_inv \<sigma>" and "st_records (sys_store \<sigma>) r = Some cur"
  shows "run_follows (sys_store \<sigma>) (sys_store \<tau>) r cur"
  using assms(1)
proof (induction rule: rtranclp_induct)
  case base
  then show ?case using assms(3) by (simp add: run_follows_def)
next
  case (step \<tau> \<upsilon>)
  from step.IH obtain mid where mid: "st_records (sys_store \<tau>) r = Some mid"
    by (auto simp: run_follows_def)
  have "run_follows (sys_store \<tau>) (sys_store \<upsilon>) r mid"
    using run_follows_step [OF step.hyps(2) sys_inv_steps [OF step.hyps(1) assms(2)] mid] .
  with step.IH mid show ?case
    by (auto simp: run_follows_def intro: rtranclp_trans prefix_order.trans order_less_trans)
qed

lemma terminal_reach: "validTransition\<^sup>*\<^sup>* a b \<Longrightarrow> terminalStatus a \<Longrightarrow> b = a"
  by (induction rule: rtranclp_induct) (auto dest: terminal_no_transition)

text \<open>A run that has the same status after a history that started in a terminal status has not
  been written at all.\<close>

lemma terminal_step:
  assumes "kstep' \<sigma> \<tau>" and "sys_inv \<sigma>" and "st_records (sys_store \<sigma>) r = Some cur"
    and "terminalStatus (run_Status (sn_Run cur))"
  shows "run_kept (sys_store \<sigma>) (sys_store \<tau>) r"
proof -
  have "kstep \<sigma> \<tau>" using assms(1) by (simp add: kstep'_def)
  from kstep_runs [OF this assms(2), of r] assms(3,4) show ?thesis
    by (auto simp: run_created_def run_advanced_def snap_step_def)
qed

lemma terminal_steps:
  assumes "ksteps \<sigma> \<tau>" and "sys_inv \<sigma>" and "st_records (sys_store \<sigma>) r = Some cur"
    and "terminalStatus (run_Status (sn_Run cur))"
  shows "run_kept (sys_store \<sigma>) (sys_store \<tau>) r"
  using assms(1)
proof (induction rule: rtranclp_induct)
  case (step \<tau> \<upsilon>)
  with assms(3) have "st_records (sys_store \<tau>) r = Some cur" by (simp add: run_kept_def)
  from terminal_step [OF step.hyps(2) sys_inv_steps [OF step.hyps(1) assms(2)] this assms(4)] step.IH
  show ?case by (simp add: run_kept_def)
qed simp

subsection \<open>Epochs\<close>

text \<open>The epoch of a run never decreases, an execution-required run stays so.\<close>

lemma revoke_epoch:
  "mx_epoch (st_execution s r) \<noteq> max_u64 \<Longrightarrow>
   mx_epoch (st_execution s q) \<le> mx_epoch (st_execution (revoke r s) q)"
  by (cases "q = r") (auto simp: revoke_def less_Suc_u64 order_less_imp_le)

lemma commit_execution:
  "apply_commit memory_port cx b r e m s = (s', res) \<Longrightarrow> st_execution s' = st_execution s"
  by (cases res; cases b)
     (auto simp: apply_commit_def Apply_ok dest: Apply_err ApplyExecution_err ApplyExecution_ok)

lemma control_commit_ok:
  "control_commit memory_port cx r e g m s = (s', Inr (sn, rv)) \<Longrightarrow> ApplyControl cx r e g m s = (s', Inr (sn, rv))"
  by (auto simp: control_commit_def split: prod.splits sum.splits)

lemma control_commit_err: "control_commit memory_port cx r e g m s = (s', Inl err) \<Longrightarrow> s' = s"
  by (auto simp: control_commit_def split: prod.splits sum.splits dest: ApplyControl_err)

lemma control_epoch:
  assumes "control_commit memory_port cx r e g m s = (s', res)"
  shows "mx_epoch (st_execution s q) \<le> mx_epoch (st_execution s' q)"
proof (cases res)
  case (Inl err)
  then show ?thesis using control_commit_err [of cx r e g m s s' err] assms by simp
next
  case (Inr v)
  then obtain sn rv where "ApplyControl cx r e g m s = (s', Inr (sn, rv))"
    using control_commit_ok assms by (cases v) simp
  from ApplyControl_ok [OF this] show ?thesis using revoke_epoch by auto
qed

lemma create_epoch:
  assumes "rt_Create memory_port now newID req s = (s', res)" and "id_source_ok newID" and "exec_wf s q"
  shows "mx_epoch (st_execution s q) \<le> mx_epoch (st_execution s' q)"
  using assms(1,2)
proof (rule rt_Create_cases)
  fix rc es
  assume "Create rc es s = (s', res)"
  from Create_cases [OF this] assms(3) show ?thesis
    by (cases "q = run_ID (rec_Run rc)") (auto simp: exec_wf_def Let_def split: if_splits)
qed simp

lemma lease_epoch:
  "rt_AcquireExecution memory_port cx fresh acq s = (s', lres) \<Longrightarrow>
     mx_epoch (st_execution s q) \<le> mx_epoch (st_execution s' q)"
  "rt_RenewExecution memory_port cx ren s = (s', lres) \<Longrightarrow> mx_epoch (st_execution s' q) = mx_epoch (st_execution s q)"
  "rt_ReleaseExecution memory_port cx l s = (s', ores) \<Longrightarrow> mx_epoch (st_execution s' q) = mx_epoch (st_execution s q)"
  "rt_QuarantineExecution memory_port cx b v s = (s', ores) \<Longrightarrow>
     mx_epoch (st_execution s q) \<le> mx_epoch (st_execution s' q)"
  "rt_RepairExecutionQuarantine memory_port cx b v s = (s', ores) \<Longrightarrow>
     mx_epoch (st_execution s' q) = mx_epoch (st_execution s q)"
  subgoal by (cases lres) (auto simp: rt_AcquireExecution_def less_Suc_u64 order_less_imp_le split: if_splits
      dest!: AcquireExecution_err AcquireExecution_ok)
  subgoal by (cases lres) (auto simp: rt_RenewExecution_def split: if_splits dest!: RenewExecution_err RenewExecution_ok)
  subgoal by (auto simp: rt_ReleaseExecution_def split: if_splits dest!: ReleaseExecution_cases)
  subgoal by (auto simp: rt_QuarantineExecution_def less_Suc_u64 order_less_imp_le split: if_splits
      dest!: QuarantineExecution_cases)
  subgoal by (auto simp: rt_RepairExecutionQuarantine_def split: if_splits dest!: RepairExecutionQuarantine_cases)
  done

lemma kstep_epoch:
  assumes "kstep \<sigma> \<tau>" and "sys_inv \<sigma>"
  shows "mx_epoch (st_execution (sys_store \<sigma>) q) \<le> mx_epoch (st_execution (sys_store \<tau>) q)"
  using assms(1)
proof cases
  case (K_create newID now req s' res)
  then show ?thesis using create_epoch [OF K_create(3,2)] assms(2) by (simp add: sys_inv_def)
next
  case (K_commit r e m b cx s' res)
  then show ?thesis using commit_execution [OF K_commit(3)] by simp
next
  case (K_control_commit r e g m cx s' res)
  then show ?thesis using control_epoch [OF K_control_commit(3)] by simp
next
  case (K_acquire cx fresh acq s' lres)
  then show ?thesis using lease_epoch(1) [OF K_acquire(2)] by simp
next
  case (K_renew cx ren s' lres)
  then show ?thesis using lease_epoch(2) [OF K_renew(2)] by simp
next
  case (K_release cx l s' ores)
  then show ?thesis using lease_epoch(3) [OF K_release(2)] by simp
next
  case (K_quarantine cx b v s' ores)
  then show ?thesis using lease_epoch(4) [OF K_quarantine(2)] by simp
next
  case (K_repair cx b v s' ores)
  then show ?thesis using lease_epoch(5) [OF K_repair(2)] by simp
next
  case (K_claim creq s' clres)
  then show ?thesis using outbox_frame(1) [OF K_claim(2)] by simp
next
  case (K_ack lreq s' ores)
  then show ?thesis using outbox_frame(2) [OF K_ack(2)] by simp
next
  case (K_retry rreq s' ores)
  then show ?thesis using outbox_frame(3) [OF K_retry(2)] by simp
qed simp_all

lemma ksteps_epoch:
  assumes "ksteps \<sigma> \<tau>" and "sys_inv \<sigma>"
  shows "mx_epoch (st_execution (sys_store \<sigma>) q) \<le> mx_epoch (st_execution (sys_store \<tau>) q)"
  using assms(1)
proof (induction rule: rtranclp_induct)
  case (step \<tau> \<upsilon>)
  have "kstep \<tau> \<upsilon>" using step.hyps(2) by (simp add: kstep'_def)
  from kstep_epoch [OF this sys_inv_steps [OF step.hyps(1) assms(2)], of q] step.IH show ?case by simp
qed simp

text \<open>A lease older than the epoch of its run is not active.\<close>

lemma stale_not_active:
  assumes "exec_wf s (el_RunID l)" and "el_Epoch l < mx_epoch (st_execution s (el_RunID l))" and "validMemoryLease l"
  shows "\<not> activeMemoryLease (st_execution s (el_RunID l)) l now"
  using assms active_not_zero by (fastforce simp: exec_wf_def Let_def activeMemoryLease_def)

lemma stale_rejected:
  assumes "exec_wf s (el_RunID l)" and "el_Epoch l < mx_epoch (st_execution s (el_RunID l))"
  shows "\<not> is_ok (snd (ApplyExecution cx l e m s)) \<and> fst (ApplyExecution cx l e m s) = s \<and>
     CheckExecution cx' (el_RunID l) (Some l) s \<noteq> None \<and>
     \<not> is_ok (snd (RenewExecution cx' \<lparr>er_Lease = l, er_LeaseDuration = d\<rparr> s))"
proof -
  have dead: "validMemoryLease l \<Longrightarrow> \<not> activeMemoryLease (st_execution s (el_RunID l)) l now" for now
    using stale_not_active [OF assms] by blast
  have "\<not> is_ok (snd (ApplyExecution cx l e m s))"
    using ApplyExecution_ok [of cx l e m s] dead by (cases "ApplyExecution cx l e m s") (auto simp: is_ok_iff)
  moreover have "fst (ApplyExecution cx l e m s) = s"
    using ApplyExecution_err [of cx l e m s] calculation
    by (cases "ApplyExecution cx l e m s"; cases "snd (ApplyExecution cx l e m s)") (auto simp: is_ok_iff)
  moreover have "CheckExecution cx' (el_RunID l) (Some l) s \<noteq> None"
    using dead by (auto simp: CheckExecution_def Let_def split: ctx.splits option.splits)
  moreover have "\<not> is_ok (snd (RenewExecution cx' \<lparr>er_Lease = l, er_LeaseDuration = d\<rparr> s))"
    using RenewExecution_ok [of cx' "\<lparr>er_Lease = l, er_LeaseDuration = d\<rparr>" s] dead
    by (cases "RenewExecution cx' \<lparr>er_Lease = l, er_LeaseDuration = d\<rparr> s") (auto simp: is_ok_iff)
  ultimately show ?thesis by blast
qed

subsection \<open>Committing prepared writes\<close>

definition pending_run :: "pending \<Rightarrow> string" where
  "pending_run p = (case p of PendingApply r e m b \<Rightarrow> trim_space r | PendingControl r e g m \<Rightarrow> trim_space r)"

definition pending_revision :: "pending \<Rightarrow> u64" where
  "pending_revision p = (case p of PendingApply r e m b \<Rightarrow> e | PendingControl r e g m \<Rightarrow> e)"

definition try_commit :: "ctx \<Rightarrow> pending \<Rightarrow> Store \<Rightarrow> Store \<times> bool" where
  "try_commit cx p s = (case p of
       PendingApply r e m b \<Rightarrow> (let (s', res) = apply_commit memory_port cx b r e m s in (s', is_ok res))
     | PendingControl r e g m \<Rightarrow> (let (s', res) = control_commit memory_port cx r e g m s in (s', is_ok res)))"

lemma try_commit_step: "p \<in> sys_pending \<sigma> \<Longrightarrow> kstep \<sigma> (\<sigma>\<lparr>sys_store := fst (try_commit cx p (sys_store \<sigma>))\<rparr>)"
  by (cases p)
     (auto simp: try_commit_def split: prod.splits intro: kstep.K_commit kstep.K_control_commit)

lemma try_commit_shape:
  assumes "try_commit cx p s = (s', True)" and "pending_ok s p"
  shows "\<exists>r k c m s1. pending_run p = trim_space r \<and> (k = r \<or> k = trim_space r) \<and> st_records s k = Some c \<and>
     run_Revision (sn_Run c) = pending_revision p \<and> pend s r (pending_revision p) m \<and> s' = commit_state k m s1 \<and>
     (s1 = s \<or> s1 = revoke k s)"
proof (cases p)
  case (PendingApply r e m b)
  have run: "pending_run p = trim_space r" "pending_revision p = e" "pend s r e m"
    "\<And>l. b = Some l \<Longrightarrow> el_RunID l = trim_space r"
    using PendingApply assms(2) by (simp_all add: pending_run_def pending_revision_def pending_ok_def)
  from PendingApply obtain sn where ok: "apply_commit memory_port cx b r e m s = (s', Inr sn)"
    using assms(1) by (auto simp: try_commit_def is_ok_iff split: prod.splits)
  show ?thesis
  proof (cases b)
    case None
    with ok obtain c where "st_records s r = Some c" "run_Revision (sn_Run c) = e" "s' = commit_state r m s"
      by (auto simp: apply_commit_def Apply_ok)
    with run show ?thesis by blast
  next
    case (Some l)
    with ok have "ApplyExecution cx l e m s = (s', Inr sn)" by (simp add: apply_commit_def)
    from ApplyExecution_ok [OF this] run(4) [OF Some] run(1-3) show ?thesis by metis
  qed
next
  case (PendingControl r e g m)
  have run: "pending_run p = trim_space r" "pending_revision p = e" "pend s r e m"
    using PendingControl assms(2) by (simp_all add: pending_run_def pending_revision_def pending_ok_def)
  from PendingControl obtain sn rv where "ApplyControl cx r e g m s = (s', Inr (sn, rv))"
    using assms(1) control_commit_ok by (auto simp: try_commit_def is_ok_iff split: prod.splits)
  from ApplyControl_ok [OF this] obtain c where "st_records s r = Some c" "run_Revision (sn_Run c) = e"
    "s' = commit_state r m (revoke r s)" by blast
  with run show ?thesis by blast
qed

lemma try_commit_ok:
  assumes "try_commit cx p s = (s', True)" and "pending_ok s p" and "\<And>q. rec_wf s q"
  shows "\<exists>cur next. st_records s (pending_run p) = Some cur \<and> run_Revision (sn_Run cur) = pending_revision p \<and>
     st_records s' (pending_run p) = Some next \<and> snap_step cur next"
proof -
  from try_commit_shape [OF assms(1,2)] obtain r k c m s1 where
    k: "k = r \<or> k = trim_space r" "st_records s k = Some c" "pending_run p = trim_space r"
    "run_Revision (sn_Run c) = pending_revision p" "pend s r (pending_revision p) m" "s' = commit_state k m s1"
    by blast
  from pend_current [OF k(5) assms(3) k(2,4,1)] have "trim_space r = k" "snap_step c (commit_snapshot k m s1)"
    by (simp_all add: snap_step_commit)
  with k show ?thesis by simp
qed

lemma try_commit_single:
  assumes inv: "sys_inv \<sigma>" and "revisions_below_max (sys_store \<sigma>)" and "p \<in> sys_pending \<sigma>"
    and "try_commit cx p (sys_store \<sigma>) = (s', True)" and "ksteps (\<sigma>\<lparr>sys_store := s'\<rparr>) \<tau>"
    and "p' \<in> sys_pending \<tau>" and "pending_run p' = pending_run p" and "pending_revision p' = pending_revision p"
  shows "\<not> snd (try_commit cx' p' (sys_store \<tau>))"
proof
  assume "snd (try_commit cx' p' (sys_store \<tau>))"
  then obtain s'' where second: "try_commit cx' p' (sys_store \<tau>) = (s'', True)"
    by (cases "try_commit cx' p' (sys_store \<tau>)") simp
  have step: "kstep' \<sigma> (\<sigma>\<lparr>sys_store := s'\<rparr>)"
    using try_commit_step [OF assms(3), of cx] assms(2,4) by (simp add: kstep'_def)
  have inv1: "sys_inv (\<sigma>\<lparr>sys_store := s'\<rparr>)" using sys_inv_step [OF step inv] .
  have inv2: "sys_inv \<tau>" using sys_inv_steps [OF assms(5) inv1] .
  have "pending_ok (sys_store \<sigma>) p" "\<And>q. rec_wf (sys_store \<sigma>) q" using inv assms(3) unfolding sys_inv_def by blast+
  from try_commit_ok [OF assms(4) this] obtain cur nx where
    nx: "st_records (sys_store \<sigma>) (pending_run p) = Some cur" "run_Revision (sn_Run cur) = pending_revision p"
        "st_records s' (pending_run p) = Some nx" "snap_step cur nx" by blast
  have "run_Revision (sn_Run cur) \<noteq> max_u64" using assms(2) nx(1) by (auto simp: revisions_below_max_def)
  then have less: "pending_revision p < run_Revision (sn_Run nx)" using snap_step_less [OF nx(4)] nx(2) by simp
  have "pending_ok (sys_store \<tau>) p'" "\<And>q. rec_wf (sys_store \<tau>) q" using inv2 assms(6) unfolding sys_inv_def by blast+
  from try_commit_ok [OF second this] assms(7,8) obtain c2 where
    c2: "st_records (sys_store \<tau>) (pending_run p) = Some c2" "run_Revision (sn_Run c2) = pending_revision p" by auto
  have "run_follows s' (sys_store \<tau>) (pending_run p) nx"
    using run_follows_steps [OF assms(5) inv1] nx(3) by simp
  then have "c2 = nx \<or> run_Revision (sn_Run nx) < run_Revision (sn_Run c2)"
    unfolding run_follows_def c2(1) by blast
  then show False using c2(2) less by (metis order_less_irrefl order_less_trans)
qed

subsection \<open>Quarantine\<close>

text \<open>A step from a quarantined running run keeps the run and its quarantine, ends the run, or is
  the repair of exactly this quarantine.\<close>

lemma quarantined_commit:
  assumes "mx_quarantineRev (st_execution s r) \<noteq> 0" and "exec_wf s r"
    and "apply_commit memory_port cx b q e m s = (s', res)" and "run_advanced s s' r"
  shows False
proof (cases res)
  case (Inl err)
  then have "s' = s" using assms(3)
    by (auto simp: apply_commit_def split: option.splits dest: Apply_err ApplyExecution_err)
  then show ?thesis using assms(4) Suc_u64_neq by (auto simp: run_advanced_def snap_step_def)
next
  case (Inr sn)
  have "mx_epoch (st_execution s r) \<noteq> 0" using assms(1,2) by (auto simp: exec_wf_def Let_def)
  moreover obtain k where "s' = commit_state k m s"
    "mx_epoch (st_execution s k) = 0 \<or> mx_quarantineRev (st_execution s k) = 0"
    using assms(3) Inr by (cases b) (auto simp: apply_commit_def Apply_ok dest!: ApplyExecution_ok)
  ultimately show ?thesis using assms(1,4) Suc_u64_neq
    by (cases "k = r") (auto simp: run_advanced_def snap_step_def)
qed

definition repairs :: "Store \<Rightarrow> Store \<Rightarrow> string \<Rightarrow> bool" where
  "repairs s s' r \<longleftrightarrow> (\<exists>cx v. RepairExecutionQuarantine cx v s = (s', None) \<and>
     v = \<lparr>eq_RunID = r, eq_Revision = mx_quarantineRev (st_execution s r),
          eq_Generation = mx_quarantineGen (st_execution s r), eq_Reason = mx_quarantineCode (st_execution s r)\<rparr>)"

definition stays_quarantined :: "Store \<Rightarrow> Store \<Rightarrow> string \<Rightarrow> bool" where
  "stays_quarantined s s' r \<longleftrightarrow> run_kept s s' r \<and> st_execution s' r = st_execution s r"

definition ends_run :: "Store \<Rightarrow> string \<Rightarrow> bool" where
  "ends_run s r \<longleftrightarrow> (\<exists>sn. st_records s r = Some sn \<and> terminalStatus (run_Status (sn_Run sn)))"

lemma quarantine_create:
  assumes "rt_Create memory_port now newID req s = (s', res)" "id_source_ok newID" "st_records s r = Some sn"
  shows "stays_quarantined s s' r"
  using assms(1,2)
proof (rule rt_Create_cases)
  fix rc es
  assume "Create rc es s = (s', res)"
  from Create_cases [OF this] assms(3) show ?thesis
    by (auto simp: stays_quarantined_def run_kept_def)
qed (simp add: stays_quarantined_def)

lemma quarantine_control:
  assumes "control_commit memory_port cx q e g m s = (s', res)"
    and "st_records s r = Some sn" "run_Status (sn_Run sn) = RunStatusRunning"
    and "mx_quarantineRev (st_execution s r) \<noteq> 0"
  shows "stays_quarantined s s' r \<or> ends_run s' r"
proof (cases res)
  case (Inl err)
  then show ?thesis using control_commit_err [of cx q e g m s s' err] assms(1)
    by (simp add: stays_quarantined_def)
next
  case (Inr v)
  then obtain sn' rv where "ApplyControl cx q e g m s = (s', Inr (sn', rv))"
    using control_commit_ok assms(1) by (cases v) simp
  note ok = ApplyControl_ok [OF this]
  show ?thesis
  proof (cases "q = r")
    case True
    with ok assms(2-4) have "ValidateControl sn g m (st_clock s) = None"
      "run_Status (rec_Run (sm_Record m)) \<noteq> RunStatusRunning" "s' = commit_state r m (revoke r s)" by auto
    with ValidateControl_running [OF _ assms(3)] show ?thesis by (simp add: ends_run_def)
  next
    case False
    with ok show ?thesis by (auto simp: stays_quarantined_def run_kept_def revoke_def)
  qed
qed

lemma quarantine_leases:
  assumes "exec_wf s r" and "mx_quarantineRev (st_execution s r) \<noteq> 0"
  shows "rt_AcquireExecution memory_port cx fresh acq s = (s', lres) \<Longrightarrow> st_execution s' r = st_execution s r"
    and "rt_RenewExecution memory_port cx ren s = (s', lres) \<Longrightarrow> st_execution s' r = st_execution s r"
    and "rt_ReleaseExecution memory_port cx l s = (s', ores) \<Longrightarrow> st_execution s' r = st_execution s r"
    and "rt_QuarantineExecution memory_port cx b v s = (s', ores) \<Longrightarrow> st_execution s' r = st_execution s r"
proof -
  have zero: "mx_lease (st_execution s r) = zero_lease" using assms by (simp add: exec_wf_def Let_def)
  then have idle: "validMemoryLease k \<Longrightarrow> \<not> activeMemoryLease (st_execution s r) k now" for k now
    using active_not_zero by blast
  show "rt_AcquireExecution memory_port cx fresh acq s = (s', lres) \<Longrightarrow> st_execution s' r = st_execution s r"
    using assms(2) by (cases lres) (auto simp: rt_AcquireExecution_def split: if_splits
      dest!: AcquireExecution_err AcquireExecution_ok)
  show "rt_RenewExecution memory_port cx ren s = (s', lres) \<Longrightarrow> st_execution s' r = st_execution s r"
    using idle by (cases lres) (auto simp: rt_RenewExecution_def split: if_splits
      dest!: RenewExecution_err RenewExecution_ok)
  show "rt_ReleaseExecution memory_port cx l s = (s', ores) \<Longrightarrow> st_execution s' r = st_execution s r"
    using idle by (auto simp: rt_ReleaseExecution_def split: if_splits dest!: ReleaseExecution_cases)
  show "rt_QuarantineExecution memory_port cx b v s = (s', ores) \<Longrightarrow> st_execution s' r = st_execution s r"
    using assms(2) by (auto simp: rt_QuarantineExecution_def split: if_splits dest!: QuarantineExecution_cases)
qed

lemma quarantine_repair:
  assumes "rt_RepairExecutionQuarantine memory_port cx b v s = (s', ores)"
  shows "st_execution s' r = st_execution s r \<or> repairs s s' r"
proof (cases "rt_RepairExecutionQuarantine memory_port cx b v s = RepairExecutionQuarantine cx v s \<and> s' \<noteq> s")
  case True
  with assms have call: "RepairExecutionQuarantine cx v s = (s', ores)" "s' \<noteq> s" by auto
  note eff = RepairExecutionQuarantine_cases [OF call(1)]
  show ?thesis
  proof (cases "eq_RunID v = r")
    case True
    with eff call(2) have "v = \<lparr>eq_RunID = r, eq_Revision = mx_quarantineRev (st_execution s r),
          eq_Generation = mx_quarantineGen (st_execution s r), eq_Reason = mx_quarantineCode (st_execution s r)\<rparr>"
      "ores = None" by auto
    with call(1) show ?thesis unfolding repairs_def by blast
  qed (use eff call(2) in auto)
next
  case False
  with assms show ?thesis by (auto simp: rt_RepairExecutionQuarantine_def split: if_splits)
qed

lemma quarantine_step:
  assumes "kstep \<sigma> \<tau>" and inv: "sys_inv \<sigma>" and q: "mx_quarantineRev (st_execution (sys_store \<sigma>) r) \<noteq> 0"
    and sn: "st_records (sys_store \<sigma>) r = Some sn" "run_Status (sn_Run sn) = RunStatusRunning"
  shows "stays_quarantined (sys_store \<sigma>) (sys_store \<tau>) r \<or> ends_run (sys_store \<tau>) r \<or>
         repairs (sys_store \<sigma>) (sys_store \<tau>) r"
proof -
  have wf: "exec_wf (sys_store \<sigma>) r" using inv by (simp add: sys_inv_def)
  from assms(1) show ?thesis
  proof cases
    case (K_create newID now req s' res)
    then show ?thesis using quarantine_create [OF K_create(3,2) sn(1)] by simp
  next
    case (K_commit p e m b cx s' res)
    have "run_kept (sys_store \<sigma>) (sys_store \<tau>) r"
      using kstep_runs [OF assms(1) inv, of r] quarantined_commit [OF q wf K_commit(3)] K_commit(1) sn(1)
      by (auto simp: run_created_def)
    then show ?thesis using commit_execution [OF K_commit(3)] K_commit(1) by (simp add: stays_quarantined_def)
  next
    case (K_control_commit p e g m cx s' res)
    then show ?thesis using quarantine_control [OF K_control_commit(3) sn q] by auto
  next
    case (K_acquire cx fresh acq s' lres)
    then show ?thesis using lease_frame(1) [OF K_acquire(2)] quarantine_leases(1) [OF wf q K_acquire(2)]
      by (simp add: stays_quarantined_def run_kept_def)
  next
    case (K_renew cx ren s' lres)
    then show ?thesis using lease_frame(2) [OF K_renew(2)] quarantine_leases(2) [OF wf q K_renew(2)]
      by (simp add: stays_quarantined_def run_kept_def)
  next
    case (K_release cx l s' ores)
    then show ?thesis using lease_frame(3) [OF K_release(2)] quarantine_leases(3) [OF wf q K_release(2)]
      by (simp add: stays_quarantined_def run_kept_def)
  next
    case (K_quarantine cx b v s' ores)
    then show ?thesis using lease_frame(4) [OF K_quarantine(2)] quarantine_leases(4) [OF wf q K_quarantine(2)]
      by (simp add: stays_quarantined_def run_kept_def)
  next
    case (K_repair cx b v s' ores)
    then show ?thesis using lease_frame(5) [OF K_repair(2)] quarantine_repair [OF K_repair(2), of r]
      by (auto simp: stays_quarantined_def run_kept_def)
  next
    case (K_claim creq s' clres)
    then show ?thesis using outbox_frame(1) [OF K_claim(2)] by (simp add: stays_quarantined_def run_kept_def)
  next
    case (K_ack lreq s' ores)
    then show ?thesis using outbox_frame(2) [OF K_ack(2)] by (simp add: stays_quarantined_def run_kept_def)
  next
    case (K_retry rreq s' ores)
    then show ?thesis using outbox_frame(3) [OF K_retry(2)] by (simp add: stays_quarantined_def run_kept_def)
  qed (simp_all add: stays_quarantined_def run_kept_def)
qed

end
