(* ===== verification/Kernel_Properties.thy ===== *)
theory Kernel_Properties
  imports Kernel_Safety
begin

text \<open>
  The properties of the kernel, each with an instance on the executions of \<open>Kernel_Examples\<close>.
\<close>

subsection \<open>Runs and journals\<close>

text \<open>C1: a terminal run is final. Whatever the interleaving of writers, controls, leases,
  quarantines and projectors that follows, its snapshot and its journal stay exactly as they are.\<close>

theorem terminal_run_is_final:
  assumes "reach \<sigma>" and "st_records (sys_store \<sigma>) r = Some sn" and "terminalStatus (run_Status (sn_Run sn))"
    and "ksteps \<sigma> \<tau>"
  shows "st_records (sys_store \<tau>) r = Some sn \<and> st_events (sys_store \<tau>) r = st_events (sys_store \<sigma>) r"
  using terminal_steps [OF assms(4) reach_inv [OF assms(1)] assms(2,3)] assms(2) by (simp add: run_kept_def)

definition ex_later :: Sys where
  "ex_later = (ex_cancelled True)\<lparr>sys_store := (sys_store (ex_cancelled True))\<lparr>st_clock := 50\<rparr>\<rparr>"

lemma ex_later_steps: "ksteps (ex_cancelled True) ex_later"
  using ex_clock_step [OF below_max_cancelled] by (simp add: ex_later_def r_into_rtranclp)

theorem terminal_run_is_final_witness:
  "st_records (sys_store ex_later) ex_id =
     Some (commit_snapshot ex_id ex_cancel (sys_store (ex_created True))) \<and>
   st_events (sys_store ex_later) ex_id = st_events (sys_store (ex_cancelled True)) ex_id"
  by (rule terminal_run_is_final [OF reach_cancelled _ _ ex_later_steps])
     (simp_all add: ex_cancelled_store)

text \<open>C4: the history of a run. From any reachable state, every later state still has the run with
  its identity (owner, kind, thread, goal, deadline, creation time), a status reached along valid
  transitions, a journal that extends the earlier one, and either the very same snapshot or a
  larger revision: a revision number names one snapshot for ever.\<close>

theorem run_history:
  assumes "reach \<sigma>" and "st_records (sys_store \<sigma>) r = Some cur" and "ksteps \<sigma> \<tau>"
  shows "\<exists>next. st_records (sys_store \<tau>) r = Some next \<and>
     run_identity (sn_Run next) = run_identity (sn_Run cur) \<and>
     validTransition\<^sup>*\<^sup>* (run_Status (sn_Run cur)) (run_Status (sn_Run next)) \<and>
     prefix (st_events (sys_store \<sigma>) r) (st_events (sys_store \<tau>) r) \<and>
     (next = cur \<and> st_events (sys_store \<tau>) r = st_events (sys_store \<sigma>) r \<or>
      run_Revision (sn_Run cur) < run_Revision (sn_Run next))"
  using run_follows_steps [OF assms(3) reach_inv [OF assms(1)] assms(2)] unfolding run_follows_def .

lemma ex_cancel_steps: "ksteps (ex_created x) (ex_cancelled x)"
  using ex_pending_step ex_cancelled_step by (meson converse_rtranclp_into_rtranclp r_into_rtranclp)

theorem run_history_witness:
  "\<exists>next. st_records (sys_store (ex_cancelled False)) ex_id = Some next \<and>
     run_identity (sn_Run next) = run_identity (sn_Run ex_cur) \<and>
     validTransition\<^sup>*\<^sup>* (run_Status (sn_Run ex_cur)) (run_Status (sn_Run next)) \<and>
     prefix (st_events (sys_store (ex_created False)) ex_id) (st_events (sys_store (ex_cancelled False)) ex_id) \<and>
     (next = ex_cur \<and> st_events (sys_store (ex_cancelled False)) ex_id = st_events (sys_store (ex_created False)) ex_id \<or>
      run_Revision (sn_Run ex_cur) < run_Revision (sn_Run next))"
  by (rule run_history [OF reach_created _ ex_cancel_steps]) (simp add: ex_created_store)

text \<open>C5: the state of every run of a reachable store is well formed. It is stored under its own
  identity; it has an end time exactly when it is terminal, a valid result exactly when it is
  completed, a valid pending checkpoint when it waits for input, valid JSON state; its journal is
  numbered 1, 2, ... without gaps and its event head is the length of the journal.\<close>

theorem reachable_run_wellformed:
  assumes "reach \<sigma>" and "st_records (sys_store \<sigma>) r = Some sn"
  shows "run_ID (sn_Run sn) = r \<and> run_Revision (sn_Run sn) \<noteq> 0 \<and>
     (terminalStatus (run_Status (sn_Run sn)) \<longleftrightarrow> run_EndedAt (sn_Run sn) \<noteq> None) \<and>
     (run_Status (sn_Run sn) = RunStatusCompleted \<longleftrightarrow> sn_Result sn \<noteq> None) \<and>
     (run_Status (sn_Run sn) = RunStatusWaitingInput \<longrightarrow>
        (\<exists>cp. sn_Checkpoint sn = Some cp \<and> cp_Status cp = CheckpointPending \<and> validCheckpoint cp)) \<and>
     validState (sn_State sn) \<and>
     (\<forall>i<length (st_events (sys_store \<sigma>) r). ev_Seq (st_events (sys_store \<sigma>) r ! i) = int i + 1) \<and>
     sn_EventHead sn = int (length (st_events (sys_store \<sigma>) r))"
proof -
  have "rec_wf (sys_store \<sigma>) r" using reach_inv [OF assms(1)] by (simp add: sys_inv_def)
  then show ?thesis using assms(2)
    by (auto simp: rec_wf_def snap_shape_def wf_journal_def split: option.splits)
qed

theorem reachable_run_wellformed_witness:
  "run_ID (sn_Run ex_cur) = ex_id \<and> run_Revision (sn_Run ex_cur) \<noteq> 0 \<and>
     (terminalStatus (run_Status (sn_Run ex_cur)) \<longleftrightarrow> run_EndedAt (sn_Run ex_cur) \<noteq> None) \<and>
     (run_Status (sn_Run ex_cur) = RunStatusCompleted \<longleftrightarrow> sn_Result ex_cur \<noteq> None) \<and>
     validState (sn_State ex_cur) \<and>
     sn_EventHead ex_cur = int (length (st_events (sys_store (ex_created True)) ex_id))"
proof -
  have "st_records (sys_store (ex_created True)) ex_id = Some ex_cur" by (simp add: ex_created_store)
  from reachable_run_wellformed [OF reach_created this] show ?thesis by blast
qed

text \<open>C3: writers of one revision exclude each other. Once one write prepared against a revision of
  a run has committed, no other write or control prepared against that revision of the run commits,
  however the two were interleaved and whatever happened in between.\<close>

theorem one_commit_per_revision:
  assumes "reach \<sigma>" and "revisions_below_max (sys_store \<sigma>)" and "p \<in> sys_pending \<sigma>"
    and "try_commit cx p (sys_store \<sigma>) = (s', True)" and "ksteps (\<sigma>\<lparr>sys_store := s'\<rparr>) \<tau>"
    and "p' \<in> sys_pending \<tau>" and "pending_run p' = pending_run p" and "pending_revision p' = pending_revision p"
  shows "\<not> snd (try_commit cx' p' (sys_store \<tau>))"
  by (rule try_commit_single [OF reach_inv [OF assms(1)] assms(2-8)])

theorem one_commit_per_revision_witness:
  "\<not> snd (try_commit CtxLive (PendingControl ex_id 1 ex_guard ex_cancel) (sys_store (ex_cancelled False)))"
proof (rule one_commit_per_revision [OF reach_pending [of False], of "PendingControl ex_id 1 ex_guard ex_cancel" CtxLive])
  show "try_commit CtxLive (PendingControl ex_id 1 ex_guard ex_cancel) (sys_store (ex_pending False)) =
      (sys_store (ex_cancelled False), True)"
    by (simp add: try_commit_def ex_pending_store ex_control_ok ex_cancelled_def)
  show "ksteps ((ex_pending False)\<lparr>sys_store := sys_store (ex_cancelled False)\<rparr>) (ex_cancelled False)"
    by (simp add: ex_cancelled_def)
qed (simp_all add: ex_pending_store below_max_created ex_pending_def ex_cancelled_def)

lemma wf_journal_page:
  assumes "wf_journal j" and "0 \<le> a" and "0 \<le> n"
  shows "take (nat n) (drop (nat a) j) = filter (\<lambda>e. a < ev_Seq e \<and> ev_Seq e \<le> a + n) j"
  using assms
proof (induction j rule: rev_induct)
  case (snoc e j)
  then have wf: "wf_journal j" and seq: "ev_Seq e = int (length j) + 1"
    by (auto simp: wf_journal_def nth_append_snoc_less dest: spec [of _ "length j"])
       (metis length_append_singleton less_Suc_eq nth_append_snoc_less)
  from snoc.IH [OF wf assms(2,3)] show ?case
    using seq assms(2,3) by (auto simp: take_Cons' nat_less_iff le_nat_iff nat_le_iff)
qed simp

text \<open>C16: the event pages of \<open>ListEvents\<close> are exact. For a valid request on an existing run the page
  holds exactly the journal entries whose sequence number is after \<open>afterSeq\<close> and at most
  \<open>afterSeq + limit\<close>, in order.\<close>

theorem ListEvents_exact:
  assumes "reach \<sigma>" and "st_records (sys_store \<sigma>) r \<noteq> None"
    and "0 \<le> afterSeq" and "0 < limit" and "limit \<le> 10000"
  shows "ListEvents r afterSeq limit (sys_store \<sigma>) =
     Inr (filter (\<lambda>e. afterSeq < ev_Seq e \<and> ev_Seq e \<le> afterSeq + limit) (st_events (sys_store \<sigma>) r))"
proof -
  have wf: "wf_journal (st_events (sys_store \<sigma>) r)" "r \<noteq> []" "trim_space r = r"
    using reach_inv [OF assms(1)] assms(2) by (auto simp: sys_inv_def rec_wf_def split: option.splits)
  have page: "take (nat n) (drop (nat afterSeq) (st_events (sys_store \<sigma>) r)) =
      filter (\<lambda>e. afterSeq < ev_Seq e \<and> ev_Seq e \<le> afterSeq + n) (st_events (sys_store \<sigma>) r)" if "0 \<le> n" for n
    by (rule wf_journal_page [OF wf(1) assms(3) that])
  have "take (nat limit) (drop (nat afterSeq) (st_events (sys_store \<sigma>) r)) =
      (if int (length (st_events (sys_store \<sigma>) r)) \<le> afterSeq then []
       else take (nat (min limit (int (length (st_events (sys_store \<sigma>) r)) - afterSeq)))
              (drop (nat afterSeq) (st_events (sys_store \<sigma>) r)))"
    by (auto simp: min_def nat_diff_distrib)
  with page [of limit] wf(2,3) assms(2-5) show ?thesis
    by (auto simp: ListEvents_def Let_def blank_def min_def split: if_splits)
qed

theorem ListEvents_exact_witness:
  "ListEvents ex_id 0 5 (sys_store (ex_created True)) =
     Inr (filter (\<lambda>e. 0 < ev_Seq e \<and> ev_Seq e \<le> 0 + 5) (st_events (sys_store (ex_created True)) ex_id))"
  by (rule ListEvents_exact [OF reach_created]) (simp_all add: ex_created_store)

subsection \<open>Fenced execution\<close>

text \<open>C2: a superseded lease is dead for ever. After a run has been leased to a worker and, at any
  later point, leased again, no fenced write, authority check or renewal with the first lease is
  accepted in any later state, and the rejected write changes nothing. No clock is assumed to be
  monotonic.\<close>

theorem superseded_lease_is_dead:
  assumes "reach \<sigma>"
    and "AcquireExecution cx1 f1 a1 (sys_store \<sigma>) = (s1, Inr l1)" and "ksteps (\<sigma>\<lparr>sys_store := s1\<rparr>) \<tau>"
    and "revisions_below_max (sys_store \<sigma>)" and "validExecutionAcquireRequest a1"
    and "AcquireExecution cx2 f2 a2 (sys_store \<tau>) = (s2, Inr l2)" and "ksteps (\<tau>\<lparr>sys_store := s2\<rparr>) \<upsilon>"
    and "revisions_below_max (sys_store \<tau>)" and "validExecutionAcquireRequest a2"
    and "el_RunID l2 = el_RunID l1"
  shows "\<not> is_ok (snd (ApplyExecution cx l1 e m (sys_store \<upsilon>))) \<and>
     fst (ApplyExecution cx l1 e m (sys_store \<upsilon>)) = sys_store \<upsilon> \<and>
     CheckExecution cx' (el_RunID l1) (Some l1) (sys_store \<upsilon>) \<noteq> None \<and>
     \<not> is_ok (snd (RenewExecution cx' \<lparr>er_Lease = l1, er_LeaseDuration = d\<rparr> (sys_store \<upsilon>)))"
proof -
  have step1: "kstep' \<sigma> (\<sigma>\<lparr>sys_store := s1\<rparr>)" and step2: "kstep' \<tau> (\<tau>\<lparr>sys_store := s2\<rparr>)"
    using assms(2,4,5,6,8,9) kstep.K_acquire [of cx1 f1 a1 \<sigma>] kstep.K_acquire [of cx2 f2 a2 \<tau>]
    by (simp_all add: kstep'_def rt_AcquireExecution_def)
  have inv1: "sys_inv (\<sigma>\<lparr>sys_store := s1\<rparr>)" using sys_inv_step [OF step1 reach_inv [OF assms(1)]] .
  have inv\<tau>: "sys_inv \<tau>" using sys_inv_steps [OF assms(3) inv1] .
  have inv2: "sys_inv (\<tau>\<lparr>sys_store := s2\<rparr>)" using sys_inv_step [OF step2 inv\<tau>] .
  let ?r = "el_RunID l1"
  have "el_Epoch l1 = mx_epoch (st_execution s1 ?r)" using AcquireExecution_ok [OF assms(2)] by auto
  also have "\<dots> \<le> mx_epoch (st_execution (sys_store \<tau>) ?r)" using ksteps_epoch [OF assms(3) inv1, of ?r] by simp
  also have "\<dots> < mx_epoch (st_execution s2 ?r)"
    using AcquireExecution_ok [OF assms(6)] assms(10) less_Suc_u64 by auto
  also have "\<dots> \<le> mx_epoch (st_execution (sys_store \<upsilon>) ?r)" using ksteps_epoch [OF assms(7) inv2, of ?r] by simp
  finally show ?thesis
    using stale_rejected [of "sys_store \<upsilon>" l1] sys_inv_steps [OF assms(7) inv2] by (simp add: sys_inv_def)
qed

lemma ex_acquire_direct:
  "AcquireExecution CtxLive (Some ''lease'') ex_acquire (sys_store (ex_created True)) =
     (sys_store (ex_leased 2 10), Inr (ex_lease 2 10))"
  "AcquireExecution CtxLive (Some ''lease'') ex_acquire
     (sys_store (ex_set_execution (zero_execution\<lparr>mx_epoch := 2, mx_lease := ex_lease 2 10\<rparr>) 2000000)) =
     (sys_store (ex_leased 3 2000000), Inr (ex_lease 3 2000000))"
proof -
  have v: "validExecutionAcquireRequest ex_acquire" by code_simp
  show "AcquireExecution CtxLive (Some ''lease'') ex_acquire (sys_store (ex_created True)) =
     (sys_store (ex_leased 2 10), Inr (ex_lease 2 10))"
    using ex_acquire_ok [of "zero_execution\<lparr>mx_epoch := 1\<rparr>" 10] ex_lease_epoch [of 2 10] v
    by (simp add: ex_created_set ex_leased_def rt_AcquireExecution_def zero_lease_def)
  show "AcquireExecution CtxLive (Some ''lease'') ex_acquire
     (sys_store (ex_set_execution (zero_execution\<lparr>mx_epoch := 2, mx_lease := ex_lease 2 10\<rparr>) 2000000)) =
     (sys_store (ex_leased 3 2000000), Inr (ex_lease 3 2000000))"
    using ex_acquire_ok [of "zero_execution\<lparr>mx_epoch := 2, mx_lease := ex_lease 2 10\<rparr>" 2000000]
      ex_lease_epoch [of 3 2000000] v
    by (simp add: ex_leased_def rt_AcquireExecution_def) (simp add: ex_lease_def)
qed

theorem superseded_lease_is_dead_witness:
  "\<not> is_ok (snd (ApplyExecution CtxLive (ex_lease 2 10) 1 ex_cancel (sys_store (ex_leased 3 2000000)))) \<and>
     fst (ApplyExecution CtxLive (ex_lease 2 10) 1 ex_cancel (sys_store (ex_leased 3 2000000))) =
       sys_store (ex_leased 3 2000000) \<and>
     CheckExecution CtxLive (el_RunID (ex_lease 2 10)) (Some (ex_lease 2 10)) (sys_store (ex_leased 3 2000000)) \<noteq> None \<and>
     \<not> is_ok (snd (RenewExecution CtxLive \<lparr>er_Lease = ex_lease 2 10, er_LeaseDuration = 1000000\<rparr>
       (sys_store (ex_leased 3 2000000))))"
proof (rule superseded_lease_is_dead [OF reach_created ex_acquire_direct(1) _ below_max_created _ ex_acquire_direct(2)])
  show "ksteps ((ex_created True)\<lparr>sys_store := sys_store (ex_leased 2 10)\<rparr>)
      (ex_set_execution (zero_execution\<lparr>mx_epoch := 2, mx_lease := ex_lease 2 10\<rparr>) 2000000)"
    using ex_set_clock [of "zero_execution\<lparr>mx_epoch := 2, mx_lease := ex_lease 2 10\<rparr>" 10 2000000]
    by (simp add: ex_leased_def ex_set_execution_def)
  show "ksteps ((ex_set_execution (zero_execution\<lparr>mx_epoch := 2, mx_lease := ex_lease 2 10\<rparr>) 2000000)
      \<lparr>sys_store := sys_store (ex_leased 3 2000000)\<rparr>) (ex_leased 3 2000000)"
    by (simp add: ex_leased_def ex_set_execution_def)
  show "validExecutionAcquireRequest ex_acquire" by code_simp
  then show "validExecutionAcquireRequest ex_acquire" .
qed (simp_all add: below_max_set ex_lease_def)

text \<open>C12: a run that requires fenced execution requires it for ever. From the moment its epoch is not
  zero, in every later state an unfenced write of the run is refused with
  \<open>ErrExecutionRequired\<close> and changes nothing.\<close>

theorem unfenced_write_refused:
  assumes "reach \<sigma>" and "mx_epoch (st_execution (sys_store \<sigma>) r) \<noteq> 0" and "ksteps \<sigma> \<tau>"
  shows "Apply r e m (sys_store \<tau>) = (sys_store \<tau>, Inl ErrExecutionRequired)"
proof -
  have "0 < mx_epoch (st_execution (sys_store \<sigma>) r)" using assms(2) by (simp add: word_gt_0)
  also have "\<dots> \<le> mx_epoch (st_execution (sys_store \<tau>) r)"
    by (rule ksteps_epoch [OF assms(3) reach_inv [OF assms(1)]])
  finally show ?thesis by (simp add: Apply_def)
qed

theorem unfenced_write_refused_witness:
  "Apply ex_id 1 ex_cancel (sys_store (ex_leased 2 10)) = (sys_store (ex_leased 2 10), Inl ErrExecutionRequired)"
  by (rule unfenced_write_refused [OF reach_created _ ex_leased_first]) (simp add: ex_created_store)

text \<open>C6: a quarantined run is frozen. One step of the system from a state in which a running run is
  quarantined leaves the run and its quarantine as they are, or ends the run, or is the repair that
  names exactly the quarantined revision, generation and reason.\<close>

theorem quarantined_run_is_frozen:
  assumes "reach \<sigma>" and "kstep \<sigma> \<tau>" and "mx_quarantineRev (st_execution (sys_store \<sigma>) r) \<noteq> 0"
    and "st_records (sys_store \<sigma>) r = Some sn" and "run_Status (sn_Run sn) = RunStatusRunning"
  shows "(st_records (sys_store \<tau>) r = Some sn \<and> st_events (sys_store \<tau>) r = st_events (sys_store \<sigma>) r \<and>
          st_execution (sys_store \<tau>) r = st_execution (sys_store \<sigma>) r) \<or>
     (\<exists>sn'. st_records (sys_store \<tau>) r = Some sn' \<and> terminalStatus (run_Status (sn_Run sn'))) \<or>
     (\<exists>cx. RepairExecutionQuarantine cx \<lparr>eq_RunID = r,
          eq_Revision = mx_quarantineRev (st_execution (sys_store \<sigma>) r),
          eq_Generation = mx_quarantineGen (st_execution (sys_store \<sigma>) r),
          eq_Reason = mx_quarantineCode (st_execution (sys_store \<sigma>) r)\<rparr> (sys_store \<sigma>) = (sys_store \<tau>, None))"
  using quarantine_step [OF assms(2) reach_inv [OF assms(1)] assms(3-5)] assms(4)
  unfolding stays_quarantined_def run_kept_def ends_run_def repairs_def by auto

definition ex_quarantine :: ExecutionQuarantine where
  "ex_quarantine = \<lparr>eq_RunID = ex_id, eq_Revision = 1, eq_Generation = 0, eq_Reason = ''bad''\<rparr>"

definition ex_quarantined :: Sys where
  "ex_quarantined = ex_set_execution \<lparr>mx_epoch = 2, mx_lease = zero_lease, mx_quarantineRev = 1,
     mx_quarantineGen = 0, mx_quarantineCode = ''bad''\<rparr> 10"

lemma ex_quarantine_ok:
  "rt_QuarantineExecution memory_port CtxLive None ex_quarantine (sys_store (ex_created True)) =
     (sys_store ex_quarantined, None)"
proof -
  have v: "validExecutionQuarantine ex_quarantine" "validMemoryQuarantine ex_quarantine" by code_simp+
  have r: "eq_RunID ex_quarantine = ex_id" "eq_Revision ex_quarantine = 1" "eq_Generation ex_quarantine = 0"
    "eq_Reason ex_quarantine = ''bad''" "run_Revision (sn_Run ex_cur) = 1" "run_Status (sn_Run ex_cur) = RunStatusRunning"
    by (simp_all add: ex_quarantine_def ex_cur_def)
  show ?thesis
    by (simp add: rt_QuarantineExecution_def QuarantineExecution_def v r ex_created_set Let_def ex_quarantined_def)
       (simp add: ex_set_execution_def)
qed

lemma reach_quarantined: "reach ex_quarantined"
proof -
  have "kstep (ex_created True) ((ex_created True)\<lparr>sys_store := sys_store ex_quarantined\<rparr>)"
    by (rule kstep.K_quarantine [OF ex_quarantine_ok])
  then have "kstep' (ex_created True) ex_quarantined"
    using below_max_created by (simp add: kstep'_def ex_quarantined_def ex_set_execution_def)
  then show ?thesis using reach_steps [OF reach_created] by blast
qed

theorem quarantined_run_is_frozen_witness:
  "(let \<sigma> = ex_quarantined; \<tau> = \<sigma>\<lparr>sys_store := (sys_store \<sigma>)\<lparr>st_clock := 77\<rparr>\<rparr> in
     (st_records (sys_store \<tau>) ex_id = Some ex_cur \<and> st_events (sys_store \<tau>) ex_id = st_events (sys_store \<sigma>) ex_id \<and>
          st_execution (sys_store \<tau>) ex_id = st_execution (sys_store \<sigma>) ex_id) \<or>
     (\<exists>sn'. st_records (sys_store \<tau>) ex_id = Some sn' \<and> terminalStatus (run_Status (sn_Run sn'))) \<or>
     (\<exists>cx. RepairExecutionQuarantine cx \<lparr>eq_RunID = ex_id,
          eq_Revision = mx_quarantineRev (st_execution (sys_store \<sigma>) ex_id),
          eq_Generation = mx_quarantineGen (st_execution (sys_store \<sigma>) ex_id),
          eq_Reason = mx_quarantineCode (st_execution (sys_store \<sigma>) ex_id)\<rparr> (sys_store \<sigma>) = (sys_store \<tau>, None)))"
  unfolding Let_def
  by (rule quarantined_run_is_frozen [OF reach_quarantined kstep.K_clock])
     (simp_all add: ex_quarantined_def ex_cur_def)

text \<open>C11: no work starts on a quarantined run. In a reachable state a lease request, a fenced write,
  an unfenced write and an authority check of a quarantined run all fail and change nothing.\<close>

theorem quarantine_blocks_execution:
  assumes "reach \<sigma>" and "mx_quarantineRev (st_execution (sys_store \<sigma>) r) \<noteq> 0"
  shows "fst (AcquireExecution cx f \<lparr>ea_RunID = r, ea_OwnerID = w, ea_LeaseDuration = d\<rparr> (sys_store \<sigma>)) = sys_store \<sigma> \<and>
     \<not> is_ok (snd (AcquireExecution cx f \<lparr>ea_RunID = r, ea_OwnerID = w, ea_LeaseDuration = d\<rparr> (sys_store \<sigma>))) \<and>
     fst (ApplyExecution cx (l\<lparr>el_RunID := r\<rparr>) e m (sys_store \<sigma>)) = sys_store \<sigma> \<and>
     \<not> is_ok (snd (ApplyExecution cx (l\<lparr>el_RunID := r\<rparr>) e m (sys_store \<sigma>))) \<and>
     Apply r e m (sys_store \<sigma>) = (sys_store \<sigma>, Inl ErrExecutionRequired) \<and>
     CheckExecution cx r b (sys_store \<sigma>) \<noteq> None"
proof -
  have "exec_wf (sys_store \<sigma>) r" using reach_inv [OF assms(1)] by (simp add: sys_inv_def)
  with assms(2) have "mx_epoch (st_execution (sys_store \<sigma>) r) \<noteq> 0" by (auto simp: exec_wf_def Let_def)
  then have "Apply r e m (sys_store \<sigma>) = (sys_store \<sigma>, Inl ErrExecutionRequired)"
    by (simp add: Apply_def word_gt_0)
  then show ?thesis using assms(2)
    by (auto simp: AcquireExecution_def ApplyExecution_def CheckExecution_def Let_def split: ctx.split option.split)
qed

theorem quarantine_blocks_execution_witness:
  "fst (AcquireExecution CtxLive (Some ''x'') \<lparr>ea_RunID = ex_id, ea_OwnerID = ''w'', ea_LeaseDuration = 1000000\<rparr>
        (sys_store ex_quarantined)) = sys_store ex_quarantined \<and>
     \<not> is_ok (snd (AcquireExecution CtxLive (Some ''x'') \<lparr>ea_RunID = ex_id, ea_OwnerID = ''w'', ea_LeaseDuration = 1000000\<rparr>
        (sys_store ex_quarantined))) \<and>
     fst (ApplyExecution CtxLive ((ex_lease 2 10)\<lparr>el_RunID := ex_id\<rparr>) 1 ex_cancel (sys_store ex_quarantined)) =
       sys_store ex_quarantined \<and>
     \<not> is_ok (snd (ApplyExecution CtxLive ((ex_lease 2 10)\<lparr>el_RunID := ex_id\<rparr>) 1 ex_cancel (sys_store ex_quarantined))) \<and>
     Apply ex_id 1 ex_cancel (sys_store ex_quarantined) = (sys_store ex_quarantined, Inl ErrExecutionRequired) \<and>
     CheckExecution CtxLive ex_id None (sys_store ex_quarantined) \<noteq> None"
  by (rule quarantine_blocks_execution [OF reach_quarantined]) (simp add: ex_quarantined_def)

subsection \<open>Trusted controls\<close>

text \<open>C7: a committed control revokes the worker it overtook. After it no lease that had been issued
  before is accepted in any later state, the control reports the revocation exactly when the run
  requires fenced execution, and the run moved by one valid transition.\<close>

theorem control_revokes_leases:
  assumes "reach \<sigma>" and "revisions_below_max (sys_store \<sigma>)" and "PendingControl r e g m \<in> sys_pending \<sigma>"
    and "control_commit memory_port cx r e g m (sys_store \<sigma>) = (s', Inr (sn, revoked))"
    and "ksteps (\<sigma>\<lparr>sys_store := s'\<rparr>) \<tau>" and "el_RunID l = r"
    and "el_Epoch l \<le> mx_epoch (st_execution (sys_store \<sigma>) r)" and "mx_epoch (st_execution (sys_store \<sigma>) r) \<noteq> 0"
  shows "revoked \<and> \<not> is_ok (snd (ApplyExecution cx' l e' m' (sys_store \<tau>))) \<and>
     fst (ApplyExecution cx' l e' m' (sys_store \<tau>)) = sys_store \<tau> \<and>
     CheckExecution cx'' r (Some l) (sys_store \<tau>) \<noteq> None"
proof -
  note ok = ApplyControl_ok [OF control_commit_ok [OF assms(4)]]
  then have s': "s' = commit_state r m (revoke r (sys_store \<sigma>))"
    and max: "mx_epoch (st_execution (sys_store \<sigma>) r) \<noteq> max_u64" by blast+
  have "kstep' \<sigma> (\<sigma>\<lparr>sys_store := s'\<rparr>)"
    using kstep.K_control_commit [OF assms(3,4)] assms(2) by (simp add: kstep'_def)
  then have inv: "sys_inv (\<sigma>\<lparr>sys_store := s'\<rparr>)" using sys_inv_step reach_inv [OF assms(1)] by blast
  have "el_Epoch l < mx_epoch (st_execution (sys_store \<sigma>) r) + 1"
    using assms(7) less_Suc_u64 [OF max] by (rule order_le_less_trans)
  also have "\<dots> = mx_epoch (st_execution s' r)" using assms(8) by (simp add: s' revoke_def word_gt_0)
  also have "\<dots> \<le> mx_epoch (st_execution (sys_store \<tau>) r)" using ksteps_epoch [OF assms(5) inv, of r] by simp
  finally have "el_Epoch l < mx_epoch (st_execution (sys_store \<tau>) (el_RunID l))" using assms(6) by simp
  moreover have "exec_wf (sys_store \<tau>) (el_RunID l)" using sys_inv_steps [OF assms(5) inv] by (simp add: sys_inv_def)
  ultimately show ?thesis using stale_rejected [of "sys_store \<tau>" l] ok assms(6,8) by (simp add: word_gt_0)
qed

theorem control_revokes_leases_witness:
  "True \<and> \<not> is_ok (snd (ApplyExecution CtxLive (ex_lease 1 10) 2 ex_cancel (sys_store (ex_cancelled True)))) \<and>
     fst (ApplyExecution CtxLive (ex_lease 1 10) 2 ex_cancel (sys_store (ex_cancelled True))) =
       sys_store (ex_cancelled True) \<and>
     CheckExecution CtxLive ex_id (Some (ex_lease 1 10)) (sys_store (ex_cancelled True)) \<noteq> None"
proof (rule control_revokes_leases [OF reach_pending])
  show "control_commit memory_port CtxLive ex_id 1 ex_guard ex_cancel (sys_store (ex_pending True)) =
      (sys_store (ex_cancelled True), Inr (commit_snapshot ex_id ex_cancel (sys_store (ex_created True)), True))"
    by (simp add: ex_pending_store ex_control_ok ex_cancelled_def)
  show "ksteps ((ex_pending True)\<lparr>sys_store := sys_store (ex_cancelled True)\<rparr>) (ex_cancelled True)"
    by (simp add: ex_cancelled_def)
qed (simp_all add: ex_pending_store below_max_created ex_pending_def ex_lease_def ex_created_store)

text \<open>C8: what an approval can do. An approval control commits only on a run that waits for input on
  exactly the pending checkpoint it names, resumes the run, keeps the checkpoint's identity, kind and
  reviewed payload, records an explicit approve or reject decision, carries a sealed proof for this
  run, revision, checkpoint and the very state written, and does so before the run's deadline.\<close>

theorem approval_is_bound:
  assumes "ApplyControl cx r e g m s = (s', Inr (sn, revoked))" and "cg_Kind g = ControlApproval"
  shows "\<exists>cur cp ncp decision h.
     st_records s r = Some cur \<and> run_Revision (sn_Run cur) = e \<and>
     run_Status (sn_Run cur) = RunStatusWaitingInput \<and>
     sn_Checkpoint cur = Some cp \<and> cp_ID cp = cg_CheckpointID g \<and> cp_Status cp = CheckpointPending \<and>
     st_records s' r = Some sn \<and> run_Status (sn_Run sn) = RunStatusRunning \<and>
     run_identity (sn_Run sn) = run_identity (sn_Run cur) \<and>
     sn_Checkpoint sn = Some ncp \<and> cp_ID ncp = cp_ID cp \<and> cp_Kind ncp = cp_Kind cp \<and>
     cp_Payload ncp = cp_Payload cp \<and> cp_Status ncp = CheckpointResolved \<and>
     unmarshal_string_field ''decision'' (cp_Response ncp) = Some decision \<and>
     (decision = ''approve'' \<or> decision = ''reject'') \<and>
     digest (sn_State sn) (Some ncp) = Some h \<and>
     cg_verified g = Some \<lparr>pf_runID = run_ID (sn_Run cur), pf_revision = e, pf_kind = ''approval'',
        pf_source = cg_CheckpointID g, pf_hash = h\<rparr> \<and>
     (\<forall>d. run_DeadlineAt (sn_Run cur) = Some d \<longrightarrow> st_clock s < d)"
proof -
  from ApplyControl_ok [OF assms(1)] obtain cur where cur: "st_records s r = Some cur"
    "run_Revision (sn_Run cur) = e" "ValidateControl cur g m (st_clock s) = None"
    "s' = commit_state r m (revoke r s)" "sn = commit_snapshot r m s" by blast
  have gated: "feature_gated (cg_Kind g)" using assms(2) by (simp add: feature_gated_def)
  have "check_approval cur g (sm_Record m) = None" using ValidateControl_kind(1) [OF cur(3) assms(2)] .
  then obtain cp ncp d where "run_Status (sn_Run cur) = RunStatusWaitingInput" "sn_Checkpoint cur = Some cp"
    "cp_ID cp = cg_CheckpointID g" "cp_Status cp = CheckpointPending"
    "run_Status (rec_Run (sm_Record m)) = RunStatusRunning" and ncp: "rec_Checkpoint (sm_Record m) = Some ncp"
    "cp_ID ncp = cp_ID cp" "cp_Kind ncp = cp_Kind cp" "cp_Status ncp = CheckpointResolved"
    "cp_Payload ncp = cp_Payload cp" "unmarshal_string_field ''decision'' (cp_Response ncp) = Some d"
    "d = ''approve'' \<or> d = ''reject''"
    unfolding check_approval_def by (auto split: if_splits option.splits)
  moreover from ValidateControl_gated [OF cur(3) gated] ncp(1) assms(2) cur(2) obtain h where
    "digest (rec_State (sm_Record m)) (Some ncp) = Some h"
    "cg_verified g = Some \<lparr>pf_runID = run_ID (sn_Run cur), pf_revision = e, pf_kind = ''approval'',
        pf_source = cg_CheckpointID g, pf_hash = h\<rparr>"
    by (auto simp: Matches_iff control_source_def control_kind_string_def)
  ultimately show ?thesis
    using cur ValidateControl_identity [OF cur(3)] ValidateControl_gated(2) [OF cur(3) gated] by auto
qed

definition ex_checkpoint :: Checkpoint where
  "ex_checkpoint = \<lparr>cp_ID = ''c1'', cp_Kind = ''approval'', cp_Status = CheckpointPending, cp_Payload = ''{}'',
     cp_Response = [], cp_CreatedAt = 5, cp_ResolvedAt = None\<rparr>"

definition ex_waiting :: Snapshot where
  "ex_waiting = ex_cur\<lparr>sn_Run := (sn_Run ex_cur)\<lparr>run_Status := RunStatusWaitingInput\<rparr>,
     sn_Checkpoint := Some ex_checkpoint\<rparr>"

definition ex_waiting_store :: Store where
  "ex_waiting_store = (NewStore 30)\<lparr>st_records := [ex_id \<mapsto> ex_waiting]\<rparr>"

definition ex_resolved :: Checkpoint where
  "ex_resolved = ex_checkpoint\<lparr>cp_Status := CheckpointResolved, cp_Response := ''{\"decision\":\"approve\"}'',
     cp_ResolvedAt := Some 40\<rparr>"

definition ex_approve :: StoreMutation where
  "ex_approve = makeStoreMutation 40 ex_waiting \<lparr>mu_Status = RunStatusRunning, mu_State = ''{}'',
     mu_Checkpoint = Some ex_resolved, mu_Result = None, mu_ErrorCode = [], mu_ErrorDetail = [], mu_Events = []\<rparr>"

definition ex_approval_guard :: "string \<Rightarrow> ControlGuard" where
  "ex_approval_guard h = (plain_guard ControlApproval)\<lparr>cg_CheckpointID := ''c1'',
     cg_verified := Some \<lparr>pf_runID = ex_id, pf_revision = 1, pf_kind = ''approval'', pf_source = ''c1'', pf_hash = h\<rparr>\<rparr>"

lemma ex_material: "\<exists>h. digest ''{}'' (Some ex_resolved) = Some h"
proof -
  have "proof_material ''{}'' (Some ex_resolved) \<noteq> None" by code_simp
  then show ?thesis by (auto simp: digest_def)
qed

lemma ex_approval_valid:
  assumes "digest ''{}'' (Some ex_resolved) = Some h"
  shows "ValidateControl ex_waiting (ex_approval_guard h) ex_approve 30 = None"
proof -
  have m: "Matches (cg_verified (ex_approval_guard h)) ex_id 1 ''approval'' ''c1'' ''{}'' (Some ex_resolved)"
    using assms by (simp add: Matches_iff ex_approval_guard_def)
  have a: "check_approval ex_waiting (ex_approval_guard h) (sm_Record ex_approve) = None"
  proof -
    have "unmarshal_string_field ''decision'' (cp_Response ex_resolved) = Some ''approve''" "\<not> blank ''c1''" by code_simp+
    then show ?thesis
      by (simp add: check_approval_def ex_approval_guard_def plain_guard_def ex_waiting_def ex_approve_def
          makeStoreMutation_def Let_def ex_resolved_def ex_checkpoint_def)
  qed
  have "validState ''{}''" by code_simp
  with m a show ?thesis
    by (simp add: ValidateControl_def Let_def feature_gated_def control_kind_string_def control_source_def
        ex_approve_def makeStoreMutation_def ex_waiting_def ex_cur_def ex_id_def ex_approval_guard_def plain_guard_def)
qed

theorem approval_is_bound_witness:
  "\<exists>h s' sn revoked. ApplyControl CtxLive ex_id 1 (ex_approval_guard h) ex_approve ex_waiting_store =
      (s', Inr (sn, revoked)) \<and>
    (\<exists>cur cp ncp decision h'.
     st_records ex_waiting_store ex_id = Some cur \<and> run_Revision (sn_Run cur) = 1 \<and>
     run_Status (sn_Run cur) = RunStatusWaitingInput \<and>
     sn_Checkpoint cur = Some cp \<and> cp_ID cp = cg_CheckpointID (ex_approval_guard h) \<and> cp_Status cp = CheckpointPending \<and>
     st_records s' ex_id = Some sn \<and> run_Status (sn_Run sn) = RunStatusRunning \<and>
     run_identity (sn_Run sn) = run_identity (sn_Run cur) \<and>
     sn_Checkpoint sn = Some ncp \<and> cp_ID ncp = cp_ID cp \<and> cp_Kind ncp = cp_Kind cp \<and>
     cp_Payload ncp = cp_Payload cp \<and> cp_Status ncp = CheckpointResolved \<and>
     unmarshal_string_field ''decision'' (cp_Response ncp) = Some decision \<and>
     (decision = ''approve'' \<or> decision = ''reject'') \<and>
     digest (sn_State sn) (Some ncp) = Some h' \<and>
     cg_verified (ex_approval_guard h) = Some \<lparr>pf_runID = run_ID (sn_Run cur), pf_revision = 1, pf_kind = ''approval'',
        pf_source = cg_CheckpointID (ex_approval_guard h), pf_hash = h'\<rparr> \<and>
     (\<forall>d. run_DeadlineAt (sn_Run cur) = Some d \<longrightarrow> st_clock ex_waiting_store < d))"
proof -
  obtain h where "digest ''{}'' (Some ex_resolved) = Some h" using ex_material by blast
  from ex_approval_valid [OF this]
  have ok: "ApplyControl CtxLive ex_id 1 (ex_approval_guard h) ex_approve ex_waiting_store =
      (commit_state ex_id ex_approve (revoke ex_id ex_waiting_store),
       Inr (commit_snapshot ex_id ex_approve ex_waiting_store, False))"
    by (simp add: ApplyControl_eq ex_waiting_store_def NewStore_def ex_waiting_def ex_cur_def ex_valid)
  have kind: "cg_Kind (ex_approval_guard h) = ControlApproval" by (simp add: ex_approval_guard_def plain_guard_def)
  show ?thesis by (rule exI [of _ h], rule exI, rule exI, rule exI, rule conjI [OF ok approval_is_bound [OF ok kind]])
qed

text \<open>C9: cancellation always works. Every run of a reachable state that is not terminal can be
  cancelled at its current revision, also while it is leased to a worker or quarantined (short of an
  exhausted epoch counter); the cancelled run keeps its feature state, ends now, and its lease is
  gone.\<close>

theorem Cancel_succeeds:
  assumes "reach \<sigma>" and "st_records (sys_store \<sigma>) r = Some cur" and "\<not> terminalStatus (run_Status (sn_Run cur))"
    and "mx_epoch (st_execution (sys_store \<sigma>) r) \<noteq> max_u64"
  shows "\<exists>s' sn. rt_Cancel memory_port CtxLive b now r (run_Revision (sn_Run cur)) reason (sys_store \<sigma>) = (s', Inr sn) \<and>
     st_records s' r = Some sn \<and> run_Status (sn_Run sn) = RunStatusCancelled \<and> sn_State sn = sn_State cur \<and>
     run_EndedAt (sn_Run sn) = Some now \<and> run_ErrorDetail (sn_Run sn) = trim_space reason \<and>
     (mx_epoch (st_execution (sys_store \<sigma>) r) \<noteq> 0 \<longrightarrow> mx_lease (st_execution s' r) = zero_lease)"
proof -
  have "rec_wf (sys_store \<sigma>) r" using reach_inv [OF assms(1)] by (simp add: sys_inv_def)
  with assms(2) have wf: "r \<noteq> []" "trim_space r = r" "run_ID (sn_Run cur) = r" "snap_shape cur"
    by (simp_all add: rec_wf_def)
  have st: "validTransition (run_Status (sn_Run cur)) RunStatusCancelled" "validState (sn_State cur)"
    "run_Revision (sn_Run cur) \<noteq> 0"
    using wf(4) assms(3) by (cases "run_Status (sn_Run cur)"; simp add: snap_shape_def)+
  let ?m = "cancel_mutation cur reason" and ?next = "makeStoreMutation now cur (cancel_mutation cur reason)"
    and ?g = "(plain_guard ControlCancel)\<lparr>cg_verified := None\<rparr>"
  have code: "trim_space ''run.cancelled'' = ''run.cancelled''" by code_simp
  have v: "validateMutation cur ?m = None"
    using assms(3) st by (simp add: validateMutation_None cancel_mutation_def validMutationCheckpoint_def validMutationResult_def)
  have c: "ValidateControl cur ?g ?next t = None" for t
    using assms(3) st wf code
    by (simp add: ValidateControl_def Let_def makeStoreMutation_def cancel_mutation_def plain_guard_def
        feature_gated_def check_cancel_def)
  have res: "\<not> hasReservedApplyEvidence (mu_Events ?m)"
    by (simp add: cancel_mutation_def notice_draft_def hasReservedApplyEvidence_def identifiedApplyEventType_def)
  have "run_Status (rec_Run (sm_Record ?next)) = RunStatusCancelled"
    by (simp add: makeStoreMutation_def cancel_mutation_def Let_def)
  then have "rt_Cancel memory_port CtxLive b now r (run_Revision (sn_Run cur)) reason (sys_store \<sigma>) =
      (commit_state r ?next (revoke r (sys_store \<sigma>)), Inr (commit_snapshot r ?next (sys_store \<sigma>)))"
    using wf st(3) v c res assms(2,4)
    by (simp add: rt_Cancel_def rt_ApplyControl_def control_prepare_def control_commit_def rt_Load_def Load_def
        Let_def ApplyControl_eq blank_def)
  then show ?thesis
    by (simp add: makeStoreMutation_def cancel_mutation_def Let_def revoke_def word_gt_0 trim_space_idem)
qed

theorem Cancel_succeeds_witness:
  "\<exists>s' sn. rt_Cancel memory_port CtxLive None 60 ex_id (run_Revision (sn_Run ex_cur)) ''stop'' (sys_store ex_quarantined) =
      (s', Inr sn) \<and>
     st_records s' ex_id = Some sn \<and> run_Status (sn_Run sn) = RunStatusCancelled \<and> sn_State sn = sn_State ex_cur \<and>
     run_EndedAt (sn_Run sn) = Some 60 \<and> run_ErrorDetail (sn_Run sn) = trim_space ''stop'' \<and>
     (mx_epoch (st_execution (sys_store ex_quarantined) ex_id) \<noteq> 0 \<longrightarrow> mx_lease (st_execution s' ex_id) = zero_lease)"
  by (rule Cancel_succeeds [OF reach_quarantined]) (simp_all add: ex_quarantined_def ex_cur_def)

text \<open>C10: deadline expiry. Before the deadline \<open>Expire\<close> reports that nothing was due and changes
  nothing; from the deadline on (by the runtime's and the store's clock) it fails every reachable
  non-terminal run with \<open>run.deadline_exceeded\<close> and keeps its feature state; a run without a deadline
  never expires.\<close>

theorem Expire_at_deadline:
  assumes "reach \<sigma>" and "st_records (sys_store \<sigma>) r = Some cur" and "\<not> terminalStatus (run_Status (sn_Run cur))"
    and "mx_epoch (st_execution (sys_store \<sigma>) r) \<noteq> max_u64"
  shows "case run_DeadlineAt (sn_Run cur) of
       None \<Rightarrow> rt_Expire memory_port cx b now r (run_Revision (sn_Run cur)) (sys_store \<sigma>) =
                 (sys_store \<sigma>, Inr (cur, False))
     | Some d \<Rightarrow>
         (now < d \<longrightarrow> rt_Expire memory_port cx b now r (run_Revision (sn_Run cur)) (sys_store \<sigma>) =
                 (sys_store \<sigma>, Inr (cur, False))) \<and>
         (d \<le> now \<and> d \<le> st_clock (sys_store \<sigma>) \<and> now \<noteq> 0 \<and> st_clock (sys_store \<sigma>) \<noteq> 0 \<longrightarrow>
            (\<exists>s' sn. rt_Expire memory_port CtxLive b now r (run_Revision (sn_Run cur)) (sys_store \<sigma>) =
                 (s', Inr (sn, True)) \<and> st_records s' r = Some sn \<and> run_Status (sn_Run sn) = RunStatusFailed \<and>
                 run_ErrorCode (sn_Run sn) = ''run.deadline_exceeded'' \<and> sn_State sn = sn_State cur))"
proof -
  have "rec_wf (sys_store \<sigma>) r" using reach_inv [OF assms(1)] by (simp add: sys_inv_def)
  with assms(2) have wf: "r \<noteq> []" "trim_space r = r" "run_ID (sn_Run cur) = r" "snap_shape cur"
    by (simp_all add: rec_wf_def)
  have st: "validTransition (run_Status (sn_Run cur)) RunStatusFailed" "validState (sn_State cur)"
    "run_Revision (sn_Run cur) \<noteq> 0"
    using wf(4) assms(3) by (cases "run_Status (sn_Run cur)"; simp add: snap_shape_def)+
  have early: "rt_Expire memory_port cx b now r (run_Revision (sn_Run cur)) (sys_store \<sigma>) = (sys_store \<sigma>, Inr (cur, False))"
    if "case run_DeadlineAt (sn_Run cur) of None \<Rightarrow> True | Some d \<Rightarrow> now < d" for cx
    using that wf assms(2) by (simp add: rt_Expire_def rt_Load_def Load_def blank_def)
  have late: "\<exists>s' sn. rt_Expire memory_port CtxLive b now r (run_Revision (sn_Run cur)) (sys_store \<sigma>) = (s', Inr (sn, True)) \<and>
      st_records s' r = Some sn \<and> run_Status (sn_Run sn) = RunStatusFailed \<and>
      run_ErrorCode (sn_Run sn) = ''run.deadline_exceeded'' \<and> sn_State sn = sn_State cur"
    if d: "run_DeadlineAt (sn_Run cur) = Some d" "d \<le> now" "d \<le> st_clock (sys_store \<sigma>)" "now \<noteq> 0" "st_clock (sys_store \<sigma>) \<noteq> 0" for d
  proof -
    let ?m = "expire_mutation cur" and ?next = "makeStoreMutation now cur (expire_mutation cur)"
      and ?g = "(plain_guard ControlDeadline)\<lparr>cg_verified := None\<rparr>"
    have code: "trim_space ''run.deadline_exceeded'' = ''run.deadline_exceeded''" by code_simp
    have v: "validateMutation cur ?m = None"
      using assms(3) st by (simp add: validateMutation_None expire_mutation_def validMutationCheckpoint_def validMutationResult_def)
    have c: "ValidateControl cur ?g ?next t = None" if "d \<le> t" "t \<noteq> 0" for t
      using assms(3) st wf code d(1) that
      by (simp add: ValidateControl_def Let_def makeStoreMutation_def expire_mutation_def plain_guard_def
          feature_gated_def check_deadline_def)
    have res: "\<not> hasReservedApplyEvidence (mu_Events ?m)"
      by (simp add: expire_mutation_def notice_draft_def hasReservedApplyEvidence_def identifiedApplyEventType_def)
    have "run_Status (rec_Run (sm_Record ?next)) = RunStatusFailed"
      by (simp add: makeStoreMutation_def expire_mutation_def Let_def)
    then have "rt_Expire memory_port CtxLive b now r (run_Revision (sn_Run cur)) (sys_store \<sigma>) =
        (commit_state r ?next (revoke r (sys_store \<sigma>)), Inr (commit_snapshot r ?next (sys_store \<sigma>), True))"
      using wf st(3) v c res assms(2,4) d
      by (simp add: rt_Expire_def rt_ApplyControl_def control_prepare_def control_commit_def rt_Load_def Load_def
          Let_def ApplyControl_eq blank_def)
    then show ?thesis by (simp add: makeStoreMutation_def expire_mutation_def Let_def code)
  qed
  show ?thesis using early late by (auto split: option.split)
qed

definition zero_x :: memoryExecutionState where
  "zero_x = zero_execution\<lparr>mx_epoch := 1\<rparr>"

lemma ex_zero_steps: "ksteps (ex_created True) (ex_set_execution zero_x 1500)"
  using ex_set_clock by (simp add: ex_created_set zero_x_def)

theorem Expire_at_deadline_witness:
  "case run_DeadlineAt (sn_Run ex_cur) of
       None \<Rightarrow> rt_Expire memory_port CtxLive None 2000 ex_id (run_Revision (sn_Run ex_cur)) (sys_store (ex_set_execution zero_x 1500)) =
                 (sys_store (ex_set_execution zero_x 1500), Inr (ex_cur, False))
     | Some d \<Rightarrow>
         (2000 < d \<longrightarrow> rt_Expire memory_port CtxLive None 2000 ex_id (run_Revision (sn_Run ex_cur)) (sys_store (ex_set_execution zero_x 1500)) =
                 (sys_store (ex_set_execution zero_x 1500), Inr (ex_cur, False))) \<and>
         (d \<le> 2000 \<and> d \<le> st_clock (sys_store (ex_set_execution zero_x 1500)) \<and> (2000 :: int) \<noteq> 0 \<and>
            st_clock (sys_store (ex_set_execution zero_x 1500)) \<noteq> 0 \<longrightarrow>
            (\<exists>s' sn. rt_Expire memory_port CtxLive None 2000 ex_id (run_Revision (sn_Run ex_cur)) (sys_store (ex_set_execution zero_x 1500)) =
                 (s', Inr (sn, True)) \<and> st_records s' ex_id = Some sn \<and> run_Status (sn_Run sn) = RunStatusFailed \<and>
                 run_ErrorCode (sn_Run sn) = ''run.deadline_exceeded'' \<and> sn_State sn = sn_State ex_cur))"
  by (rule Expire_at_deadline [OF reach_steps [OF reach_created ex_zero_steps]])
     (simp_all add: ex_cur_def zero_x_def)




end
