(* ===== verification/Outbox.thy ===== *)
theory Outbox
  imports Kernel_Safety
begin

text \<open>
  The committed-transition outbox of the in-memory store: the invariant of its index, the exact
  effect of a claim (\<open>ClaimTransitions\<close> serves the oldest claimable transitions first), and the
  delivery guarantees of claim, acknowledgement and retry.
\<close>

subsection \<open>Claims\<close>

text \<open>The identities a claim serves, as a selection from the order of commitment.\<close>

definition available :: "TransitionClaimRequest \<Rightarrow> (string \<rightharpoonup> transitionState) \<Rightarrow> string \<Rightarrow> bool" where
  "available req trs tid \<longleftrightarrow> (\<exists>ts. trs tid = Some ts \<and> claimable ts (tcr_Now req))"

definition served :: "TransitionClaimRequest \<Rightarrow> nat \<Rightarrow> string list \<Rightarrow> (string \<rightharpoonup> transitionState) \<Rightarrow> string list" where
  "served req n ids trs = take n (filter (available req trs) ids)"

definition claimed :: "TransitionClaimRequest \<Rightarrow> string set \<Rightarrow> (string \<rightharpoonup> transitionState) \<Rightarrow> string \<rightharpoonup> transitionState" where
  "claimed req S trs = (\<lambda>tid. if tid \<in> S then map_option (claim_state req tid) (trs tid) else trs tid)"

lemma served_update:
  "tid \<notin> set ids \<Longrightarrow> served req n ids (trs(tid := x)) = served req n ids trs"
  unfolding served_def by (intro arg_cong [where f = "take n"] filter_cong) (auto simp: available_def)

lemma served_subset: "set (served req n ids trs) \<subseteq> set ids"
  unfolding served_def using set_take_subset by fastforce

lemma claim_loop_served:
  assumes "distinct ids" and "tcr_Limit req = int lim" and "length claims \<le> lim"
  shows "claim_loop req ids trs claims =
     (claimed req (set (served req (lim - length claims) ids trs)) trs,
      claims @ map (\<lambda>tid. claim_of (claim_state req tid (the (trs tid)))) (served req (lim - length claims) ids trs))"
  using assms
proof (induction ids arbitrary: trs claims)
  case Nil
  then show ?case by (simp add: served_def claimed_def)
next
  case (Cons tid ids)
  show ?case
  proof (cases "lim = length claims")
    case True
    then show ?thesis using Cons.prems(2) by (simp add: served_def claimed_def)
  next
    case False
    then obtain k where k: "lim - length claims = Suc k" "lim - Suc (length claims) = k"
      using Cons.prems(3) by (metis Suc_diff_Suc le_neq_implies_less)
    show ?thesis
    proof (cases "available req trs tid")
      case False
      then have "claim_loop req (tid # ids) trs claims = claim_loop req ids trs claims"
        using \<open>lim \<noteq> length claims\<close> Cons.prems by (auto simp: available_def split: option.split)
      moreover have "served req n (tid # ids) trs = served req n ids trs" for n
        using False by (simp add: served_def)
      ultimately show ?thesis using Cons.IH [of claims trs] Cons.prems by simp
    next
      case True
      then obtain ts where ts: "trs tid = Some ts" "claimable ts (tcr_Now req)" by (auto simp: available_def)
      let ?trs = "trs(tid \<mapsto> claim_state req tid ts)" and ?claims = "claims @ [claim_of (claim_state req tid ts)]"
      have notin: "tid \<notin> set ids" using Cons.prems(1) by simp
      have first: "served req (lim - length claims) (tid # ids) trs = tid # served req k ids trs"
        using True k by (simp add: served_def)
      have rest: "served req (lim - length ?claims) ids ?trs = served req k ids trs"
        using k served_update [OF notin] by simp
      have "claim_loop req (tid # ids) trs claims = claim_loop req ids ?trs ?claims"
        using ts \<open>lim \<noteq> length claims\<close> Cons.prems by simp
      also have "\<dots> = (claimed req (set (served req (lim - length ?claims) ids ?trs)) ?trs,
          ?claims @ map (\<lambda>t. claim_of (claim_state req t (the (?trs t)))) (served req (lim - length ?claims) ids ?trs))"
        by (rule Cons.IH) (use Cons.prems k in auto)
      also have "\<dots> = (claimed req (set (served req k ids trs)) ?trs,
          ?claims @ map (\<lambda>t. claim_of (claim_state req t (the (?trs t)))) (served req k ids trs))"
        unfolding rest ..
      also have "\<dots> = (claimed req (set (tid # served req k ids trs)) trs,
          claims @ map (\<lambda>t. claim_of (claim_state req t (the (trs t)))) (tid # served req k ids trs))"
        using notin served_subset [of req k ids trs] ts(1) by (auto simp: claimed_def fun_eq_iff)
      finally show ?thesis unfolding first .
    qed
  qed
qed

subsection \<open>The index of the outbox\<close>

definition ts_wf :: "string \<Rightarrow> transitionState \<Rightarrow> bool" where
  "ts_wf tid ts \<longleftrightarrow> ct_ID (ts_transition ts) = tid \<and>
     (ts_leaseID ts = [] \<or> ts_leaseID ts = transition_lease_id (ts_workerID ts) tid (ct_Attempts (ts_transition ts)))"

definition known_transition :: "(string \<rightharpoonup> Snapshot) \<Rightarrow> string \<Rightarrow> bool" where
  "known_transition recs tid \<longleftrightarrow> (\<exists>r rev sn. tid = committedTransitionID r rev \<and>
     recs r = Some sn \<and> rev \<le> run_Revision (sn_Run sn))"

definition outbox_wf :: "Store \<Rightarrow> bool" where
  "outbox_wf s \<longleftrightarrow> distinct (st_transitionOrder s) \<and>
     (\<forall>tid\<in>set (st_transitionOrder s). known_transition (st_records s) tid) \<and>
     (\<forall>tid ts. st_transitions s tid = Some ts \<longrightarrow> tid \<in> set (st_transitionOrder s) \<and> ts_wf tid ts)"

definition outbox_same :: "Store \<Rightarrow> Store \<Rightarrow> bool" where
  "outbox_same s s' \<longleftrightarrow>
     st_transitions s' = st_transitions s \<and> st_transitionOrder s' = st_transitionOrder s"

lemma outbox_same_refl [simp]: "outbox_same s s"
  by (simp add: outbox_same_def)

lemma outbox_same_revoke [simp]: "outbox_same s (revoke r s)"
  by (simp add: outbox_same_def)

lemma committedTransitionID_inject [simp]:
  "committedTransitionID r v = committedTransitionID r' v' \<longleftrightarrow> r = r' \<and> v = v'"
  by (simp add: committedTransitionID_def append_colon_inject dec_u64_def word_unat_eq_iff)

definition revisions_grow :: "Store \<Rightarrow> Store \<Rightarrow> bool" where
  "revisions_grow s s' \<longleftrightarrow> (\<forall>r sn. st_records s r = Some sn \<longrightarrow>
     (\<exists>sn'. st_records s' r = Some sn' \<and> run_Revision (sn_Run sn) \<le> run_Revision (sn_Run sn')))"

lemma known_mono:
  assumes "known_transition (st_records s) tid" and "revisions_grow s s'"
  shows "known_transition (st_records s') tid"
proof -
  from assms(1) obtain r v sn where r: "tid = committedTransitionID r v" "st_records s r = Some sn" "v \<le> run_Revision (sn_Run sn)"
    unfolding known_transition_def by blast
  with assms(2) obtain sn' where "st_records s' r = Some sn'" "run_Revision (sn_Run sn) \<le> run_Revision (sn_Run sn')"
    unfolding revisions_grow_def by blast
  with r show ?thesis unfolding known_transition_def using order_trans by blast
qed

lemma outbox_wf_same:
  assumes "outbox_wf s" and "outbox_same s s'" and "revisions_grow s s'"
  shows "outbox_wf s'"
proof -
  have "known_transition (st_records s') tid" if "tid \<in> set (st_transitionOrder s)" for tid
    using known_mono [OF _ assms(3)] assms(1) that by (simp add: outbox_wf_def)
  then show ?thesis using assms(1,2) by (auto simp: outbox_wf_def outbox_same_def)
qed

lemma outbox_wf_append:
  assumes "outbox_wf s" and "st_records s (run_ID run) = Some sn" and "run_Revision run \<le> run_Revision (sn_Run sn)"
    and "\<forall>tid\<in>set (st_transitionOrder s). tid \<noteq> committedTransitionID (run_ID run) (run_Revision run)"
  shows "outbox_wf (appendCommittedTransition run es s)"
proof (cases "NeedsTransitionProjection (run_Status run) es")
  case True
  let ?tid = "committedTransitionID (run_ID run) (run_Revision run)"
  obtain ts where ts: "st_transitions (appendCommittedTransition run es s) = (st_transitions s)(?tid \<mapsto> ts)"
    "st_transitionOrder (appendCommittedTransition run es s) = st_transitionOrder s @ [?tid]" "ts_wf ?tid ts"
    using True by (simp add: appendCommittedTransition_def Let_def ts_wf_def)
  have "?tid \<notin> set (st_transitionOrder s)" using assms(4) by blast
  moreover have "known_transition (st_records s) ?tid" using assms(2,3) unfolding known_transition_def by blast
  ultimately show ?thesis using assms(1) unfolding outbox_wf_def ts appendCommittedTransition_frame
    by (auto simp: ts(3) split: if_splits)
next
  case False
  then show ?thesis using assms(1) by (simp add: appendCommittedTransition_def)
qed

lemma outbox_wf_commit:
  assumes wf: "outbox_wf s" and cur: "st_records s k = Some c" and step: "snap_step c (snapshotFromRecord (sm_Record m))"
    and run: "run_ID (sn_Run c) = k" and max: "run_Revision (sn_Run c) \<noteq> max_u64"
    and s1: "outbox_same s s1" "st_records s1 = st_records s" "st_events s1 = st_events s"
  shows "outbox_wf (commit_state k m s1)"
proof -
  let ?run = "rec_Run (sm_Record m)"
  define s2 where "s2 = s1\<lparr>st_records := (st_records s1)(k \<mapsto> commit_snapshot k m s1),
        st_events := (st_events s1)(k := appendEvents (st_events s1 k) (sm_Events m) (run_UpdatedAt ?run))\<rparr>"
  have s2: "st_transitionOrder s2 = st_transitionOrder s" "st_records s2 = (st_records s)(k \<mapsto> commit_snapshot k m s1)"
    "outbox_same s s2" using s1(1,2) by (simp_all add: s2_def outbox_same_def)
  have rid: "run_ID ?run = k" and rev: "run_Revision ?run = run_Revision (sn_Run c) + 1"
    using step run by (simp_all add: snap_step_def run_identity_def)
  have less: "run_Revision (sn_Run c) < run_Revision ?run" using rev less_Suc_u64 [OF max] by simp
  have "revisions_grow s s2"
    unfolding revisions_grow_def s2(2) using cur order_less_imp_le [OF less] by simp
  then have "outbox_wf s2" by (rule outbox_wf_same [OF wf s2(3)])
  moreover have "tid \<noteq> committedTransitionID (run_ID ?run) (run_Revision ?run)" if mem: "tid \<in> set (st_transitionOrder s2)" for tid
  proof -
    obtain r v sn where old: "tid = committedTransitionID r v" "st_records s r = Some sn" "v \<le> run_Revision (sn_Run sn)"
      using mem wf unfolding outbox_wf_def s2(1) known_transition_def by blast
    show ?thesis
    proof
      assume "tid = committedTransitionID (run_ID ?run) (run_Revision ?run)"
      then have "r = k" "v = run_Revision ?run" using old(1) rid by simp_all
      then have "run_Revision ?run \<le> run_Revision (sn_Run c)" using old(2,3) cur by simp
      with less show False by (metis leD)
    qed
  qed
  moreover have "st_records s2 (run_ID ?run) = Some (commit_snapshot k m s1)" using s2(2) rid by simp
  ultimately have "outbox_wf (appendCommittedTransition ?run (sm_Events m) s2)"
    using outbox_wf_append [of s2 ?run "commit_snapshot k m s1" "sm_Events m"] by (simp only: commit_snapshot_simps order_refl) blast
  then show ?thesis unfolding commit_state_def s2_def .
qed

lemma kstep_revisions:
  assumes "kstep' \<sigma> \<tau>" and "sys_inv \<sigma>"
  shows "revisions_grow (sys_store \<sigma>) (sys_store \<tau>)"
  unfolding revisions_grow_def
proof (intro allI impI)
  fix r sn
  assume "st_records (sys_store \<sigma>) r = Some sn"
  from run_follows_step [OF assms this]
  show "\<exists>sn'. st_records (sys_store \<tau>) r = Some sn' \<and> run_Revision (sn_Run sn) \<le> run_Revision (sn_Run sn')"
    by (auto simp: run_follows_def order_less_imp_le)
qed

lemma lease_outbox:
  "rt_AcquireExecution memory_port cx fresh acq s = (s', lres) \<Longrightarrow> outbox_same s s'"
  "rt_RenewExecution memory_port cx ren s = (s', lres) \<Longrightarrow> outbox_same s s'"
  "rt_ReleaseExecution memory_port cx l s = (s', ores) \<Longrightarrow> outbox_same s s'"
  "rt_QuarantineExecution memory_port cx b v s = (s', ores) \<Longrightarrow> outbox_same s s'"
  "rt_RepairExecutionQuarantine memory_port cx b v s = (s', ores) \<Longrightarrow> outbox_same s s'"
  unfolding outbox_same_def
  subgoal by (cases lres) (auto simp: rt_AcquireExecution_def split: if_splits
      dest: AcquireExecution_err AcquireExecution_ok)
  subgoal by (cases lres) (auto simp: rt_RenewExecution_def split: if_splits
      dest: RenewExecution_err RenewExecution_ok)
  subgoal by (auto simp: rt_ReleaseExecution_def split: if_splits dest: ReleaseExecution_cases)
  subgoal by (auto simp: rt_QuarantineExecution_def split: if_splits dest: QuarantineExecution_cases)
  subgoal by (auto simp: rt_RepairExecutionQuarantine_def split: if_splits dest: RepairExecutionQuarantine_cases)
  done

lemma try_commit_err: "try_commit cx p s = (s', False) \<Longrightarrow> s' = s"
proof (cases p)
  case (PendingApply r e m b)
  assume "try_commit cx p s = (s', False)"
  then obtain err where "apply_commit memory_port cx b r e m s = (s', Inl err)"
    using PendingApply by (auto simp: try_commit_def not_ok_iff split: prod.splits)
  then show ?thesis by (auto simp: apply_commit_def split: option.splits dest: Apply_err ApplyExecution_err)
next
  case (PendingControl r e g m)
  assume "try_commit cx p s = (s', False)"
  then obtain err where "control_commit memory_port cx r e g m s = (s', Inl err)"
    using PendingControl by (auto simp: try_commit_def not_ok_iff split: prod.splits)
  then show ?thesis by (rule control_commit_err)
qed

lemma try_commit_outbox:
  assumes inv: "sys_inv \<sigma>" and max: "revisions_below_max (sys_store \<sigma>)" and p: "p \<in> sys_pending \<sigma>"
    and wf: "outbox_wf (sys_store \<sigma>)" and call: "try_commit cx p (sys_store \<sigma>) = (s', ok)"
  shows "outbox_wf s'"
proof (cases ok)
  case False
  then show ?thesis using try_commit_err [of cx p "sys_store \<sigma>" s'] call wf by simp
next
  case True
  have ok: "pending_ok (sys_store \<sigma>) p" "\<And>q. rec_wf (sys_store \<sigma>) q"
    using inv p unfolding sys_inv_def by blast+
  have "try_commit cx p (sys_store \<sigma>) = (s', True)" using call True by simp
  from try_commit_shape [OF this ok(1)] obtain r k c m s1 where
    k: "k = r \<or> k = trim_space r" "st_records (sys_store \<sigma>) k = Some c"
    "run_Revision (sn_Run c) = pending_revision p" "pend (sys_store \<sigma>) r (pending_revision p) m"
    "s' = commit_state k m s1" "s1 = sys_store \<sigma> \<or> s1 = revoke k (sys_store \<sigma>)"
    by blast
  have step: "snap_step c (snapshotFromRecord (sm_Record m))" by (rule pend_current(2) [OF k(4) ok(2) k(2,3,1)])
  have "run_ID (sn_Run c) = k" using ok(2) [of k] k(2) by (simp add: rec_wf_def)
  moreover have "run_Revision (sn_Run c) \<noteq> max_u64" using max k(2) by (auto simp: revisions_below_max_def)
  moreover have "outbox_same (sys_store \<sigma>) s1" "st_records s1 = st_records (sys_store \<sigma>)"
    "st_events s1 = st_events (sys_store \<sigma>)" using k(6) by auto
  ultimately show ?thesis unfolding k(5) by (rule outbox_wf_commit [OF wf k(2) step])
qed

lemma create_outbox:
  assumes "rt_Create memory_port now newID req s = (s', res)" and "id_source_ok newID"
    and wf: "outbox_wf s" and grow: "revisions_grow s s'"
  shows "outbox_wf s'"
  using assms(1,2)
proof (rule rt_Create_cases)
  assume "s' = s"
  then show ?thesis using wf by simp
next
  fix rc es
  assume call: "Create rc es s = (s', res)" and rev: "run_Revision (rec_Run rc) = 1"
  show ?thesis
  proof (cases "st_records s (run_ID (rec_Run rc))")
    case (Some x)
    then show ?thesis using call wf by (simp add: Create_def)
  next
    case None
    define sn where "sn = (snapshotFromRecord rc)\<lparr>sn_EventHead := int (length (appendEvents [] es (run_UpdatedAt (rec_Run rc))))\<rparr>"
    define s2 where "s2 = (if rec_ExecutionRequired rc
        then s\<lparr>st_execution := (st_execution s)(run_ID (rec_Run rc) := zero_execution\<lparr>mx_epoch := 1\<rparr>)\<rparr> else s)
        \<lparr>st_records := (st_records s)(run_ID (rec_Run rc) \<mapsto> sn),
         st_events := (st_events s)(run_ID (rec_Run rc) := appendEvents [] es (run_UpdatedAt (rec_Run rc)))\<rparr>"
    have s': "s' = appendCommittedTransition (rec_Run rc) es s2"
      using call None by (simp add: Create_def Let_def sn_def s2_def split: if_splits)
    have s2: "outbox_same s s2" "st_records s2 = (st_records s)(run_ID (rec_Run rc) \<mapsto> sn)"
      by (simp_all add: s2_def outbox_same_def)
    have "outbox_wf s2"
      by (rule outbox_wf_same [OF wf s2(1)]) (use s2(2) None in \<open>simp add: revisions_grow_def\<close>)
    moreover have "tid \<noteq> committedTransitionID (run_ID (rec_Run rc)) (run_Revision (rec_Run rc))"
      if mem: "tid \<in> set (st_transitionOrder s2)" for tid
    proof -
      obtain r v x where "tid = committedTransitionID r v" "st_records s r = Some x"
        using mem wf s2(1) unfolding outbox_wf_def outbox_same_def known_transition_def by metis
      then show ?thesis using None by auto
    qed
    moreover have "st_records s2 (run_ID (rec_Run rc)) = Some sn" "sn_Run sn = rec_Run rc"
      using s2(2) by (simp_all add: sn_def)
    ultimately show ?thesis unfolding s' using outbox_wf_append [of s2 "rec_Run rc" sn es] by simp
  qed
qed

lemma ts_wf_claim: "ts_wf tid ts \<Longrightarrow> ts_wf tid (claim_state req tid ts)"
  by (simp add: ts_wf_def claim_state_def Let_def)

lemma ClaimTransitions_effect:
  assumes "ClaimTransitions req s = (s', res)" and "outbox_wf s"
  shows "res = Inl ErrInvalidInput \<and> s' = s \<or>
     res = Inr (map (\<lambda>tid. claim_of (claim_state req tid (the (st_transitions s tid))))
                  (served req (nat (tcr_Limit req)) (st_transitionOrder s) (st_transitions s))) \<and>
     s' = s\<lparr>st_transitions := claimed req (set (served req (nat (tcr_Limit req)) (st_transitionOrder s) (st_transitions s)))
              (st_transitions s)\<rparr>"
proof (cases "blank (tcr_WorkerID req) \<or> tcr_Limit req \<le> 0 \<or> tcr_LeaseDuration req \<le> 0 \<or> tcr_Now req = 0")
  case True
  then show ?thesis using assms(1) unfolding ClaimTransitions_def by simp
next
  case False
  have "distinct (st_transitionOrder s)" using assms(2) by (simp add: outbox_wf_def)
  from claim_loop_served [OF this, of req "nat (tcr_Limit req)" "[]" "st_transitions s"] False assms(1)
  show ?thesis unfolding ClaimTransitions_def by auto
qed

lemma claim_outbox:
  assumes "ClaimTransitions req s = (s', res)" and wf: "outbox_wf s"
  shows "outbox_wf s'"
proof -
  define S where "S = set (served req (nat (tcr_Limit req)) (st_transitionOrder s) (st_transitions s))"
  have "s' = s \<or> s' = s\<lparr>st_transitions := claimed req S (st_transitions s)\<rparr>"
    using ClaimTransitions_effect [OF assms] unfolding S_def by blast
  moreover have "outbox_wf (s\<lparr>st_transitions := claimed req S (st_transitions s)\<rparr>)"
    using wf unfolding outbox_wf_def by (auto simp: claimed_def ts_wf_claim split: if_splits)
  ultimately show ?thesis using wf by auto
qed

lemma compact_suffix: "\<exists>dropped. ids = dropped @ compactTransitionOrder trs ids \<and> (\<forall>tid\<in>set dropped. trs tid = None)"
proof (induction ids)
  case (Cons tid ids)
  then obtain d where "ids = d @ compactTransitionOrder trs ids" "\<forall>tid\<in>set d. trs tid = None" by blast
  then show ?case by (cases "trs tid = None") (force intro: exI [of _ "tid # d"], simp)
qed simp

lemma ack_outbox:
  assumes "AckTransition req s = (s', res)" and wf: "outbox_wf s"
  shows "outbox_wf s'"
proof (cases "s' = s")
  case False
  define trs where "trs = (st_transitions s)(tl_TransitionID req := None)"
  have s': "s' = s\<lparr>st_transitions := trs, st_transitionOrder := compactTransitionOrder trs (st_transitionOrder s)\<rparr>"
    using assms(1) False by (auto simp: AckTransition_def Let_def trs_def split: if_splits option.splits)
  obtain d where d: "st_transitionOrder s = d @ compactTransitionOrder trs (st_transitionOrder s)"
    "\<forall>tid\<in>set d. trs tid = None" using compact_suffix by blast
  define keep where "keep = compactTransitionOrder trs (st_transitionOrder s)"
  have order: "st_transitionOrder s = d @ keep" unfolding keep_def by (rule d(1))
  have "distinct keep" "set keep \<subseteq> set (st_transitionOrder s)"
    using wf order by (auto simp: outbox_wf_def)
  moreover have "tid \<in> set keep \<and> ts_wf tid ts" if t: "trs tid = Some ts" for tid ts
  proof -
    have "st_transitions s tid = Some ts" using t by (auto simp: trs_def split: if_splits)
    then have "tid \<in> set (d @ keep)" "ts_wf tid ts" using wf order by (auto simp: outbox_wf_def)
    moreover have "tid \<notin> set d" using t d(2) by auto
    ultimately show ?thesis by simp
  qed
  ultimately show ?thesis using wf unfolding outbox_wf_def s' keep_def [symmetric] by auto
qed (use wf in simp)

lemma retry_outbox:
  assumes "RetryTransition rr s = (s', res)" and wf: "outbox_wf s"
  shows "outbox_wf s'"
proof (cases "s' = s")
  case False
  then obtain ts where ts: "st_transitions s (tl_TransitionID (tr_Lease rr)) = Some ts"
    "s' = s\<lparr>st_transitions := (st_transitions s)(tl_TransitionID (tr_Lease rr) \<mapsto>
        ts\<lparr>ts_availableAt := tr_AvailableAt rr, ts_leaseID := [], ts_workerID := [], ts_leaseUntil := 0\<rparr>)\<rparr>"
    using assms(1) by (auto simp: RetryTransition_def Let_def split: if_splits option.splits)
  show ?thesis using wf ts(1) unfolding outbox_wf_def ts(2) by (auto simp: ts_wf_def)
qed (use wf in simp)

lemma outbox_wf_step:
  assumes "kstep' \<sigma> \<tau>" and inv: "sys_inv \<sigma>" and wf: "outbox_wf (sys_store \<sigma>)"
  shows "outbox_wf (sys_store \<tau>)"
proof -
  have step: "kstep \<sigma> \<tau>" and below: "revisions_below_max (sys_store \<sigma>)" using assms(1) by (simp_all add: kstep'_def)
  have same: "outbox_same (sys_store \<sigma>) (sys_store \<tau>) \<Longrightarrow> ?thesis"
    using outbox_wf_same [OF wf _ kstep_revisions [OF assms(1,2)]] by blast
  from step show ?thesis
  proof cases
    case (K_create newID now req s' res)
    have "revisions_grow (sys_store \<sigma>) s'" using kstep_revisions [OF assms(1,2)] K_create(1) by simp
    from create_outbox [OF K_create(3,2) wf this] show ?thesis unfolding K_create(1) by simp
  next
    case (K_commit r e m b cx s' res)
    have "try_commit cx (PendingApply r e m b) (sys_store \<sigma>) = (s', is_ok res)" by (simp add: try_commit_def K_commit(3))
    from try_commit_outbox [OF inv below K_commit(2) wf this] show ?thesis unfolding K_commit(1) by simp
  next
    case (K_control_commit r e g m cx s' res)
    have "try_commit cx (PendingControl r e g m) (sys_store \<sigma>) = (s', is_ok res)" by (simp add: try_commit_def K_control_commit(3))
    from try_commit_outbox [OF inv below K_control_commit(2) wf this] show ?thesis unfolding K_control_commit(1) by simp
  next
    case (K_acquire cx fresh acq s' lres)
    show ?thesis by (rule same) (unfold K_acquire(1), simp add: lease_outbox(1) [OF K_acquire(2)])
  next
    case (K_renew cx ren s' lres)
    show ?thesis by (rule same) (unfold K_renew(1), simp add: lease_outbox(2) [OF K_renew(2)])
  next
    case (K_release cx l s' ores)
    show ?thesis by (rule same) (unfold K_release(1), simp add: lease_outbox(3) [OF K_release(2)])
  next
    case (K_quarantine cx b v s' ores)
    show ?thesis by (rule same) (unfold K_quarantine(1), simp add: lease_outbox(4) [OF K_quarantine(2)])
  next
    case (K_repair cx b v s' ores)
    show ?thesis by (rule same) (unfold K_repair(1), simp add: lease_outbox(5) [OF K_repair(2)])
  next
    case (K_claim creq s' clres)
    show ?thesis unfolding K_claim(1) using claim_outbox [OF K_claim(2) wf] by simp
  next
    case (K_ack lreq s' ores)
    show ?thesis unfolding K_ack(1) using ack_outbox [OF K_ack(2) wf] by simp
  next
    case (K_retry rreq s' ores)
    show ?thesis unfolding K_retry(1) using retry_outbox [OF K_retry(2) wf] by simp
  next
    case (K_prepare b now r e m evidence proposed)
    show ?thesis by (rule same) (simp add: K_prepare(1) outbox_same_def)
  next
    case (K_control_prepare b now r e g m permit g' nx)
    show ?thesis by (rule same) (simp add: K_control_prepare(1) outbox_same_def)
  next
    case (K_clock t)
    show ?thesis by (rule same) (simp add: K_clock(1) outbox_same_def)
  qed
qed

lemma reach_outbox:
  assumes "reach \<sigma>"
  shows "outbox_wf (sys_store \<sigma>)"
proof -
  obtain t where "ksteps (init_sys t) \<sigma>" using assms unfolding reach_def by blast
  then show ?thesis
  proof (induction rule: rtranclp_induct)
    case base
    show ?case by (simp add: init_sys_def NewStore_def outbox_wf_def)
  next
    case (step \<sigma> \<tau>)
    then show ?case using outbox_wf_step sys_inv_steps [OF step.hyps(1) sys_inv_init] by blast
  qed
qed

subsection \<open>Delivery\<close>

text \<open>What of a stored transition never changes: everything but the attempt counter.\<close>

definition transition_content :: "CommittedTransition \<Rightarrow> CommittedTransition" where
  "transition_content t = t\<lparr>ct_Attempts := 0\<rparr>"

definition kept_in_outbox :: "Store \<Rightarrow> Store \<Rightarrow> string \<Rightarrow> bool" where
  "kept_in_outbox s s' tid \<longleftrightarrow> (\<forall>ts. st_transitions s tid = Some ts \<longrightarrow>
     (\<exists>ts'. st_transitions s' tid = Some ts' \<and> transition_content (ts_transition ts') = transition_content (ts_transition ts)))"

lemma kept_same: "outbox_same s s' \<Longrightarrow> kept_in_outbox s s' tid"
  by (simp add: outbox_same_def kept_in_outbox_def)

lemma kept_claim:
  assumes "ClaimTransitions req s = (s', res)" and "outbox_wf s"
  shows "kept_in_outbox s s' tid"
proof -
  define S where "S = set (served req (nat (tcr_Limit req)) (st_transitionOrder s) (st_transitions s))"
  have "s' = s \<or> s' = s\<lparr>st_transitions := claimed req S (st_transitions s)\<rparr>"
    using ClaimTransitions_effect [OF assms] unfolding S_def by blast
  then show ?thesis
    by (auto simp: kept_in_outbox_def claimed_def claim_state_def transition_content_def Let_def)
qed

lemma kept_retry: "RetryTransition rr s = (s', res) \<Longrightarrow> kept_in_outbox s s' tid"
  by (auto simp: RetryTransition_def kept_in_outbox_def Let_def split: if_splits option.splits)

lemma append_transitions:
  "st_transitions (appendCommittedTransition run es s) =
     (if NeedsTransitionProjection (run_Status run) es
      then (st_transitions s)(committedTransitionID (run_ID run) (run_Revision run) \<mapsto>
             \<lparr>ts_transition = \<lparr>ct_ID = committedTransitionID (run_ID run) (run_Revision run), ct_RunID = run_ID run,
                ct_Kind = run_Kind run, ct_Status = run_Status run, ct_Revision = run_Revision run, ct_Events = es,
                ct_CommittedAt = run_UpdatedAt run, ct_Attempts = 0\<rparr>,
              ts_availableAt = 0, ts_leaseID = [], ts_workerID = [], ts_leaseUntil = 0\<rparr>)
      else st_transitions s)"
  by (simp add: appendCommittedTransition_def Let_def)

text \<open>A commit and a creation never touch a transition that has been committed before, in the outbox or acknowledged.\<close>

lemma commit_known:
  assumes known: "known_transition (st_records s) tid" and cur: "st_records s k = Some c"
    and step: "snap_step c (snapshotFromRecord (sm_Record m))"
    and run: "run_ID (sn_Run c) = k" and max: "run_Revision (sn_Run c) \<noteq> max_u64" and s1: "outbox_same s s1"
  shows "st_transitions (commit_state k m s1) tid = st_transitions s tid"
proof -
  let ?run = "rec_Run (sm_Record m)"
  have rid: "run_ID ?run = k" and rev: "run_Revision ?run = run_Revision (sn_Run c) + 1"
    using step run by (simp_all add: snap_step_def run_identity_def)
  have less: "run_Revision (sn_Run c) < run_Revision ?run" using rev less_Suc_u64 [OF max] by simp
  from known obtain r v sn where old: "tid = committedTransitionID r v" "st_records s r = Some sn" "v \<le> run_Revision (sn_Run sn)"
    unfolding known_transition_def by blast
  have "tid \<noteq> committedTransitionID (run_ID ?run) (run_Revision ?run)"
  proof
    assume "tid = committedTransitionID (run_ID ?run) (run_Revision ?run)"
    then have "r = k" "v = run_Revision ?run" using old(1) rid by simp_all
    then have "run_Revision ?run \<le> run_Revision (sn_Run c)" using old(2,3) cur by simp
    with less show False by (metis leD)
  qed
  then show ?thesis using s1 by (simp add: commit_state_def append_transitions outbox_same_def)
qed

lemma try_commit_known:
  assumes inv: "sys_inv \<sigma>" and max: "revisions_below_max (sys_store \<sigma>)" and p: "p \<in> sys_pending \<sigma>"
    and known: "known_transition (st_records (sys_store \<sigma>)) tid" and call: "try_commit cx p (sys_store \<sigma>) = (s', ok)"
  shows "st_transitions s' tid = st_transitions (sys_store \<sigma>) tid"
proof (cases ok)
  case False
  then show ?thesis using try_commit_err [of cx p "sys_store \<sigma>" s'] call by simp
next
  case True
  have ok: "pending_ok (sys_store \<sigma>) p" "\<And>q. rec_wf (sys_store \<sigma>) q"
    using inv p unfolding sys_inv_def by blast+
  have "try_commit cx p (sys_store \<sigma>) = (s', True)" using call True by simp
  from try_commit_shape [OF this ok(1)] obtain r k c m s1 where
    k: "k = r \<or> k = trim_space r" "st_records (sys_store \<sigma>) k = Some c"
    "run_Revision (sn_Run c) = pending_revision p" "pend (sys_store \<sigma>) r (pending_revision p) m"
    "s' = commit_state k m s1" "s1 = sys_store \<sigma> \<or> s1 = revoke k (sys_store \<sigma>)"
    by blast
  have step: "snap_step c (snapshotFromRecord (sm_Record m))" by (rule pend_current(2) [OF k(4) ok(2) k(2,3,1)])
  have "run_ID (sn_Run c) = k" using ok(2) [of k] k(2) by (simp add: rec_wf_def)
  moreover have "run_Revision (sn_Run c) \<noteq> max_u64" using max k(2) by (auto simp: revisions_below_max_def)
  moreover have "outbox_same (sys_store \<sigma>) s1" using k(6) by auto
  ultimately show ?thesis unfolding k(5) by (rule commit_known [OF known k(2) step])
qed

lemma create_known:
  assumes "rt_Create memory_port now newID req s = (s', res)" and "id_source_ok newID" and known: "known_transition (st_records s) tid"
  shows "st_transitions s' tid = st_transitions s tid"
  using assms(1,2)
proof (rule rt_Create_cases)
  fix rc es
  assume call: "Create rc es s = (s', res)"
  show ?thesis
  proof (cases "st_records s (run_ID (rec_Run rc))")
    case None
    then have "tid \<noteq> committedTransitionID (run_ID (rec_Run rc)) (run_Revision (rec_Run rc))"
      using known unfolding known_transition_def by fastforce
    then show ?thesis using call None
      by (auto simp: Create_def Let_def append_transitions split: if_splits)
  qed (use call in \<open>simp add: Create_def\<close>)
qed simp

lemma kept_known:
  assumes "outbox_wf s" and "known_transition (st_records s) tid \<Longrightarrow> st_transitions s' tid = st_transitions s tid"
  shows "kept_in_outbox s s' tid"
  using assms unfolding kept_in_outbox_def outbox_wf_def by metis

definition acks :: "Store \<Rightarrow> Store \<Rightarrow> string \<Rightarrow> bool" where
  "acks s s' tid \<longleftrightarrow> (\<exists>ts. st_transitions s tid = Some ts \<and>
     AckTransition \<lparr>tl_TransitionID = tid, tl_LeaseID = ts_leaseID ts, tl_WorkerID = ts_workerID ts\<rparr> s = (s', None))"

lemma kept_ack:
  assumes "AckTransition req s = (s', res)"
  shows "kept_in_outbox s s' tid \<or> acks s s' tid"
proof (cases "s' = s \<or> tl_TransitionID req \<noteq> tid")
  case True
  then show ?thesis using assms
    by (auto simp: AckTransition_def kept_in_outbox_def Let_def split: if_splits option.splits)
next
  case False
  then obtain ts where "st_transitions s tid = Some ts" "res = None"
    "req = \<lparr>tl_TransitionID = tid, tl_LeaseID = ts_leaseID ts, tl_WorkerID = ts_workerID ts\<rparr>"
    using assms by (auto simp: AckTransition_def Let_def split: if_splits option.splits)
  then show ?thesis using assms unfolding acks_def by blast
qed

lemma outbox_delivery_step:
  assumes "kstep' \<sigma> \<tau>" and inv: "sys_inv \<sigma>" and wf: "outbox_wf (sys_store \<sigma>)"
  shows "kept_in_outbox (sys_store \<sigma>) (sys_store \<tau>) tid \<or> acks (sys_store \<sigma>) (sys_store \<tau>) tid"
proof -
  have step: "kstep \<sigma> \<tau>" and below: "revisions_below_max (sys_store \<sigma>)" using assms(1) by (simp_all add: kstep'_def)
  from step show ?thesis
  proof cases
    case (K_create newID now req s' res)
    then show ?thesis using kept_known [OF wf create_known [OF K_create(3,2)]] by simp
  next
    case (K_commit r e m b cx s' res)
    have "try_commit cx (PendingApply r e m b) (sys_store \<sigma>) = (s', is_ok res)" by (simp add: try_commit_def K_commit(3))
    from kept_known [OF wf try_commit_known [OF inv below K_commit(2) _ this]] show ?thesis using K_commit(1) by simp
  next
    case (K_control_commit r e g m cx s' res)
    have "try_commit cx (PendingControl r e g m) (sys_store \<sigma>) = (s', is_ok res)"
      by (simp add: try_commit_def K_control_commit(3))
    from kept_known [OF wf try_commit_known [OF inv below K_control_commit(2) _ this]] show ?thesis using K_control_commit(1) by simp
  next
    case (K_acquire cx fresh acq s' lres)
    then show ?thesis using lease_outbox(1) [OF K_acquire(2)] by (simp add: kept_same)
  next
    case (K_renew cx ren s' lres)
    then show ?thesis using lease_outbox(2) [OF K_renew(2)] by (simp add: kept_same)
  next
    case (K_release cx l s' ores)
    then show ?thesis using lease_outbox(3) [OF K_release(2)] by (simp add: kept_same)
  next
    case (K_quarantine cx b v s' ores)
    then show ?thesis using lease_outbox(4) [OF K_quarantine(2)] by (simp add: kept_same)
  next
    case (K_repair cx b v s' ores)
    then show ?thesis using lease_outbox(5) [OF K_repair(2)] by (simp add: kept_same)
  next
    case (K_claim creq s' clres)
    then show ?thesis using kept_claim [OF K_claim(2) wf] by simp
  next
    case (K_ack lreq s' ores)
    then show ?thesis using kept_ack [OF K_ack(2)] by simp
  next
    case (K_retry rreq s' ores)
    then show ?thesis using kept_retry [OF K_retry(2)] by simp
  qed (simp_all add: kept_in_outbox_def)
qed

subsection \<open>Attempts\<close>

lemma of_nat_u32_nonzero: "1 \<le> i \<Longrightarrow> i < 2 ^ 32 \<Longrightarrow> (of_nat i :: u32) \<noteq> 0"
  by (auto simp: word_of_nat_eq_0_iff dest: dvd_imp_le)

text \<open>A step leaves the attempt counter of a transition as it is, or advances it once, or removes the transition; a
  transition that has been removed does not come back.\<close>

lemma attempts_step:
  assumes "kstep' \<sigma> \<tau>" and inv: "sys_inv \<sigma>" and wf: "outbox_wf (sys_store \<sigma>)"
    and known: "known_transition (st_records (sys_store \<sigma>)) tid" and ts': "st_transitions (sys_store \<tau>) tid = Some ts'"
  shows "\<exists>ts. st_transitions (sys_store \<sigma>) tid = Some ts \<and>
    (ct_Attempts (ts_transition ts') = ct_Attempts (ts_transition ts) \<or> ct_Attempts (ts_transition ts') = ct_Attempts (ts_transition ts) + 1)"
proof -
  have step: "kstep \<sigma> \<tau>" and below: "revisions_below_max (sys_store \<sigma>)" using assms(1) by (simp_all add: kstep'_def)
  have same: "st_transitions (sys_store \<tau>) tid = st_transitions (sys_store \<sigma>) tid \<Longrightarrow> ?thesis" using ts' by metis
  from step show ?thesis
  proof cases
    case (K_create newID now req s' res)
    then show ?thesis using same create_known [OF K_create(3,2) known] by simp
  next
    case (K_commit r e m b cx s' res)
    have "try_commit cx (PendingApply r e m b) (sys_store \<sigma>) = (s', is_ok res)" by (simp add: try_commit_def K_commit(3))
    from try_commit_known [OF inv below K_commit(2) known this] show ?thesis using same K_commit(1) by simp
  next
    case (K_control_commit r e g m cx s' res)
    have "try_commit cx (PendingControl r e g m) (sys_store \<sigma>) = (s', is_ok res)"
      by (simp add: try_commit_def K_control_commit(3))
    from try_commit_known [OF inv below K_control_commit(2) known this] show ?thesis using same K_control_commit(1) by simp
  next
    case (K_acquire cx fresh acq s' lres)
    then show ?thesis using same lease_outbox(1) [OF K_acquire(2)] by (simp add: outbox_same_def)
  next
    case (K_renew cx ren s' lres)
    then show ?thesis using same lease_outbox(2) [OF K_renew(2)] by (simp add: outbox_same_def)
  next
    case (K_release cx l s' ores)
    then show ?thesis using same lease_outbox(3) [OF K_release(2)] by (simp add: outbox_same_def)
  next
    case (K_quarantine cx b v s' ores)
    then show ?thesis using same lease_outbox(4) [OF K_quarantine(2)] by (simp add: outbox_same_def)
  next
    case (K_repair cx b v s' ores)
    then show ?thesis using same lease_outbox(5) [OF K_repair(2)] by (simp add: outbox_same_def)
  next
    case (K_claim creq s' clres)
    then show ?thesis using ClaimTransitions_effect [OF K_claim(2) wf] ts'
      by (auto simp: claimed_def claim_state_def Let_def split: if_splits)
  next
    case (K_ack lreq s' ores)
    then show ?thesis using ts' by (auto simp: AckTransition_def Let_def split: if_splits option.splits)
  next
    case (K_retry rreq s' ores)
    then show ?thesis using ts' by (auto simp: RetryTransition_def Let_def split: if_splits option.splits)
  qed (use same in simp_all)
qed

text \<open>Of a transition with \<open>a\<close> attempts at some time, after between \<open>lo\<close> and \<open>hi\<close> further claims.\<close>

definition attempts_within :: "nat \<Rightarrow> nat \<Rightarrow> u32 \<Rightarrow> string \<Rightarrow> Sys \<Rightarrow> bool" where
  "attempts_within lo hi a tid \<sigma> \<longleftrightarrow> sys_inv \<sigma> \<and> outbox_wf (sys_store \<sigma>) \<and> known_transition (st_records (sys_store \<sigma>)) tid \<and>
     (\<forall>ts. st_transitions (sys_store \<sigma>) tid = Some ts \<longrightarrow> (\<exists>j. lo \<le> j \<and> j \<le> hi \<and> ct_Attempts (ts_transition ts) = a + of_nat j))"

lemma attempts_within_step:
  assumes "attempts_within lo hi a tid \<sigma>" and "kstep' \<sigma> \<tau>"
  shows "attempts_within lo (Suc hi) a tid \<tau>"
proof -
  have \<sigma>: "sys_inv \<sigma>" "outbox_wf (sys_store \<sigma>)" "known_transition (st_records (sys_store \<sigma>)) tid"
    using assms(1) by (simp_all add: attempts_within_def)
  have "\<exists>j. lo \<le> j \<and> j \<le> Suc hi \<and> ct_Attempts (ts_transition ts') = a + of_nat j" if ts': "st_transitions (sys_store \<tau>) tid = Some ts'" for ts'
  proof -
    obtain ts where ts: "st_transitions (sys_store \<sigma>) tid = Some ts"
      "ct_Attempts (ts_transition ts') = ct_Attempts (ts_transition ts) \<or> ct_Attempts (ts_transition ts') = ct_Attempts (ts_transition ts) + 1"
      using attempts_step [OF assms(2) \<sigma> ts'] by blast
    obtain j where j: "lo \<le> j" "j \<le> hi" "ct_Attempts (ts_transition ts) = a + of_nat j"
      using assms(1) ts(1) by (auto simp: attempts_within_def)
    from ts(2) show ?thesis
    proof
      assume "ct_Attempts (ts_transition ts') = ct_Attempts (ts_transition ts) + 1"
      then show ?thesis using j by (intro exI [of _ "Suc j"]) simp
    qed (use j in \<open>auto intro!: exI [of _ j]\<close>)
  qed
  then show ?thesis using \<sigma> sys_inv_steps [of \<sigma> \<tau>] assms(2) outbox_wf_step [OF assms(2) \<sigma>(1,2)]
      known_mono [OF \<sigma>(3) kstep_revisions [OF assms(2) \<sigma>(1)]] by (auto simp: attempts_within_def)
qed

lemma attempts_within_steps:
  "(kstep' ^^ n) \<sigma> \<tau> \<Longrightarrow> attempts_within lo hi a tid \<sigma> \<Longrightarrow> attempts_within lo (hi + n) a tid \<tau>"
proof (induction n arbitrary: \<tau>)
  case (Suc n)
  from Suc.prems(1) obtain \<rho> where \<rho>: "(kstep' ^^ n) \<sigma> \<rho>" "kstep' \<rho> \<tau>" by (rule relpowp_Suc_E)
  from attempts_within_step [OF Suc.IH [OF \<rho>(1) Suc.prems(2)] \<rho>(2)] show ?case by simp
qed simp

text \<open>What a claim hands out.\<close>

lemma claim_handed_out:
  assumes "outbox_wf s" and "ClaimTransitions req s = (s', Inr cs)" and "c \<in> set cs"
  shows "\<exists>ts. st_transitions s (ct_ID (tc_Transition c)) = Some ts \<and>
    c = claim_of (claim_state req (ct_ID (tc_Transition c)) ts) \<and>
    st_transitions s' (ct_ID (tc_Transition c)) = Some (claim_state req (ct_ID (tc_Transition c)) ts)"
proof -
  define S where "S = served req (nat (tcr_Limit req)) (st_transitionOrder s) (st_transitions s)"
  from ClaimTransitions_effect [OF assms(2,1), folded S_def]
  have cs: "cs = map (\<lambda>tid. claim_of (claim_state req tid (the (st_transitions s tid)))) S"
    and s': "s' = s\<lparr>st_transitions := claimed req (set S) (st_transitions s)\<rparr>" by auto
  from assms(3) obtain tid where tid: "tid \<in> set S" "c = claim_of (claim_state req tid (the (st_transitions s tid)))"
    unfolding cs by auto
  then obtain ts where ts: "st_transitions s tid = Some ts"
    by (auto simp: S_def served_def available_def dest!: in_set_takeD)
  then have "ct_ID (ts_transition ts) = tid" using assms(1) by (auto simp: outbox_wf_def ts_wf_def)
  then have "ct_ID (tc_Transition c) = tid" using tid(2) ts by (simp add: claim_of_def claim_state_def Let_def)
  then show ?thesis using tid ts by (simp add: s' claimed_def)
qed

lemma claim_step:
  assumes "ClaimTransitions req (sys_store \<sigma>) = (s', res)" and "revisions_below_max (sys_store \<sigma>)"
  shows "kstep' \<sigma> (\<sigma>\<lparr>sys_store := s'\<rparr>)"
  using kstep.K_claim [OF assms(1)] assms(2) by (simp add: kstep'_def)

subsection \<open>Properties\<close>

text \<open>C18: committed transitions are delivered at least once. In every reachable state a transition in
  the outbox stays there with its content through every step of the system, except the
  acknowledgement that names exactly the lease and the worker that hold it.\<close>

theorem transition_kept_until_acknowledged:
  assumes "reach \<sigma>" and "kstep' \<sigma> \<tau>" and "st_transitions (sys_store \<sigma>) tid = Some ts"
  shows "(\<exists>ts'. st_transitions (sys_store \<tau>) tid = Some ts' \<and>
        (ts_transition ts')\<lparr>ct_Attempts := 0\<rparr> = (ts_transition ts)\<lparr>ct_Attempts := 0\<rparr>) \<or>
     AckTransition \<lparr>tl_TransitionID = tid, tl_LeaseID = ts_leaseID ts, tl_WorkerID = ts_workerID ts\<rparr> (sys_store \<sigma>) =
       (sys_store \<tau>, None)"
  using outbox_delivery_step [OF assms(2) reach_inv [OF assms(1)] reach_outbox [OF assms(1)], of tid] assms(3)
  unfolding kept_in_outbox_def acks_def transition_content_def by auto

definition ex_tid :: string where
  "ex_tid = committedTransitionID ex_id 2"

definition ex_transition :: transitionState where
  "ex_transition = \<lparr>ts_transition = \<lparr>ct_ID = ex_tid, ct_RunID = ex_id, ct_Kind = ''demo'', ct_Status = RunStatusCancelled,
     ct_Revision = 2, ct_Events = [notice_draft ''run.cancelled'' ''stop''], ct_CommittedAt = 20, ct_Attempts = 0\<rparr>,
     ts_availableAt = 0, ts_leaseID = [], ts_workerID = [], ts_leaseUntil = 0\<rparr>"

lemma ex_outbox:
  "st_transitions (sys_store (ex_cancelled x)) = [ex_tid \<mapsto> ex_transition]"
  "st_transitionOrder (sys_store (ex_cancelled x)) = [ex_tid]"
proof -
  have stop: "trim_space ''stop'' = ''stop''" by code_simp
  have "st_transitions (sys_store (ex_created x)) = Map.empty" "st_transitionOrder (sys_store (ex_created x)) = []"
    using ex_valid
    by (simp_all add: ex_created_def rt_Create_def hasReservedApplyEvidence_def SupportsExecution_def Create_def
        Let_def init_sys_def NewStore_def ex_req_def appendCommittedTransition_def NeedsTransitionProjection_def
        run_created_draft_def)
  moreover have "run_ID (rec_Run (sm_Record ex_cancel)) = ex_id" "run_Kind (rec_Run (sm_Record ex_cancel)) = ''demo''"
    "run_UpdatedAt (rec_Run (sm_Record ex_cancel)) = 20"
    "sm_Events ex_cancel = [notice_draft ''run.cancelled'' ''stop'']"
    by (simp_all add: ex_cancel_def makeStoreMutation_def cancel_mutation_def Let_def ex_cur_def stop)
  ultimately show "st_transitions (sys_store (ex_cancelled x)) = [ex_tid \<mapsto> ex_transition]"
    "st_transitionOrder (sys_store (ex_cancelled x)) = [ex_tid]"
    by (simp_all add: ex_cancelled_def ex_pending_store ex_control_ok commit_state_def append_transitions
        ex_cancelled_store(2,3) ex_tid_def ex_transition_def appendCommittedTransition_def Let_def)
qed

theorem transition_kept_until_acknowledged_witness:
  "(let \<tau> = (ex_cancelled True)\<lparr>sys_store := (sys_store (ex_cancelled True))\<lparr>st_clock := 9\<rparr>\<rparr> in
     (\<exists>ts'. st_transitions (sys_store \<tau>) ex_tid = Some ts' \<and>
        (ts_transition ts')\<lparr>ct_Attempts := 0\<rparr> = (ts_transition ex_transition)\<lparr>ct_Attempts := 0\<rparr>) \<or>
     AckTransition \<lparr>tl_TransitionID = ex_tid, tl_LeaseID = ts_leaseID ex_transition, tl_WorkerID = ts_workerID ex_transition\<rparr>
       (sys_store (ex_cancelled True)) = (sys_store \<tau>, None))"
  unfolding Let_def
  by (rule transition_kept_until_acknowledged [OF reach_cancelled ex_clock_step [OF below_max_cancelled]])
     (simp add: ex_outbox)

text \<open>C19: a claim is first in, first out, bounded and exclusive. For a valid request on a reachable
  store it returns, in the order of commitment, the first \<open>limit\<close> transitions that are available and
  not under an unexpired lease, each with its attempt counter advanced, and leases exactly those to
  the worker until the requested time; every other transition is left as it was.\<close>

theorem ClaimTransitions_fifo:
  assumes "reach \<sigma>" and "\<not> blank (tcr_WorkerID req)" and "0 < tcr_Limit req" and "0 < tcr_LeaseDuration req" and "tcr_Now req \<noteq> 0"
  shows "let trs = st_transitions (sys_store \<sigma>);
            ids = take (nat (tcr_Limit req))
              (filter (\<lambda>tid. \<exists>ts. trs tid = Some ts \<and> claimable ts (tcr_Now req)) (st_transitionOrder (sys_store \<sigma>)))
        in ClaimTransitions req (sys_store \<sigma>) =
          ((sys_store \<sigma>)\<lparr>st_transitions :=
              (\<lambda>tid. if tid \<in> set ids then map_option (claim_state req tid) (trs tid) else trs tid)\<rparr>,
           Inr (map (\<lambda>tid. claim_of (claim_state req tid (the (trs tid)))) ids)) \<and>
          distinct ids"
proof -
  have wf: "outbox_wf (sys_store \<sigma>)" by (rule reach_outbox [OF assms(1)])
  obtain s' res where call: "ClaimTransitions req (sys_store \<sigma>) = (s', res)" by fastforce
  have "res \<noteq> Inl ErrInvalidInput"
    using call assms(2-5) by (auto simp: ClaimTransitions_def split: prod.splits)
  with ClaimTransitions_effect [OF call wf] call wf show ?thesis
    unfolding Let_def served_def claimed_def available_def outbox_wf_def by simp
qed

definition ex_claim :: TransitionClaimRequest where
  "ex_claim = \<lparr>tcr_WorkerID = ''w'', tcr_Limit = 3, tcr_LeaseDuration = 10, tcr_Now = 100\<rparr>"

theorem ClaimTransitions_fifo_witness:
  "let trs = st_transitions (sys_store (ex_cancelled True));
            ids = take (nat (tcr_Limit ex_claim))
              (filter (\<lambda>tid. \<exists>ts. trs tid = Some ts \<and> claimable ts (tcr_Now ex_claim))
                 (st_transitionOrder (sys_store (ex_cancelled True))))
        in ClaimTransitions ex_claim (sys_store (ex_cancelled True)) =
          ((sys_store (ex_cancelled True))\<lparr>st_transitions :=
              (\<lambda>tid. if tid \<in> set ids then map_option (claim_state ex_claim tid) (trs tid) else trs tid)\<rparr>,
           Inr (map (\<lambda>tid. claim_of (claim_state ex_claim tid (the (trs tid)))) ids)) \<and>
          distinct ids"
proof (rule ClaimTransitions_fifo [OF reach_cancelled])
  show "\<not> blank (tcr_WorkerID ex_claim)" by code_simp
qed (simp_all add: ex_claim_def)

text \<open>C20: only the latest claim of a transition can settle it. Let a worker claim a transition, let any steps of the
  system follow, let a worker, the same one or another, claim the same transition again, and let any further steps
  follow, fewer than the range of the 32-bit attempt counter in all. Then the lease of the first claim is useless for
  ever after: an acknowledgement and a retry that present it fail and change nothing.\<close>

theorem only_latest_claim_settles:
  assumes "reach \<sigma>" and "revisions_below_max (sys_store \<sigma>)" and "ClaimTransitions req1 (sys_store \<sigma>) = (s1, Inr cs1)" and "c1 \<in> set cs1"
    and "(kstep' ^^ n) (\<sigma>\<lparr>sys_store := s1\<rparr>) \<tau>"
    and "revisions_below_max (sys_store \<tau>)" and "ClaimTransitions req2 (sys_store \<tau>) = (s2, Inr cs2)" and "c2 \<in> set cs2"
    and "ct_ID (tc_Transition c2) = ct_ID (tc_Transition c1)"
    and "(kstep' ^^ m) (\<tau>\<lparr>sys_store := s2\<rparr>) \<upsilon>" and "n + m + 1 < 2 ^ 32"
  shows "let lease = \<lparr>tl_TransitionID = ct_ID (tc_Transition c1), tl_LeaseID = tc_LeaseID c1, tl_WorkerID = tc_WorkerID c1\<rparr> in
    (\<exists>e. AckTransition lease (sys_store \<upsilon>) = (sys_store \<upsilon>, Some e)) \<and>
    (\<exists>e. RetryTransition \<lparr>tr_Lease = lease, tr_AvailableAt = t\<rparr> (sys_store \<upsilon>) = (sys_store \<upsilon>, Some e))"
proof -
  define tid where "tid = ct_ID (tc_Transition c1)"
  define w where "w = trim_space (tcr_WorkerID req1)"
  have \<sigma>: "sys_inv \<sigma>" "outbox_wf (sys_store \<sigma>)" using reach_inv [OF assms(1)] reach_outbox [OF assms(1)] by simp_all
  obtain ts1 where ts1: "st_transitions (sys_store \<sigma>) tid = Some ts1" "c1 = claim_of (claim_state req1 tid ts1)"
    "st_transitions s1 tid = Some (claim_state req1 tid ts1)"
    using claim_handed_out [OF \<sigma>(2) assms(3,4)] unfolding tid_def by blast
  define a where "a = ct_Attempts (ts_transition ts1) + 1"
  have lease: "tc_LeaseID c1 = transition_lease_id w tid a" "tc_WorkerID c1 = w"
    using ts1(2) by (simp_all add: claim_of_def claim_state_def Let_def w_def a_def)
  have "known_transition (st_records (sys_store \<sigma>)) tid" using \<sigma>(2) ts1(1) by (auto simp: outbox_wf_def)
  then have "attempts_within 0 0 (ct_Attempts (ts_transition ts1)) tid \<sigma>" using \<sigma> ts1(1) by (simp add: attempts_within_def)
  from attempts_within_step [OF this claim_step [OF assms(3,2)]]
  have "attempts_within 0 0 a tid (\<sigma>\<lparr>sys_store := s1\<rparr>)"
    using ts1(3) by (auto simp: attempts_within_def a_def claim_state_def Let_def)
  from attempts_within_steps [OF assms(5) this] have \<tau>: "attempts_within 0 n a tid \<tau>" by simp
  obtain ts2 where ts2: "st_transitions (sys_store \<tau>) tid = Some ts2" "st_transitions s2 tid = Some (claim_state req2 tid ts2)"
    using claim_handed_out [OF _ assms(7,8)] \<tau> assms(9) unfolding tid_def attempts_within_def by auto
  then obtain j where "j \<le> n" "ct_Attempts (ts_transition ts2) = a + of_nat j" using \<tau> by (auto simp: attempts_within_def)
  then have "attempts_within 1 (Suc n) a tid (\<tau>\<lparr>sys_store := s2\<rparr>)"
    using attempts_within_step [OF \<tau> claim_step [OF assms(7,6)]] ts2(2)
    by (auto simp: attempts_within_def claim_state_def Let_def add.commute intro!: exI [of _ "Suc j"])
  from attempts_within_steps [OF assms(10) this] have \<upsilon>: "attempts_within 1 (Suc n + m) a tid \<upsilon>" .
  have "ts_leaseID ts \<noteq> tc_LeaseID c1 \<or> ts_workerID ts \<noteq> tc_WorkerID c1" if ts: "st_transitions (sys_store \<upsilon>) tid = Some ts" for ts
  proof -
    obtain i where i: "1 \<le> i" "i \<le> Suc n + m" "ct_Attempts (ts_transition ts) = a + of_nat i"
      using \<upsilon> ts by (auto simp: attempts_within_def)
    then have "ct_Attempts (ts_transition ts) \<noteq> a" using of_nat_u32_nonzero [of i] assms(11) by simp
    moreover have "ts_wf tid ts" using \<upsilon> ts by (auto simp: attempts_within_def outbox_wf_def)
    ultimately show ?thesis unfolding lease by (auto simp: ts_wf_def transition_lease_id_def word_unat_eq_iff)
  qed
  then show ?thesis
    unfolding Let_def tid_def [symmetric] by (auto simp: AckTransition_def RetryTransition_def Let_def split: option.split)
qed

definition ex_claimed :: Sys where
  "ex_claimed = (ex_cancelled True)\<lparr>sys_store := fst (ClaimTransitions ex_claim (sys_store (ex_cancelled True)))\<rparr>"

lemma reach_claimed: "reach ex_claimed"
proof -
  have "kstep (ex_cancelled True) ex_claimed"
    unfolding ex_claimed_def
    by (rule kstep.K_claim [where clres = "snd (ClaimTransitions ex_claim (sys_store (ex_cancelled True)))"]) simp
  then have "kstep' (ex_cancelled True) ex_claimed" by (simp add: kstep'_def below_max_cancelled)
  then show ?thesis using reach_steps [OF reach_cancelled] by blast
qed

lemma ex_claimed_store: "st_transitions (sys_store ex_claimed) = [ex_tid \<mapsto> claim_state ex_claim ex_tid ex_transition]"
proof -
  have v: "\<not> blank (tcr_WorkerID ex_claim)" by code_simp
  show ?thesis using v
    by (simp add: ex_claimed_def ClaimTransitions_def ex_outbox ex_claim_def claimable_def ex_transition_def)
qed

abbreviation ex_claim2 :: TransitionClaimRequest where
  "ex_claim2 \<equiv> ex_claim\<lparr>tcr_Now := 200\<rparr>"

abbreviation ex_claimed2 :: Sys where
  "ex_claimed2 \<equiv> ex_claimed\<lparr>sys_store := (sys_store ex_claimed)\<lparr>st_transitions :=
     [ex_tid \<mapsto> claim_state ex_claim2 ex_tid (claim_state ex_claim ex_tid ex_transition)]\<rparr>\<rparr>"

lemma ex_claims:
  "ClaimTransitions ex_claim (sys_store (ex_cancelled True)) =
     (sys_store ex_claimed, Inr [claim_of (claim_state ex_claim ex_tid ex_transition)])"
  "ClaimTransitions ex_claim2 (sys_store ex_claimed) =
     (sys_store ex_claimed2, Inr [claim_of (claim_state ex_claim2 ex_tid (claim_state ex_claim ex_tid ex_transition))])"
proof -
  have v: "\<not> blank (tcr_WorkerID ex_claim)" by code_simp
  show "ClaimTransitions ex_claim (sys_store (ex_cancelled True)) =
     (sys_store ex_claimed, Inr [claim_of (claim_state ex_claim ex_tid ex_transition)])"
    using v by (simp add: ex_claimed_def ClaimTransitions_def ex_outbox ex_claim_def claimable_def ex_transition_def)
  have "st_transitionOrder (sys_store ex_claimed) = [ex_tid]"
    using v by (simp add: ex_claimed_def ClaimTransitions_def ex_outbox split: prod.split)
  then show "ClaimTransitions ex_claim2 (sys_store ex_claimed) =
     (sys_store ex_claimed2, Inr [claim_of (claim_state ex_claim2 ex_tid (claim_state ex_claim ex_tid ex_transition))])"
    using v by (simp add: ClaimTransitions_def ex_claimed_store)
      (simp add: ex_claim_def claimable_def ex_transition_def claim_state_def Let_def)
qed

theorem only_latest_claim_settles_witness:
  "let lease = \<lparr>tl_TransitionID = ex_tid, tl_LeaseID = transition_lease_id ''w'' ex_tid 1, tl_WorkerID = ''w''\<rparr> in
    (\<exists>e. AckTransition lease (sys_store ex_claimed2) = (sys_store ex_claimed2, Some e)) \<and>
    (\<exists>e. RetryTransition \<lparr>tr_Lease = lease, tr_AvailableAt = 0\<rparr> (sys_store ex_claimed2) = (sys_store ex_claimed2, Some e))"
proof -
  let ?c1 = "claim_of (claim_state ex_claim ex_tid ex_transition)"
  let ?c2 = "claim_of (claim_state ex_claim2 ex_tid (claim_state ex_claim ex_tid ex_transition))"
  have w: "trim_space ''w'' = ''w''" by code_simp
  have c: "ct_ID (tc_Transition ?c1) = ex_tid" "tc_LeaseID ?c1 = transition_lease_id ''w'' ex_tid 1" "tc_WorkerID ?c1 = ''w''"
    "ct_ID (tc_Transition ?c2) = ex_tid"
    by (simp_all add: claim_of_def claim_state_def ex_transition_def ex_claim_def Let_def w)
  have e: "(ex_cancelled True)\<lparr>sys_store := sys_store ex_claimed\<rparr> = ex_claimed" by (simp add: ex_claimed_def)
  have below: "revisions_below_max (sys_store ex_claimed)"
    using below_max_cancelled by (simp add: revisions_below_max_def ex_claimed_def ClaimTransitions_def split: prod.split)
  show ?thesis
    using only_latest_claim_settles [OF reach_cancelled below_max_cancelled ex_claims(1), of ?c1 0 ex_claimed ex_claim2
      "sys_store ex_claimed2" "[?c2]" ?c2 0 ex_claimed2 0] ex_claims(2) below
    by (simp add: c e)
qed

end
