(* ===== verification/Apply_Evidence.thy ===== *)
theory Apply_Evidence
  imports Kernel_Runtime
begin

text \<open>
  Identified writes, \<open>kernel/apply_evidence.go\<close>: a write that carries a proof of its identity as
  an ordinary event of the run's journal, and the verification of that proof after a lost
  response.

  \<open>json.Marshal\<close> and \<open>json.Unmarshal\<close> of the digest material and of the proof are written out; an
  empty list of events stands for the nil slice. \<open>VerifyIdentifiedApply\<close> loads the run once and
  then reads pages of its journal while other callers go on: \<open>s\<close> is the store at the load, \<open>ss k\<close>
  the store when page \<open>k\<close> is read and \<open>cxs k\<close> the error of the context at that point.
\<close>

datatype apply_error = AErrKernel kernel_error | ErrApplyAlreadyCommitted | ErrApplyOutcomeUnknown

datatype ApplyEvidenceStatus = ApplyEvidenceCommitted | ApplyEvidenceRetryableCAS

record ApplyEvidence =
  ae_Status :: ApplyEvidenceStatus
  ae_CommittedRevision :: u64
  ae_CurrentRevision :: u64

record identifiedApplyProof =
  ip_OperationID :: string
  ip_SourceRevision :: u64
  ip_MutationDigest :: string

definition validApplyOperation :: "string \<Rightarrow> u64 \<Rightarrow> bool" where
  "validApplyOperation op expectedRevision \<longleftrightarrow>
     op \<noteq> [] \<and> length op \<le> 128 \<and> trim_space op = op \<and>
     \<not> list_ex (\<lambda>c. c = CHR 0x0D \<or> c = CHR 0x0A \<or> c = CHR 0x00) op \<and>
     expectedRevision \<noteq> 0 \<and> expectedRevision \<noteq> max_u64"

subsection \<open>The digest of a mutation\<close>

definition run_status_string :: "RunStatus \<Rightarrow> string" where
  "run_status_string st = (case st of
       RunStatusRunning \<Rightarrow> ''running'' | RunStatusWaitingInput \<Rightarrow> ''waiting_input''
     | RunStatusPausedBudget \<Rightarrow> ''paused_budget'' | RunStatusCompleted \<Rightarrow> ''completed''
     | RunStatusFailed \<Rightarrow> ''failed'' | RunStatusCancelled \<Rightarrow> ''cancelled'' | RunStatusOther s \<Rightarrow> s)"

definition enc_result :: "RunResult option \<Rightarrow> string option" where
  "enc_result r = (case r of
       None \<Rightarrow> Some ''null''
     | Some x \<Rightarrow> map_option (\<lambda>c. enc_obj [(''contentType'', enc_string (res_ContentType x)), (''content'', c)]) (enc_raw (res_Content x)))"

definition enc_draft :: "EventDraft \<Rightarrow> string option" where
  "enc_draft d =
     (case (if ed_Data d = [] then Some [] else map_option (\<lambda>x. [(''data'', x)]) (enc_raw (ed_Data d))) of None \<Rightarrow> None
      | Some data \<Rightarrow>
      case (case ed_WakeupAt d of None \<Rightarrow> Some [] | Some t \<Rightarrow> map_option (\<lambda>x. [(''wakeupAt'', x)]) (enc_time t)) of None \<Rightarrow> None
      | Some wakeupAt \<Rightarrow>
        Some (enc_obj ([(''type'', enc_string (ed_Type d))]
          @ (if ed_Message d = [] then [] else [(''message'', enc_string (ed_Message d))])
          @ data @ wakeupAt
          @ (if ed_WakeupGeneration d = 0 then [] else [(''wakeupGeneration'', dec_u64 (ed_WakeupGeneration d))]))))"

definition enc_array :: "string list \<Rightarrow> string" where
  "enc_array vs = CHR ''['' # intercalate '','' vs @ [CHR '']'']"

fun all_some :: "'a option list \<Rightarrow> 'a list option" where
  "all_some [] = Some []"
| "all_some (x # xs) = (case x of None \<Rightarrow> None | Some y \<Rightarrow> map_option (\<lambda>ys. y # ys) (all_some xs))"

definition enc_mutation :: "Mutation \<Rightarrow> string option" where
  "enc_mutation m =
     (case enc_raw (mu_State m) of None \<Rightarrow> None | Some state \<Rightarrow>
      case enc_checkpoint (mu_Checkpoint m) of None \<Rightarrow> None | Some checkpoint \<Rightarrow>
      case enc_result (mu_Result m) of None \<Rightarrow> None | Some result \<Rightarrow>
      case all_some (map enc_draft (mu_Events m)) of None \<Rightarrow> None | Some events \<Rightarrow>
        Some (enc_obj [(''Status'', enc_string (run_status_string (mu_Status m))), (''State'', state),
          (''Checkpoint'', checkpoint), (''Result'', result), (''ErrorCode'', enc_string (mu_ErrorCode m)),
          (''ErrorDetail'', enc_string (mu_ErrorDetail m)),
          (''Events'', if mu_Events m = [] then ''null'' else enc_array events)]))"

definition digestApplyMutation :: "Mutation \<Rightarrow> apply_error + string" where
  "digestApplyMutation m =
     (if hasReservedApplyEvidence (mu_Events m) then Inl (AErrKernel ErrInvalidInput)
      else case enc_mutation m of
        None \<Rightarrow> Inl (AErrKernel ErrInvalidInput)
      | Some mutation \<Rightarrow>
          Inr (sha256_hex (enc_obj [(''mutation'', mutation),
            (''wakeups'', enc_array (map (\<lambda>e. enc_bool (ed_Wakeup e)) (mu_Events m)))])))"

subsection \<open>Proofs\<close>

definition marshal_proof :: "identifiedApplyProof \<Rightarrow> string" where
  "marshal_proof p = enc_obj [(''operationID'', enc_string (ip_OperationID p)),
     (''sourceRevision'', dec_u64 (ip_SourceRevision p)), (''mutationDigest'', enc_string (ip_MutationDigest p))]"

definition parse_uint64 :: "string \<Rightarrow> u64 option" where
  "parse_uint64 s = (if s \<noteq> [] \<and> list_all is_digit s \<and> undec s < 2 ^ 64 then Some (of_nat (undec s)) else None)"

text \<open>\<open>json.Unmarshal\<close> into the struct: null leaves a field, a value of another type is an error, unknown keys
  are skipped.\<close>

fun proof_fields :: "identifiedApplyProof \<Rightarrow> (string \<times> jv) list \<Rightarrow> identifiedApplyProof option" where
  "proof_fields p [] = Some p"
| "proof_fields p ((k, v) # ms) =
     (if key_matches ''operationID'' k then
        (case v of JStr a \<Rightarrow> proof_fields (p\<lparr>ip_OperationID := unquote a\<rparr>) ms | JNull \<Rightarrow> proof_fields p ms | _ \<Rightarrow> None)
      else if key_matches ''sourceRevision'' k then
        (case v of
           JNum a \<Rightarrow> (case parse_uint64 a of None \<Rightarrow> None | Some n \<Rightarrow> proof_fields (p\<lparr>ip_SourceRevision := n\<rparr>) ms)
         | JNull \<Rightarrow> proof_fields p ms
         | _ \<Rightarrow> None)
      else if key_matches ''mutationDigest'' k then
        (case v of JStr a \<Rightarrow> proof_fields (p\<lparr>ip_MutationDigest := unquote a\<rparr>) ms | JNull \<Rightarrow> proof_fields p ms | _ \<Rightarrow> None)
      else proof_fields p ms)"

definition zero_proof :: identifiedApplyProof where
  "zero_proof = \<lparr>ip_OperationID = [], ip_SourceRevision = 0, ip_MutationDigest = []\<rparr>"

definition unmarshal_proof :: "string \<Rightarrow> identifiedApplyProof option" where
  "unmarshal_proof s = (case parse_json s of
       None \<Rightarrow> None
     | Some JNull \<Rightarrow> Some zero_proof
     | Some (JObj ms) \<Rightarrow> proof_fields zero_proof ms
     | Some _ \<Rightarrow> None)"

subsection \<open>Verification\<close>

text \<open>The proof an evidence event carries, when it is a well-formed one.\<close>

definition event_proof :: "Event \<Rightarrow> identifiedApplyProof option" where
  "event_proof event =
     (case (if ev_Data event = [] then None else unmarshal_proof (ev_Data event)) of
        None \<Rightarrow> None
      | Some p \<Rightarrow>
          if \<not> validApplyOperation (ip_OperationID p) (ip_SourceRevision p) \<or> length (ip_MutationDigest p) \<noteq> 64 then None
          else Some p)"

text \<open>The loop over the events of a page.\<close>

fun scan_page :: "string \<Rightarrow> u64 \<Rightarrow> string \<Rightarrow> int \<Rightarrow> int \<Rightarrow> bool \<Rightarrow> Event list \<Rightarrow> apply_error + int \<times> bool" where
  "scan_page op expectedRevision hash eventHead after matched [] = Inr (after, matched)"
| "scan_page op expectedRevision hash eventHead after matched (event # events) =
     (if eventHead < ev_Seq event then Inr (after, matched)
      else if ev_Seq event \<noteq> after + 1 then Inl ErrApplyOutcomeUnknown
      else if ev_Type event \<noteq> identifiedApplyEventType then
        scan_page op expectedRevision hash eventHead (ev_Seq event) matched events
      else case event_proof event of
        None \<Rightarrow> Inl ErrApplyOutcomeUnknown
      | Some p \<Rightarrow>
          if ip_OperationID p \<noteq> op then scan_page op expectedRevision hash eventHead (ev_Seq event) matched events
          else if matched \<or> ip_SourceRevision p \<noteq> expectedRevision \<or> ip_MutationDigest p \<noteq> hash
          then Inl (AErrKernel ErrConflict)
          else scan_page op expectedRevision hash eventHead (ev_Seq event) True events)"

lemma scan_page_mono: "scan_page op e h head a m events = Inr (a', m') \<Longrightarrow> a \<le> a'"
proof (induction events arbitrary: a m)
  case (Cons event events)
  then show ?case by (fastforce split: if_splits option.splits)
qed simp

lemma scan_page_progress:
  assumes "scan_page op e h head a m events = Inr (a', m')" and "a < head" and "events \<noteq> []" and "ev_Seq (hd events) = a + 1"
  shows "a < a'"
proof -
  obtain event rest where ev: "events = event # rest" "ev_Seq event = a + 1" using assms(3,4) by (cases events) auto
  then obtain m1 where "scan_page op e h head (a + 1) m1 rest = Inr (a', m')"
    using assms(1,2) by (auto split: if_splits option.splits)
  then show ?thesis using scan_page_mono by fastforce
qed

function verify_loop :: "'s store_port \<Rightarrow> (nat \<Rightarrow> context_error option) \<Rightarrow> string \<Rightarrow> string \<Rightarrow> u64 \<Rightarrow> string \<Rightarrow> int \<Rightarrow>
  (nat \<Rightarrow> 's) \<Rightarrow> nat \<Rightarrow> int \<Rightarrow> bool \<Rightarrow> apply_error + bool" where
  "verify_loop port cxs runID op expectedRevision hash eventHead ss k after matched =
     (if after < eventHead then
        case cxs k of Some e \<Rightarrow> Inl (AErrKernel (ErrContext e)) | None \<Rightarrow>
        (case rt_ListEvents port runID after 512 (ss k) of
           Inl e \<Rightarrow> Inl ErrApplyOutcomeUnknown
         | Inr events \<Rightarrow>
             if events = [] \<or> ev_Seq (hd events) \<noteq> after + 1 then Inl ErrApplyOutcomeUnknown
             else case scan_page op expectedRevision hash eventHead after matched events of
               Inl e \<Rightarrow> Inl e
             | Inr (after', matched') \<Rightarrow>
                 verify_loop port cxs runID op expectedRevision hash eventHead ss (Suc k) after' matched')
      else Inr matched)"
  by pat_completeness auto
termination
  by (relation "measure (\<lambda>(port, cxs, runID, op, e, h, head, ss, k, after, m). nat (head - after))")
    (auto dest: scan_page_progress)

declare verify_loop.simps [simp del]

definition VerifyIdentifiedApply :: "'s store_port \<Rightarrow> ctx \<Rightarrow> (nat \<Rightarrow> context_error option) \<Rightarrow> string \<Rightarrow> u64 \<Rightarrow> string \<Rightarrow> Mutation \<Rightarrow>
  's \<Rightarrow> (nat \<Rightarrow> 's) \<Rightarrow> apply_error + ApplyEvidence" where
  "VerifyIdentifiedApply port cx cxs runID expectedRevision op m s ss =
     (if cx = CtxNil \<or> blank runID \<or> \<not> validApplyOperation op expectedRevision then Inl (AErrKernel ErrInvalidInput)
      else case digestApplyMutation m of
        Inl e \<Rightarrow> Inl e
      | Inr hash \<Rightarrow>
          case rt_Load port runID s of
            Inl e \<Rightarrow> Inl (AErrKernel e)
          | Inr current \<Rightarrow>
              let revision = run_Revision (sn_Run current) in
              if revision < expectedRevision then Inl (AErrKernel ErrConflict)
              else if sn_EventHead current < 0 then Inl ErrApplyOutcomeUnknown
              else case verify_loop port cxs runID op expectedRevision hash (sn_EventHead current) ss 0 0 False of
                Inl e \<Rightarrow> Inl e
              | Inr matched \<Rightarrow>
                  if matched then
                    if revision \<le> expectedRevision then Inl ErrApplyOutcomeUnknown
                    else Inr \<lparr>ae_Status = ApplyEvidenceCommitted, ae_CommittedRevision = expectedRevision + 1,
                              ae_CurrentRevision = revision\<rparr>
                  else if revision \<noteq> expectedRevision then Inl ErrApplyOutcomeUnknown
                  else Inr \<lparr>ae_Status = ApplyEvidenceRetryableCAS, ae_CommittedRevision = 0, ae_CurrentRevision = revision\<rparr>)"

subsection \<open>The identified write\<close>

definition evidence_draft :: "identifiedApplyProof \<Rightarrow> EventDraft" where
  "evidence_draft p = \<lparr>ed_Type = identifiedApplyEventType, ed_Message = [], ed_Data = marshal_proof p,
     ed_Wakeup = False, ed_WakeupAt = None, ed_WakeupGeneration = 0\<rparr>"

definition with_evidence :: "string \<Rightarrow> u64 \<Rightarrow> string \<Rightarrow> Mutation \<Rightarrow> Mutation" where
  "with_evidence op expectedRevision hash m = m\<lparr>mu_Events := mu_Events m @
     [evidence_draft \<lparr>ip_OperationID = op, ip_SourceRevision = expectedRevision, ip_MutationDigest = hash\<rparr>]\<rparr>"

text \<open>The verification reads \<open>s0\<close> and \<open>ss\<close>; the write then meets the store \<open>s\<close>.\<close>

definition ApplyIdentified :: "'s store_port \<Rightarrow> ctx \<Rightarrow> (nat \<Rightarrow> context_error option) \<Rightarrow> binding \<Rightarrow> time \<Rightarrow> string \<Rightarrow> u64 \<Rightarrow> string \<Rightarrow>
  Mutation \<Rightarrow> 's \<Rightarrow> (nat \<Rightarrow> 's) \<Rightarrow> 's \<Rightarrow> 's \<times> (apply_error + Snapshot)" where
  "ApplyIdentified port cx cxs b now runID expectedRevision op m s0 ss s =
     (if cx = CtxNil \<or> blank runID \<or> \<not> validApplyOperation op expectedRevision then (s, Inl (AErrKernel ErrInvalidInput))
      else case digestApplyMutation m of
        Inl e \<Rightarrow> (s, Inl e)
      | Inr hash \<Rightarrow>
          case VerifyIdentifiedApply port cx cxs runID expectedRevision op m s0 ss of
            Inl e \<Rightarrow> (s, Inl e)
          | Inr outcome \<Rightarrow>
              if ae_Status outcome = ApplyEvidenceCommitted then (s, Inl ErrApplyAlreadyCommitted)
              else case rt_apply port cx b now runID expectedRevision (with_evidence op expectedRevision hash m) True s of
                (s', Inl e) \<Rightarrow> (s', Inl (AErrKernel e))
              | (s', Inr sn) \<Rightarrow> (s', Inr sn))"

end
