(* ===== verification/Json_Roundtrip.thy ===== *)
theory Json_Roundtrip
  imports Go_Json
begin

text \<open>
  Encoding and decoding of JSON strings and unsigned numbers are inverse to each other: what
  \<open>json.Marshal\<close> writes for a string that is valid UTF-8 is scanned and unquoted to that string,
  and a decimal literal of a \<open>uint64\<close> is scanned and read back.
\<close>

subsection \<open>Escapes\<close>

lemma hex_val_digit [simp]: "d < 16 \<Longrightarrow> hex_val (hex_digit d) = Some d"
  by (auto simp: hex_val_def hex_digit_def Let_def)

lemma is_hex_digit [simp]: "d < 16 \<Longrightarrow> is_hex (hex_digit d)"
  by (simp add: is_hex_def)

lemma horner4: "n = p * 16 + d \<Longrightarrow> p = q * 16 + c \<Longrightarrow> q = r * 16 + b \<Longrightarrow> ((r * 16 + b) * 16 + c) * 16 + d = (n :: nat)"
  by simp

lemma hex4_digits:
  assumes "n < 65536"
  shows "hex4 (hex_digit (n div 4096 mod 16)) (hex_digit (n div 256 mod 16)) (hex_digit (n div 16 mod 16)) (hex_digit (n mod 16)) = n"
proof -
  have m: "x mod 16 < 16" for x :: nat by (rule mod_less_divisor) simp
  have "n div 4096 < 16" using assms by (rule less_mult_imp_div_less [of n 16 4096, simplified])
  then have r: "n div 4096 mod 16 = n div 4096" by (rule mod_less)
  have d: "n div 256 div 16 = n div 4096" "n div 16 div 16 = n div 256" by (simp_all only: div_mult2_eq [symmetric] arith_simps)
  have "((n div 4096 * 16 + n div 256 mod 16) * 16 + n div 16 mod 16) * 16 + n mod 16 = n"
  proof (rule horner4)
    show "n = n div 16 * 16 + n mod 16" by (rule div_mult_mod_eq [symmetric])
    show "n div 16 = n div 256 * 16 + n div 16 mod 16" using div_mult_mod_eq [of "n div 16" 16] unfolding d by (rule sym)
    show "n div 256 = n div 4096 * 16 + n div 256 mod 16" using div_mult_mod_eq [of "n div 256" 16] unfolding d by (rule sym)
  qed
  then show ?thesis unfolding hex4_def hex_val_digit [OF m] option.sel unfolding r .
qed

text \<open>The valid encodings of two, three and four bytes.\<close>

definition two :: "char \<Rightarrow> char \<Rightarrow> bool" where
  "two a b \<longleftrightarrow> 194 \<le> (of_char a :: nat) \<and> (of_char a :: nat) \<le> 223 \<and> cont_byte b"

definition three :: "char \<Rightarrow> char \<Rightarrow> char \<Rightarrow> bool" where
  "three a b c \<longleftrightarrow> (let n = of_char a :: nat; m = of_char b :: nat in
     (n = 224 \<and> 160 \<le> m \<and> m \<le> 191 \<or> n = 237 \<and> 128 \<le> m \<and> m \<le> 159 \<or>
      225 \<le> n \<and> n \<le> 239 \<and> n \<noteq> 237 \<and> cont_byte b) \<and> cont_byte c)"

definition four :: "char \<Rightarrow> char \<Rightarrow> char \<Rightarrow> char \<Rightarrow> bool" where
  "four a b c d \<longleftrightarrow> (let n = of_char a :: nat; m = of_char b :: nat in
     (n = 240 \<and> 144 \<le> m \<and> m \<le> 191 \<or> n = 244 \<and> 128 \<le> m \<and> m \<le> 143 \<or>
      241 \<le> n \<and> n \<le> 243 \<and> cont_byte b) \<and> cont_byte c \<and> cont_byte d)"

lemma rune_len_eq:
  "rune_len (a # r) =
     (if (of_char a :: nat) < 128 then 1
      else case r of [] \<Rightarrow> 0 | b # r2 \<Rightarrow> if two a b then 2
      else case r2 of [] \<Rightarrow> 0 | c # r3 \<Rightarrow> if three a b c then 3
      else case r3 of [] \<Rightarrow> 0 | d # _ \<Rightarrow> if four a b c d then 4 else 0)"
  unfolding rune_len_def two_def three_def four_def Let_def list.case ..

lemma rune_cont:
  "two a b \<Longrightarrow> \<not> (of_char b :: nat) < 128"
  "three a b c \<Longrightarrow> \<not> (of_char b :: nat) < 128 \<and> \<not> (of_char c :: nat) < 128"
  "four a b c d \<Longrightarrow> \<not> (of_char b :: nat) < 128 \<and> \<not> (of_char c :: nat) < 128 \<and> \<not> (of_char d :: nat) < 128"
  by (auto simp: two_def three_def four_def cont_byte_def Let_def)

text \<open>The bytes of a rune that is not ASCII.\<close>

lemma rune_cases:
  assumes "rune_len (a # r) \<noteq> 0" and "\<not> (of_char a :: nat) < 128"
  obtains b t where "r = b # t" "two a b" "rune_len (a # r) = 2"
  | b c t where "r = b # c # t" "\<not> two a b" "three a b c" "rune_len (a # r) = 3"
  | b c d t where "r = b # c # d # t" "\<not> two a b" "\<not> three a b c" "four a b c d" "rune_len (a # r) = 4"
  using assms by (auto simp: rune_len_eq split: list.splits if_splits)

lemma rune_bytes:
  assumes "rune_len (c # cs) \<noteq> 0" and "\<not> (of_char c :: nat) < 128"
  shows "\<forall>b\<in>set (take (rune_len (c # cs) - 1) cs). \<not> (of_char b :: nat) < 128"
  using assms by (cases rule: rune_cases) (auto dest: rune_cont)

lemma rune_len_append:
  assumes "rune_len (c # cs) \<noteq> 0" and "\<not> (of_char c :: nat) < 128"
  shows "rune_len (c # take (rune_len (c # cs) - 1) cs @ t) = rune_len (c # cs)" "rune_len (c # cs) - 1 \<le> length cs"
  using assms by (cases rule: rune_cases; simp add: rune_len_eq)+

subsection \<open>Scanning an encoded string\<close>

lemma scan_raw:
  "\<forall>b\<in>set xs. \<not> (of_char b :: nat) < 128 \<Longrightarrow> scan_str (xs @ t) = map_option (\<lambda>(a, r). (xs @ a, r)) (scan_str t)"
  by (induction xs) (auto simp: option.map_comp comp_def case_prod_beta map_option_case split: option.splits)

lemma scan_hex_u: "n < 65536 \<Longrightarrow> scan_str (hex_u n @ t) = map_option (\<lambda>(a, r). (hex_u n @ a, r)) (scan_str t)"
  by (simp add: hex_u_def case_prod_beta)

lemma scan_escape_ascii:
  assumes "(of_char c :: nat) < 128"
  shows "scan_str (escape_ascii c @ t) = map_option (\<lambda>(a, r). (escape_ascii c @ a, r)) (scan_str t)"
proof -
  define n where "n = (of_char c :: nat)"
  have hx: "scan_str (hex_u n @ t) = map_option (\<lambda>(a, r). (hex_u n @ a, r)) (scan_str t)"
    using scan_hex_u [of n t] assms by (simp add: n_def)
  show ?thesis unfolding escape_ascii_def Let_def n_def [symmetric] using hx by (auto simp: n_def case_prod_beta)
qed

lemma scan_escape: "scan_str (escape_string s @ CHR 0x22 # t) = Some (escape_string s, t)"
proof (induction s rule: escape_string.induct)
  case (2 c cs)
  show ?case
  proof (cases "(of_char c :: nat) < 128")
    case True
    then show ?thesis using "2.IH"(1) by (simp add: scan_escape_ascii)
  next
    case False
    define k where "k = rune_len (c # cs)"
    show ?thesis
    proof (cases "k = 0")
      case True
      then show ?thesis using "2.IH"(2) [OF False] False by (simp add: scan_hex_u Let_def flip: k_def)
    next
      case k: False
      show ?thesis
      proof (cases "line_sep (c # cs)")
        case True
        then show ?thesis using "2.IH"(3) [OF False k_def k] False k by (simp add: scan_hex_u Let_def flip: k_def)
      next
        case sep: False
        have "\<forall>b\<in>set (c # take (k - 1) cs). \<not> (of_char b :: nat) < 128"
          using rune_bytes [of c cs] k False by (simp add: k_def)
        from scan_raw [OF this, of "escape_string (drop (k - 1) cs) @ CHR 0x22 # t"]
        show ?thesis using "2.IH"(4) [OF False k_def k sep] False k sep by (simp add: Let_def flip: k_def)
      qed
    qed
  qed
qed simp

subsection \<open>Unquoting an encoded string\<close>

fun valid_utf8 :: "string \<Rightarrow> bool" where
  "valid_utf8 [] \<longleftrightarrow> True"
| "valid_utf8 (c # cs) \<longleftrightarrow> rune_len (c # cs) \<noteq> 0 \<and> valid_utf8 (drop (rune_len (c # cs) - 1) cs)"

lemma unquote_u:
  assumes "hex4 h1 h2 h3 h4 = n" and "n < 55296"
  shows "unquote (CHR 0x5C # CHR ''u'' # h1 # h2 # h3 # h4 # t) = encode_rune n @ unquote t"
  using assms(2) by (simp add: assms(1) Let_def)

lemma unquote_hex_u:
  assumes "n < 55296"
  shows "unquote (hex_u n @ t) = encode_rune n @ unquote t"
  unfolding hex_u_def append_Cons append_Nil
  by (rule unquote_u [OF hex4_digits assms]) (use assms in simp)

lemma unquote_escape_ascii:
  assumes "(of_char c :: nat) < 128"
  shows "unquote (escape_ascii c @ t) = c # unquote t"
proof -
  define n where "n = (of_char c :: nat)"
  have c: "c = char_of n" by (simp add: n_def)
  have hx: "unquote (hex_u n @ t) = c # unquote t"
    using unquote_hex_u [of n t] assms by (simp add: encode_rune_def n_def)
  have sp: "n = 8 \<Longrightarrow> c = CHR 0x08" "n = 12 \<Longrightarrow> c = CHR 0x0C" "n = 10 \<Longrightarrow> c = CHR 0x0A" "n = 13 \<Longrightarrow> c = CHR 0x0D" "n = 9 \<Longrightarrow> c = CHR 0x09"
    unfolding c by (simp_all add: char_of_def bit_0)
  show ?thesis unfolding escape_ascii_def Let_def n_def [symmetric]
    using hx sp assms by (auto simp: unescape_def)
qed

lemma unquote_line_sep:
  assumes "line_sep (c # cs)"
  shows "unquote (hex_u (if take 3 (c # cs) = [CHR 0xE2, CHR 0x80, CHR 0xA8] then 8232 else 8233) @ t) = c # take 2 cs @ unquote t"
  using assms by (auto simp: line_sep_def unquote_hex_u encode_rune_def char_of_def bit_0)

lemma line_sep_rune: "line_sep (c # cs) \<Longrightarrow> rune_len (c # cs) = 3"
  by (auto simp: line_sep_def take_Cons' rune_len_eq two_def three_def cont_byte_def split: if_splits list.splits)

lemma unquote_escape: "valid_utf8 s \<Longrightarrow> unquote (escape_string s) = s"
proof (induction s rule: escape_string.induct)
  case (2 c cs)
  define k where "k = rune_len (c # cs)"
  from "2.prems" have k: "k \<noteq> 0" and v: "valid_utf8 (drop (k - 1) cs)" by (simp_all add: k_def)
  show ?case
  proof (cases "(of_char c :: nat) < 128")
    case True
    then have "k = 1" by (simp add: k_def rune_len_eq)
    then show ?thesis using "2.IH"(1) [OF True] v True by (simp add: unquote_escape_ascii)
  next
    case False
    show ?thesis
    proof (cases "line_sep (c # cs)")
      case True
      then have "k = 3" by (simp add: k_def line_sep_rune)
      then show ?thesis using "2.IH"(3) [OF False k_def k True] v False True unquote_line_sep [OF True]
        by (simp add: Let_def flip: k_def)
    next
      case sep: False
      have "unquote (c # take (k - 1) cs @ escape_string (drop (k - 1) cs)) =
          c # take (k - 1) cs @ unquote (escape_string (drop (k - 1) cs))"
        using rune_len_append(1) [of c cs "escape_string (drop (k - 1) cs)"] k False
        by (auto simp: Let_def min_def simp flip: k_def)
      then show ?thesis using "2.IH"(4) [OF False k_def k sep] v False k sep by (simp add: Let_def flip: k_def)
    qed
  qed
qed simp

subsection \<open>Numbers\<close>

lemma is_digit_char: "d < 10 \<Longrightarrow> is_digit (digit_char d)"
  by (simp add: is_digit_def)

lemma dec_nat_is_digit: "list_all is_digit (dec_nat n)"
  using dec_nat_digits is_digit_char by (fastforce simp: list_all_iff)

lemma dec_nat_hd: "0 < n \<Longrightarrow> hd (dec_nat n) \<noteq> CHR ''0'' \<and> dec_nat n \<noteq> []"
proof (induction n rule: dec_nat.induct)
  case (1 n)
  show ?case
  proof (cases "n < 10")
    case True
    have "digit_char n \<noteq> CHR ''0''"
    proof
      assume "digit_char n = CHR ''0''"
      then have "of_char (digit_char n) = (of_char (CHR ''0'') :: nat)" by simp
      then show False using of_char_digit [OF True] "1.prems" by simp
    qed
    then show ?thesis using True by (simp add: dec_nat.simps [of n])
  next
    case False
    then show ?thesis using "1.IH" by (simp add: dec_nat.simps [of n])
  qed
qed

lemma scan_num_dec:
  assumes "0 < n" and "c \<noteq> CHR ''.''" "c \<noteq> CHR ''e''" "c \<noteq> CHR ''E''" "\<not> is_digit c"
  shows "scan_num (dec_nat n @ c # t) = Some (dec_nat n, c # t)"
proof -
  obtain x xs where d: "dec_nat n = x # xs" using dec_nat_hd [OF assms(1)] by (cases "dec_nat n") auto
  have x: "x \<noteq> CHR ''0''" "x \<noteq> CHR ''-''" "is_digit x"
    using dec_nat_hd [OF assms(1)] dec_nat_is_digit [of n] d by (auto simp: is_digit_def)
  have ds: "\<forall>y\<in>set (x # xs). is_digit y" using dec_nat_is_digit [of n] d by (simp add: list_all_iff)
  have "takeWhile is_digit ((x # xs) @ c # t) = x # xs" "dropWhile is_digit ((x # xs) @ c # t) = c # t"
    using ds assms(5) by (simp_all add: takeWhile_append2 dropWhile_append2)
  then have "scan_digits (x # xs @ c # t) = Some (x # xs, c # t)" by (simp add: scan_digits_def)
  then show ?thesis using x assms(2-4) by (simp add: scan_num_def d scan_int_def scan_frac_def scan_exp_def)
qed

end
