(* ===== verification/Go_Util.thy ===== *)
theory Go_Util
  imports Go_Json Go_Sha256
begin

text \<open>
  Further parts of Go's standard library that several packages use: the conversion of a string
  to runes and back, and \<open>json.Marshal\<close> of a document decoded into \<open>any\<close> with \<open>UseNumber\<close>, the
  canonical form the packages compute for payloads (object keys sorted, the last duplicate of a
  key kept, numbers as written, strings re-encoded).
\<close>

subsection \<open>Runes\<close>

text \<open>\<open>[]rune(s)\<close>, each rune as its UTF-8 encoding; an invalid byte is U+FFFD.\<close>

function runes :: "string \<Rightarrow> string list" where
  "runes [] = []"
| "runes (c # cs) =
     (let n = rune_len (c # cs) in
      if n = 0 then rune_error # runes cs
      else take n (c # cs) # runes (drop (n - 1) cs))"
  by pat_completeness auto
termination
  by (relation "measure length") auto

lemma length_runes_le: "length (runes s) \<le> length s"
proof (induction s rule: runes.induct)
  case (2 c cs)
  then show ?case
    by (cases "rune_len (c # cs) = 0") (auto simp: Let_def intro: le_trans)
qed simp

subsection \<open>Canonical JSON\<close>

text \<open>The Go map an object literal decodes to, with its keys in sorted order.\<close>

definition object_map :: "(string \<times> 'a) list \<Rightarrow> (string \<times> 'a) list" where
  "object_map ms = sort_key fst (fold (\<lambda>(k, v) acc. AList.update k v acc) ms [])"

fun marshal_any :: "jv \<Rightarrow> string" where
  "marshal_any JNull = ''null''"
| "marshal_any (JBool b) = enc_bool b"
| "marshal_any (JNum s) = s"
| "marshal_any (JStr s) = enc_string (unquote s)"
| "marshal_any (JArr vs) = CHR ''['' # intercalate '','' (map marshal_any vs) @ [CHR '']'']"
| "marshal_any (JObj ms) = enc_obj (object_map (map (\<lambda>(k, v). (unquote k, marshal_any v)) ms))"

lemma fold_update_keys:
  "set (map fst (fold (\<lambda>(k, v) acc. AList.update k v acc) ms acc)) = fst ` set ms \<union> fst ` set acc"
  by (induction ms arbitrary: acc) (auto simp: dom_update split: prod.splits)

lemma fold_update_distinct:
  "distinct (map fst acc) \<Longrightarrow> distinct (map fst (fold (\<lambda>(k, v) acc. AList.update k v acc) ms acc))"
  by (induction ms arbitrary: acc) (auto simp: distinct_update split: prod.splits)

lemma object_map_keys [simp]: "fst ` set (object_map ms) = fst ` set ms"
  using fold_update_keys [of ms "[]"] by (simp add: object_map_def)

lemma object_map_sorted: "sorted (map fst (object_map ms))"
  by (simp add: object_map_def)

lemma object_map_distinct: "distinct (map fst (object_map ms))"
  using fold_update_distinct [of "[]" ms]
  by (simp add: object_map_def distinct_map)

subsection \<open>Trimming identifiers\<close>

text \<open>An identifier that starts and ends with a printable ASCII character is its own trimmed form; the
  derived identifiers, a prefix and hexadecimal digits, are.\<close>

definition graphic :: "char \<Rightarrow> bool" where
  "graphic c \<longleftrightarrow> 32 < (of_char c :: nat) \<and> (of_char c :: nat) < 127"

lemma find_prefix_graphic:
  assumes "\<forall>p\<in>set ps. p \<noteq> [] \<and> \<not> graphic (hd p)" and "s \<noteq> []" and "graphic (hd s)"
  shows "find_prefix ps s = None"
  using assms unfolding find_prefix_None by (metis hd_take length_greater_0_conv)

lemma trim_space_graphic:
  assumes "s \<noteq> []" and "graphic (hd s)" and "graphic (last s)"
  shows "trim_space s = s"
proof -
  have "find_prefix space_encodings s = None"
    by (rule find_prefix_graphic [OF _ assms(1,2)]) (simp add: space_encodings_def graphic_def)
  moreover have "find_prefix (map rev space_encodings) (rev s) = None"
    by (rule find_prefix_graphic) (use assms in \<open>simp_all add: space_encodings_def graphic_def hd_rev\<close>)
  ultimately show ?thesis by (simp add: trim_space_def trim_left_def trim_right_def)
qed

lemma graphic_hex_encode: "c \<in> set (hex_encode s) \<Longrightarrow> graphic c"
proof -
  have "graphic (hex_digit d)" if "d < 16" for d using that by (simp add: graphic_def hex_digit_def)
  moreover have "(of_char x :: nat) div 16 < 16" for x :: char by (rule less_mult_imp_div_less) simp
  ultimately show "c \<in> set (hex_encode s) \<Longrightarrow> graphic c"
    by (auto simp: hex_encode_def hex_byte_def)
qed

lemma trim_space_digest [simp]:
  assumes "pfx \<noteq> []" and "graphic (hd pfx)" and "0 < n"
  shows "trim_space (pfx @ take n (sha256_hex s)) = pfx @ take n (sha256_hex s)"
proof (rule trim_space_graphic)
  have "sha256_hex s \<noteq> []" using length_sha256_hex [of s] by (metis list.size(3) zero_neq_numeral)
  then have "take n (sha256_hex s) \<noteq> []" using assms(3) by simp
  then have "last (pfx @ take n (sha256_hex s)) \<in> set (sha256_hex s)"
    by (metis last_appendR last_in_set in_set_takeD)
  then show "graphic (last (pfx @ take n (sha256_hex s)))" by (simp add: sha256_hex_def graphic_hex_encode)
qed (use assms in simp_all)

end
