(* ===== verification/Apply_Evidence_Facts.thy ===== *)
theory Apply_Evidence_Facts
  imports Kernel_Safety Apply_Evidence Json_Roundtrip Go_Util
begin

text \<open>
  Facts on identified writes: a proof survives its encoding in the journal, and the paged
  verification amounts to one pass over the journal as it was at the load, although other callers
  go on. \<open>evidence\<close> is the list of proofs a journal carries (\<open>None\<close> for a malformed one).
\<close>

subsection \<open>Encoded proofs\<close>

lemma skip_ws_graphic [simp]: "\<not> json_space c \<Longrightarrow> skip_ws (c # t) = c # t"
  by (simp add: skip_ws_def)

lemma not_space [simp]: "\<not> json_space (CHR 0x22)" "\<not> json_space (CHR '':'')" "\<not> json_space (CHR '','')" "\<not> json_space (CHR ''}'')"
    "\<not> json_space (CHR ''{'')"
  by (simp_all add: json_space_def)

lemma parse_string: "parse_value (Suc f) d (enc_string v @ t) = Some (JStr (escape_string v), t)"
  using scan_escape [of v t] by (simp add: enc_string_def)

lemma parse_number:
  assumes "0 < n" and "c \<noteq> CHR ''.''" "c \<noteq> CHR ''e''" "c \<noteq> CHR ''E''" "\<not> is_digit c"
  shows "parse_value (Suc f) d (dec_nat n @ c # t) = Some (JNum (dec_nat n), c # t)"
proof -
  obtain x xs where d: "dec_nat n = x # xs" using dec_nat_hd [OF assms(1)] by (cases "dec_nat n") auto
  have "is_digit x" using dec_nat_is_digit [of n] d by simp
  then have "\<not> json_space x" "x \<notin> {CHR ''{'', CHR ''['', CHR 0x22, CHR ''t'', CHR ''f'', CHR ''n''}"
    by (auto simp: is_digit_def json_space_def)
  then show ?thesis using scan_num_dec [OF assms, of t] by (simp add: d)
qed

lemma parse_member:
  assumes "parse_value (Suc f) d (v @ CHR '','' # t) = Some (jv, CHR '','' # t)"
  shows "parse_members (Suc (Suc f)) d (enc_string k @ CHR '':'' # v @ CHR '','' # t) =
    map_option (\<lambda>(ms, w). ((escape_string k, jv) # ms, w)) (parse_members (Suc f) d t)"
  using scan_escape [of k "CHR '':'' # v @ CHR '','' # t"] assms by (simp add: enc_string_def)

lemma parse_last_member:
  assumes "parse_value (Suc f) d (v @ CHR ''}'' # t) = Some (jv, CHR ''}'' # t)"
  shows "parse_members (Suc (Suc f)) d (enc_string k @ CHR '':'' # v @ CHR ''}'' # t) = Some ([(escape_string k, jv)], t)"
  using scan_escape [of k "CHR '':'' # v @ CHR ''}'' # t"] assms by (simp add: enc_string_def)

lemma proof_keys:
  "escape_string ''operationID'' = ''operationID''" "escape_string ''sourceRevision'' = ''sourceRevision''"
  "escape_string ''mutationDigest'' = ''mutationDigest''"
  by code_simp+

lemma proof_key_matches:
  "key_matches ''operationID'' ''operationID''" "\<not> key_matches ''operationID'' ''sourceRevision''"
  "key_matches ''sourceRevision'' ''sourceRevision''" "\<not> key_matches ''operationID'' ''mutationDigest''"
  "\<not> key_matches ''sourceRevision'' ''mutationDigest''" "key_matches ''mutationDigest'' ''mutationDigest''"
  by code_simp+

lemma parse_uint64_dec: "n < 2 ^ 64 \<Longrightarrow> 0 < n \<Longrightarrow> parse_uint64 (dec_nat n) = Some (of_nat n)"
  using dec_nat_is_digit [of n] dec_nat_hd [of n] by (simp add: parse_uint64_def)

lemma unmarshal_marshal:
  assumes "ip_SourceRevision p \<noteq> 0"
  shows "unmarshal_proof (marshal_proof p) = Some (p\<lparr>ip_OperationID := unquote (escape_string (ip_OperationID p)),
    ip_MutationDigest := unquote (escape_string (ip_MutationDigest p))\<rparr>)"
proof -
  define n where "n = unat (ip_SourceRevision p)"
  have n: "0 < n" "n < 2 ^ 64" "of_nat n = ip_SourceRevision p"
    using assms unsigned_less [of "ip_SourceRevision p", where ?'a = nat] by (simp_all add: n_def unat_gt_0)
  define body where "body = enc_string ''operationID'' @ CHR '':'' # enc_string (ip_OperationID p) @ CHR '','' #
    (enc_string ''sourceRevision'' @ CHR '':'' # dec_nat n @ CHR '','' #
     (enc_string ''mutationDigest'' @ CHR '':'' # enc_string (ip_MutationDigest p) @ CHR ''}'' # []))"
  have s: "marshal_proof p = CHR ''{'' # body" by (simp add: marshal_proof_def enc_obj_def body_def dec_u64_def n_def)
  have members: "parse_members (Suc (Suc (Suc (Suc f)))) (Suc 0) body = Some ([(''operationID'', JStr (escape_string (ip_OperationID p))),
      (''sourceRevision'', JNum (dec_nat n)), (''mutationDigest'', JStr (escape_string (ip_MutationDigest p)))], [])" for f
    unfolding body_def
    by (simp add: parse_member parse_last_member parse_string parse_number [OF n(1)] is_digit_def proof_keys del: parse_value.simps parse_members.simps escape_string.simps)
  have "skip_ws body = CHR 0x22 # tl body" by (simp add: body_def enc_string_def)
  moreover obtain f where "2 * length (marshal_proof p) = Suc (Suc (Suc (Suc (Suc f))))"
    by (rule that [of "2 * length (marshal_proof p) - 5"]) (simp add: s body_def enc_string_def)
  ultimately have "parse_json (marshal_proof p) = Some (JObj [(''operationID'', JStr (escape_string (ip_OperationID p))),
      (''sourceRevision'', JNum (dec_nat n)), (''mutationDigest'', JStr (escape_string (ip_MutationDigest p)))])"
    unfolding parse_json_def by (simp add: s max_nesting_def skip_ws_def [of "[]"] members [of "Suc f"] del: escape_string.simps parse_members.simps)
  then show ?thesis
    using n by (cases p) (simp add: unmarshal_proof_def zero_proof_def proof_key_matches parse_uint64_dec)
qed

lemma unmarshal_marshal_proof:
  assumes "valid_utf8 (ip_OperationID p)" and "valid_utf8 (ip_MutationDigest p)" and "ip_SourceRevision p \<noteq> 0"
  shows "unmarshal_proof (marshal_proof p) = Some p"
  using unmarshal_marshal [OF assms(3)] assms(1,2) by (simp add: unquote_escape)

lemma valid_utf8_ascii: "\<forall>c\<in>set s. (of_char c :: nat) < 128 \<Longrightarrow> valid_utf8 s"
  by (induction s) (simp_all add: rune_len_eq)

lemma valid_utf8_digest [simp]: "valid_utf8 (sha256_hex s)"
  using graphic_hex_encode [of _ "sha256 s"] by (intro valid_utf8_ascii) (fastforce simp: sha256_hex_def graphic_def)

text \<open>The evidence event of an identified write is read back as its proof.\<close>

lemma event_proof_marshal:
  assumes "validApplyOperation (ip_OperationID p) (ip_SourceRevision p)" and "valid_utf8 (ip_OperationID p)"
    and "ip_MutationDigest p = sha256_hex x" and "ev_Data event = marshal_proof p"
  shows "event_proof event = Some p"
proof -
  have "unmarshal_proof (marshal_proof p) = Some p"
    using assms by (intro unmarshal_marshal_proof) (simp_all add: validApplyOperation_def)
  moreover have "marshal_proof p \<noteq> []" by (simp add: marshal_proof_def enc_obj_def)
  ultimately show ?thesis using assms by (simp add: event_proof_def)
qed

subsection \<open>The proofs of a journal\<close>

definition evidence :: "Event list \<Rightarrow> identifiedApplyProof option list" where
  "evidence j = map event_proof (filter (\<lambda>event. ev_Type event = identifiedApplyEventType) j)"

definition own_proofs :: "string \<Rightarrow> Event list \<Rightarrow> identifiedApplyProof list" where
  "own_proofs op j = filter (\<lambda>p. ip_OperationID p = op) (map the (evidence j))"

definition well_formed_evidence :: "Event list \<Rightarrow> bool" where
  "well_formed_evidence j \<longleftrightarrow> None \<notin> set (evidence j)"

lemma evidence_append [simp]: "evidence (xs @ ys) = evidence xs @ evidence ys"
  by (simp add: evidence_def)

lemma own_proofs_append [simp]: "own_proofs op (xs @ ys) = own_proofs op xs @ own_proofs op ys"
  by (simp add: own_proofs_def)

lemma well_formed_append [simp]: "well_formed_evidence (xs @ ys) \<longleftrightarrow> well_formed_evidence xs \<and> well_formed_evidence ys"
  by (simp add: well_formed_evidence_def)

lemma evidence_Nil [simp]: "evidence [] = []" "own_proofs op [] = []" "well_formed_evidence []"
  by (simp_all add: evidence_def own_proofs_def well_formed_evidence_def)

text \<open>Consecutive events that start after \<open>a\<close>.\<close>

fun numbered :: "int \<Rightarrow> Event list \<Rightarrow> bool" where
  "numbered a [] \<longleftrightarrow> True"
| "numbered a (event # events) \<longleftrightarrow> ev_Seq event = a + 1 \<and> numbered (a + 1) events"

lemma numbered_append: "numbered a (xs @ ys) \<longleftrightarrow> numbered a xs \<and> numbered (a + int (length xs)) ys"
  by (induction xs arbitrary: a) (simp_all add: add.assoc add.commute)

lemma numbered_journal: "wf_journal j \<Longrightarrow> numbered 0 j"
proof (induction j rule: rev_induct)
  case (snoc x xs)
  then have "wf_journal xs" "ev_Seq x = int (length xs) + 1"
    by (auto simp: wf_journal_def nth_append dest: spec [of _ "length xs"] split: if_splits)
  then show ?case using snoc.IH by (simp add: numbered_append)
qed simp

lemma numbered_drop: "wf_journal j \<Longrightarrow> n \<le> length j \<Longrightarrow> numbered (int n) (drop n j)"
  using numbered_journal [of j] numbered_append [of 0 "take n j" "drop n j"] by simp

lemma numbered_take: "numbered a xs \<Longrightarrow> numbered a (take n xs)"
  using numbered_append [of a "take n xs" "drop n xs"] by simp

text \<open>One pass over consecutive events up to the head succeeds exactly when all proofs are
  well formed and the operation occurs at most once, and then as this very write.\<close>

lemma scan_page_iff:
  assumes "numbered a js" and "a + int (length js) \<le> head"
  shows "scan_page op e h head a m js = Inr (a', m') \<longleftrightarrow>
    a' = a + int (length js) \<and> well_formed_evidence js \<and>
    (own_proofs op js = [] \<and> m' = m \<or>
     \<not> m \<and> m' \<and> own_proofs op js = [\<lparr>ip_OperationID = op, ip_SourceRevision = e, ip_MutationDigest = h\<rparr>])"
  using assms
proof (induction js arbitrary: a m)
  case (Cons event js)
  note IH = Cons.IH [of "a + 1"]
  from Cons.prems have p: "numbered (a + 1) js" "a + 1 + int (length js) \<le> head" "ev_Seq event = a + 1" "\<not> head < a + 1" by simp_all
  show ?case
  proof (cases "ev_Type event = identifiedApplyEventType")
    case False
    then show ?thesis using IH [OF p(1,2)] p(3,4)
      by (simp add: evidence_def own_proofs_def well_formed_evidence_def) (auto simp: algebra_simps)
  next
    case True
    show ?thesis
    proof (cases "event_proof event")
      case None
      then show ?thesis using True p(3,4) by (simp add: evidence_def well_formed_evidence_def)
    next
      case (Some q)
      then show ?thesis using True IH [OF p(1,2)] p(3,4)
        by (cases q) (auto simp: evidence_def own_proofs_def well_formed_evidence_def algebra_simps)
    qed
  qed
qed auto

lemma scan_page_append:
  assumes "numbered a xs" and "a + int (length xs) \<le> head"
  shows "scan_page op e h head a m (xs @ ys) = (case scan_page op e h head a m xs of
      Inl err \<Rightarrow> Inl err | Inr (a', m') \<Rightarrow> scan_page op e h head a' m' ys)"
  using assms by (induction xs arbitrary: a m) (auto split: option.splits)

lemma scan_page_beyond: "numbered a ys \<Longrightarrow> head \<le> a \<Longrightarrow> scan_page op e h head a m ys = Inr (a, m)"
  by (cases ys) simp_all

subsection \<open>Paged verification\<close>

lemma page_read:
  assumes "st_records s (trim_space r) \<noteq> None" and "\<not> blank r"
  shows "rt_ListEvents memory_port r (int n) 512 s = Inr (take 512 (drop n (st_events s (trim_space r))))"
  using assms by (auto simp: rt_ListEvents_def ListEvents_def Let_def blank_def trim_space_idem)

text \<open>The pages come from journals that extend the one at the load.\<close>

lemma verify_loop_journal:
  assumes "\<And>k. st_records (ss k) (trim_space r) \<noteq> None" and "\<not> blank r"
    and "\<And>k. wf_journal (st_events (ss k) (trim_space r))"
    and "\<And>k. prefix j (st_events (ss k) (trim_space r))"
  shows "n \<le> length j \<Longrightarrow> verify_loop memory_port (\<lambda>_. None) r op e h (int (length j)) ss k (int n) m =
    (case scan_page op e h (int (length j)) (int n) m (drop n j) of Inl err \<Rightarrow> Inl err | Inr (a, m') \<Rightarrow> Inr m')"
proof (induction "length j - n" arbitrary: n k m rule: less_induct)
  case less
  show ?case
  proof (cases "n = length j")
    case True
    then show ?thesis by (subst verify_loop.simps) simp
  next
    case False
    with less.prems have n: "n < length j" by simp
    define page where "page = take 512 (drop n j)"
    obtain more where more: "st_events (ss k) (trim_space r) = j @ more" using assms(4) [of k] by (auto simp: prefix_def)
    define rest where "rest = take (512 - length (drop n j)) more"
    have read: "rt_ListEvents memory_port r (int n) 512 (ss k) = Inr (page @ rest)"
      using page_read [OF assms(1) [of k] assms(2), of n] n by (simp add: more page_def rest_def)
    have len: "0 < length page" "n + length page \<le> length j" "length page = 512 \<or> n + length page = length j"
      using n by (auto simp: page_def min_def)
    have num: "numbered (int n) (page @ rest)"
      using numbered_take [OF numbered_drop [OF assms(3) [of k], of n], of 512] n by (simp add: more page_def rest_def)
    have nums: "numbered (int n) page" "numbered (int n + int (length page)) rest" using num by (simp_all add: numbered_append)
    have "rest = [] \<or> n + length page = length j" using n by (auto simp: rest_def page_def min_def)
    then have beyond: "scan_page op e h (int (length j)) (int n + int (length page)) m' rest = Inr (int n + int (length page), m')" for m'
      using nums(2) by (auto intro: scan_page_beyond)
    have split: "drop n j = page @ drop (n + length page) j"
      using n by (simp add: page_def min_def) (metis append_take_drop_id drop_drop add.commute)
    have hd: "page @ rest \<noteq> []" "ev_Seq (hd (page @ rest)) = int n + 1" using len(1) num by (cases page; simp)+
    show ?thesis
    proof (cases "scan_page op e h (int (length j)) (int n) m page")
      case (Inl err)
      then show ?thesis using n read hd scan_page_append [OF nums(1)] len(2)
        by (subst verify_loop.simps) (auto simp: split)
    next
      case (Inr v)
      obtain a' m' where v: "v = (a', m')" by (cases v)
      have a': "a' = int (n + length page)"
        using Inr v scan_page_iff [OF nums(1), of "int (length j)"] len(2) by auto
      have "verify_loop memory_port (\<lambda>_. None) r op e h (int (length j)) ss k (int n) m =
          verify_loop memory_port (\<lambda>_. None) r op e h (int (length j)) ss (Suc k) (int (n + length page)) m'"
        using n read hd scan_page_append [OF nums(1), of "int (length j)" op e h m rest] len(2) Inr v a' beyond
        by (subst verify_loop.simps) auto
      also have "\<dots> = (case scan_page op e h (int (length j)) (int (n + length page)) m' (drop (n + length page) j) of
          Inl err \<Rightarrow> Inl err | Inr (a, m') \<Rightarrow> Inr m')"
        by (rule less.hyps) (use len(1,2) n in linarith)+
      also have "\<dots> = (case scan_page op e h (int (length j)) (int n) m (drop n j) of Inl err \<Rightarrow> Inl err | Inr (a, m') \<Rightarrow> Inr m')"
        using scan_page_append [OF nums(1), of "int (length j)" op e h m "drop (n + length page) j"] len(2) Inr v a' split by simp
      finally show ?thesis .
    qed
  qed
qed

end
