(* ===== verification/Apply_Evidence_Properties.thy ===== *)
theory Apply_Evidence_Properties
  imports Apply_Evidence_Facts
begin

text \<open>
  What identified writes promise while all callers of the kernel interleave: the verification tells
  what the journal says, an operation commits at most once on a run, and a committed operation is
  recognised at every later time.

  \<open>itrace\<close> is an execution as the list of its states: the steps of \<open>Kernel_System\<close> whose writes carry
  no evidence, and the preparation of an identified write after a verification that read earlier
  states of the same execution, for an operation ID of the set \<open>Ops\<close>.
\<close>

subsection \<open>The verdict\<close>

lemma verify_loop_live:
  "verify_loop port cxs r op e h head ss k a m = Inr m' \<Longrightarrow> verify_loop port (\<lambda>_. None) r op e h head ss k a m = Inr m'"
proof (induction port cxs r op e h head ss k a m rule: verify_loop.induct)
  case (1 port cxs r op e h head ss k a m)
  show ?case
  proof (cases "a < head")
    case False
    then show ?thesis using "1.prems" by (simp add: verify_loop.simps [of port _ r op e h head ss k a])
  next
    case True
    with "1.prems" obtain events a1 m1 where
      s: "cxs k = None" "rt_ListEvents port r a 512 (ss k) = Inr events" "events \<noteq> []" "ev_Seq (hd events) = a + 1"
        "scan_page op e h head a m events = Inr (a1, m1)"
        "verify_loop port cxs r op e h head ss (Suc k) a1 m1 = Inr m'"
      by (subst (asm) verify_loop.simps) (auto split: option.splits sum.splits if_splits)
    then show ?thesis using "1.IH" [OF True s(1,2) _ s(5) refl s(6)] True
      by (simp add: verify_loop.simps [of port "\<lambda>_. None" r op e h head ss k a])
  qed
qed

lemma VerifyIdentifiedApply_live:
  "VerifyIdentifiedApply port cx cxs r e op m s ss = Inr v \<Longrightarrow> VerifyIdentifiedApply port cx (\<lambda>_. None) r e op m s ss = Inr v"
  by (auto simp: VerifyIdentifiedApply_def Let_def split: if_splits sum.splits dest: verify_loop_live)

definition journal_evidence :: "string \<Rightarrow> u64 \<Rightarrow> string \<Rightarrow> Event list \<Rightarrow> u64 \<Rightarrow> ApplyEvidence \<Rightarrow> bool" where
  "journal_evidence op e h j revision v \<longleftrightarrow> well_formed_evidence j \<and>
     (own_proofs op j = [\<lparr>ip_OperationID = op, ip_SourceRevision = e, ip_MutationDigest = h\<rparr>] \<and> e < revision \<and>
        v = \<lparr>ae_Status = ApplyEvidenceCommitted, ae_CommittedRevision = e + 1, ae_CurrentRevision = revision\<rparr> \<or>
      own_proofs op j = [] \<and> revision = e \<and>
        v = \<lparr>ae_Status = ApplyEvidenceRetryableCAS, ae_CommittedRevision = 0, ae_CurrentRevision = revision\<rparr>)"

lemma verdict:
  assumes inv: "sys_inv \<sigma>" and cur: "st_records (sys_store \<sigma>) (trim_space r) = Some cur" and "\<And>k. ksteps \<sigma> (\<tau> k)"
    and op: "cx \<noteq> CtxNil" "validApplyOperation op e" "digestApplyMutation m = Inr h"
  shows "VerifyIdentifiedApply memory_port cx (\<lambda>_. None) r e op m (sys_store \<sigma>) (\<lambda>k. sys_store (\<tau> k)) = Inr v \<longleftrightarrow>
    journal_evidence op e h (st_events (sys_store \<sigma>) (trim_space r)) (run_Revision (sn_Run cur)) v"
proof -
  define j where "j = st_events (sys_store \<sigma>) (trim_space r)"
  have wf: "wf_journal j" "\<not> blank r" "sn_EventHead cur = int (length j)"
    using inv cur by (auto simp: sys_inv_def rec_wf_def j_def blank_def dest: spec [of _ "trim_space r"] split: option.splits)
  have later: "st_records (sys_store (\<tau> k)) (trim_space r) \<noteq> None \<and> prefix j (st_events (sys_store (\<tau> k)) (trim_space r)) \<and>
      wf_journal (st_events (sys_store (\<tau> k)) (trim_space r))" for k
    using run_follows_steps [OF assms(3) inv cur, of k] sys_inv_steps [OF assms(3) inv, of k]
    by (auto simp: run_follows_def sys_inv_def rec_wf_def j_def)
  have loop: "verify_loop memory_port (\<lambda>_. None) r op e h (int (length j)) (\<lambda>k. sys_store (\<tau> k)) 0 0 False =
      (case scan_page op e h (int (length j)) 0 False j of Inl err \<Rightarrow> Inl err | Inr (a, m') \<Rightarrow> Inr m')"
    using verify_loop_journal [of "\<lambda>k. sys_store (\<tau> k)" r j 0 op e h 0 False] later wf(2) by simp
  have load: "rt_Load memory_port r (sys_store \<sigma>) = Inr cur" using cur wf(2) by (simp add: rt_Load_def Load_def)
  have scan: "scan_page op e h (int (length j)) 0 False j = Inr (a, m') \<longleftrightarrow> a = int (length j) \<and> well_formed_evidence j \<and>
      (own_proofs op j = [] \<and> \<not> m' \<or> m' \<and> own_proofs op j = [\<lparr>ip_OperationID = op, ip_SourceRevision = e, ip_MutationDigest = h\<rparr>])" for a m'
    using scan_page_iff [OF numbered_journal [OF wf(1)], of "int (length j)" op e h False a m'] by auto
  show ?thesis
  proof (cases "scan_page op e h (int (length j)) 0 False j")
    case (Inl err)
    then have "\<not> journal_evidence op e h j (run_Revision (sn_Run cur)) v"
      using scan [of "int (length j)" False] scan [of "int (length j)" True] by (auto simp: journal_evidence_def)
    then show ?thesis using op wf(2,3) by (simp add: VerifyIdentifiedApply_def Let_def load loop Inl flip: j_def)
  next
    case (Inr am)
    obtain a m' where am: "am = (a, m')" by (cases am)
    have "well_formed_evidence j"
      "if m' then own_proofs op j = [\<lparr>ip_OperationID = op, ip_SourceRevision = e, ip_MutationDigest = h\<rparr>] else own_proofs op j = []"
      using scan [of a m'] Inr am by (auto split: if_splits)
    then show ?thesis using op wf(2,3)
      by (cases m') (auto simp: VerifyIdentifiedApply_def Let_def load loop Inr am journal_evidence_def simp flip: j_def)
  qed
qed

subsection \<open>How journals grow\<close>

definition pending_events :: "pending \<Rightarrow> EventDraft list" where
  "pending_events p = (case p of PendingApply r e m b \<Rightarrow> sm_Events m | PendingControl r e g m \<Rightarrow> sm_Events m)"

lemma commit_cases:
  assumes "apply_commit memory_port cx b r e m s = (s', res)" and "pending_ok s (PendingApply r e m b)" and "\<And>q. rec_wf s q"
  obtains "s' = s"
  | c where "st_records s (trim_space r) = Some c" "run_Revision (sn_Run c) = e" "s' = commit_state (trim_space r) m s"
proof (cases res)
  case (Inl err)
  then have "s' = s" using assms(1)
    by (auto simp: apply_commit_def split: option.splits dest: Apply_err ApplyExecution_err)
  then show thesis by (rule that(1))
next
  case (Inr sn)
  have trim: "trim_space k = k" if "st_records s k = Some c" for k c
    using assms(3) [of k] that by (simp add: rec_wf_def)
  show thesis
  proof (cases b)
    case None
    with Inr assms(1) obtain c where "st_records s r = Some c" "run_Revision (sn_Run c) = e" "s' = commit_state r m s"
      by (auto simp: apply_commit_def Apply_ok)
    with trim show thesis using that(2) by metis
  next
    case (Some l)
    with Inr assms(1) have "ApplyExecution cx l e m s = (s', Inr sn)" by (simp add: apply_commit_def)
    from ApplyExecution_ok [OF this] Some assms(2) show thesis using that(2) by (auto simp: pending_ok_def)
  qed
qed

lemma control_cases:
  assumes "control_commit memory_port cx r e g m s = (s', res)" and "\<And>q. rec_wf s q"
  obtains "s' = s"
  | c where "st_records s (trim_space r) = Some c" "run_Revision (sn_Run c) = e"
      "s' = commit_state (trim_space r) m (revoke (trim_space r) s)"
proof (cases res)
  case (Inl err)
  then show thesis using that(1) control_commit_err [of cx r e g m s s' err] assms(1) by simp
next
  case (Inr v)
  then obtain sn rv where "ApplyControl cx r e g m s = (s', Inr (sn, rv))"
    using control_commit_ok assms(1) by (cases v) simp
  from ApplyControl_ok [OF this] obtain c where c: "st_records s r = Some c" "run_Revision (sn_Run c) = e"
    "s' = commit_state r m (revoke r s)" by blast
  moreover have "trim_space r = r" using assms(2) [of r] c(1) by (simp add: rec_wf_def)
  ultimately show thesis using that(2) by simp
qed

lemma create_events:
  assumes "rt_Create memory_port now newID req s = (s', res)" and "\<And>q. rec_wf s q"
  shows "st_events s' q = st_events s q \<or>
    (\<exists>ds t. st_events s' q = appendEvents (st_events s q) ds t \<and> \<not> hasReservedApplyEvidence ds)"
proof (cases "s' = s")
  case False
  then obtain rc es where c: "Create rc es s = (s', res)" "\<not> hasReservedApplyEvidence es"
    using assms(1) unfolding rt_Create_def
    by (auto split: if_splits sum.splits simp: hasReservedApplyEvidence_def run_created_draft_def identifiedApplyEventType_def)
  have none: "st_records s q = None \<Longrightarrow> st_events s q = []" using assms(2) [of q] by (simp add: rec_wf_def)
  from Create_cases [OF c(1)] False none have "st_events s' q = st_events s q \<or>
      st_events s' q = appendEvents (st_events s q) es (run_UpdatedAt (rec_Run rc))"
    by (cases "q = run_ID (rec_Run rc)") auto
  with c(2) show ?thesis by blast
qed simp

definition journal_grows :: "Sys \<Rightarrow> Store \<Rightarrow> string \<Rightarrow> bool" where
  "journal_grows \<sigma> s' q \<longleftrightarrow> st_events s' q = st_events (sys_store \<sigma>) q \<or>
     (\<exists>ds t. st_events s' q = appendEvents (st_events (sys_store \<sigma>) q) ds t \<and>
        (\<not> hasReservedApplyEvidence ds \<or>
         (\<exists>p\<in>sys_pending \<sigma>. ds = pending_events p \<and> pending_run p = q \<and>
            (\<exists>cur. st_records (sys_store \<sigma>) q = Some cur \<and> run_Revision (sn_Run cur) = pending_revision p))))"

lemma journal_grows_commit:
  assumes "p \<in> sys_pending \<sigma>" and "st_records (sys_store \<sigma>) (pending_run p) = Some c"
    and "run_Revision (sn_Run c) = pending_revision p" and "sm_Events m = pending_events p"
    and "st_events s1 = st_events (sys_store \<sigma>)"
  shows "journal_grows \<sigma> (commit_state (pending_run p) m s1) q"
  using assms by (cases "q = pending_run p") (auto simp: journal_grows_def)

lemma kstep_journal:
  assumes "kstep \<sigma> \<tau>" and inv: "sys_inv \<sigma>"
  shows "journal_grows \<sigma> (sys_store \<tau>) q"
  using assms(1)
proof cases
  case (K_create newID now req s' res)
  have "rec_wf (sys_store \<sigma>) x" for x using inv by (simp add: sys_inv_def)
  from create_events [OF K_create(3) this, of q] K_create(1) show ?thesis by (auto simp: journal_grows_def)
next
  case (K_commit r e m b cx s' res)
  with inv have p: "pending_ok (sys_store \<sigma>) (PendingApply r e m b)" "\<And>x. rec_wf (sys_store \<sigma>) x" by (auto simp: sys_inv_def)
  from K_commit(3) p show ?thesis
  proof (cases rule: commit_cases)
    case (2 c)
    then show ?thesis using journal_grows_commit [OF K_commit(2), of c m "sys_store \<sigma>" q] K_commit(1)
      by (simp add: pending_run_def pending_revision_def pending_events_def)
  qed (use K_commit(1) in \<open>simp add: journal_grows_def\<close>)
next
  case (K_control_commit r e g m cx s' res)
  with inv have p: "\<And>x. rec_wf (sys_store \<sigma>) x" by (auto simp: sys_inv_def)
  from K_control_commit(3) p show ?thesis
  proof (cases rule: control_cases)
    case (2 c)
    then show ?thesis using journal_grows_commit [OF K_control_commit(2), of c m "revoke (trim_space r) (sys_store \<sigma>)" q] K_control_commit(1)
      by (simp add: pending_run_def pending_revision_def pending_events_def)
  qed (use K_control_commit(1) in \<open>simp add: journal_grows_def\<close>)
qed (auto simp: journal_grows_def dest: lease_frame outbox_frame)

subsection \<open>Executions with identified writes\<close>

inductive itrace :: "string set \<Rightarrow> Sys list \<Rightarrow> bool" for Ops :: "string set" where
  I_init: "itrace Ops [init_sys t]"
| I_kernel: "itrace Ops tr \<Longrightarrow> kstep' (last tr) \<tau> \<Longrightarrow>
     \<forall>p\<in>sys_pending \<tau> - sys_pending (last tr). \<not> hasReservedApplyEvidence (pending_events p) \<Longrightarrow>
     itrace Ops (tr @ [\<tau>])"
| I_identified: "itrace Ops tr \<Longrightarrow> i < length tr \<Longrightarrow> \<forall>k. i \<le> pg k \<and> pg k < length tr \<Longrightarrow>
     VerifyIdentifiedApply memory_port cx cxs r e op m (sys_store (tr ! i)) (\<lambda>k. sys_store (tr ! pg k)) = Inr outcome \<Longrightarrow>
     ae_Status outcome \<noteq> ApplyEvidenceCommitted \<Longrightarrow> digestApplyMutation m = Inr h \<Longrightarrow> op \<in> Ops \<Longrightarrow>
     revisions_below_max (sys_store (last tr)) \<Longrightarrow>
     apply_prepare memory_port b now r e (with_evidence op e h m) True (sys_store (last tr)) = Inr proposed \<Longrightarrow>
     itrace Ops (tr @ [(last tr)\<lparr>sys_pending := insert (PendingApply r e proposed b) (sys_pending (last tr))\<rparr>])"

lemma chain_snoc:
  assumes "\<forall>n. Suc n < length tr \<longrightarrow> kstep' (tr ! n) (tr ! Suc n)" and "tr \<noteq> []" and "kstep' (last tr) x"
  shows "\<forall>n. Suc n < length (tr @ [x]) \<longrightarrow> kstep' ((tr @ [x]) ! n) ((tr @ [x]) ! Suc n)"
proof (intro allI impI)
  fix n
  assume n: "Suc n < length (tr @ [x])"
  show "kstep' ((tr @ [x]) ! n) ((tr @ [x]) ! Suc n)"
  proof (cases "Suc n = length tr")
    case True
    then have "last tr = tr ! n" using assms(2) by (simp add: last_conv_nth flip: True)
    then show ?thesis using True assms(3) by (simp add: nth_append)
  qed (use n assms(1) in \<open>simp add: nth_append\<close>)
qed

lemma itrace_step: "itrace Ops tr \<Longrightarrow> tr \<noteq> [] \<and> reach (hd tr) \<and> (\<forall>n. Suc n < length tr \<longrightarrow> kstep' (tr ! n) (tr ! Suc n))"
proof (induction rule: itrace.induct)
  case (I_init t)
  then show ?case by (auto simp: reach_def)
next
  case (I_kernel tr \<tau>)
  then show ?case using chain_snoc [of tr \<tau>] by simp
next
  case (I_identified tr i pg cx cxs r e op m outcome h b now proposed)
  have "kstep' (last tr) ((last tr)\<lparr>sys_pending := insert (PendingApply r e proposed b) (sys_pending (last tr))\<rparr>)"
    using kstep.K_prepare [OF I_identified.hyps(9)] I_identified.hyps(8) by (simp add: kstep'_def)
  then show ?case using I_identified.IH chain_snoc [of tr] by simp
qed

lemma itrace_steps:
  assumes "itrace Ops tr" and "i \<le> n" and "n < length tr"
  shows "ksteps (tr ! i) (tr ! n)"
  using assms(2,3)
proof (induction n)
  case (Suc n)
  show ?case
  proof (cases "i = Suc n")
    case False
    then have "ksteps (tr ! i) (tr ! n)" using Suc by simp
    moreover have "kstep' (tr ! n) (tr ! Suc n)" using itrace_step [OF assms(1)] Suc.prems by blast
    ultimately show ?thesis by simp
  qed simp
qed simp

lemma itrace_reach: "itrace Ops tr \<Longrightarrow> n < length tr \<Longrightarrow> reach (tr ! n)"
  using itrace_step [of Ops tr] itrace_steps [of Ops tr 0 n] reach_steps [of "hd tr" "tr ! n"] by (auto simp: hd_conv_nth)

lemma itrace_last: "itrace Ops tr \<Longrightarrow> last tr = tr ! (length tr - 1) \<and> length tr - 1 < length tr"
  using itrace_step [of Ops tr] by (simp add: last_conv_nth)

definition readable :: "identifiedApplyProof \<Rightarrow> bool" where
  "readable p \<longleftrightarrow> validApplyOperation (ip_OperationID p) (ip_SourceRevision p) \<and> valid_utf8 (ip_OperationID p) \<and>
     (\<exists>x. ip_MutationDigest p = sha256_hex x)"

lemma evidence_plain: "\<not> hasReservedApplyEvidence ds \<Longrightarrow> evidence (appendEvents j ds t) = evidence j"
  by (induction j ds t rule: appendEvents.induct) (auto simp: hasReservedApplyEvidence_def evidence_def)

lemma appendEvents_append: "appendEvents j (ds @ es) t = appendEvents (appendEvents j ds t) es t"
  by (induction j ds t rule: appendEvents.induct) simp_all

lemma evidence_identified:
  assumes "\<not> hasReservedApplyEvidence ds" and "readable p"
  shows "evidence (appendEvents j (ds @ [evidence_draft p]) t) = evidence j @ [Some p]"
proof -
  have "event_proof event = Some p" if "ev_Data event = marshal_proof p" for event
    using assms(2) event_proof_marshal [OF _ _ _ that] by (auto simp: readable_def)
  then show ?thesis using evidence_plain [OF assms(1), of j t]
    by (simp add: appendEvents_append) (simp add: evidence_def evidence_draft_def)
qed

text \<open>The operation is not in the journal at revision \<open>e\<close>, or the run has moved on.\<close>

definition fresh_operation :: "Store \<Rightarrow> string \<Rightarrow> u64 \<Rightarrow> string \<Rightarrow> bool" where
  "fresh_operation s r e op \<longleftrightarrow> (\<exists>sn. st_records s r = Some sn \<and>
     (run_Revision (sn_Run sn) = e \<and> own_proofs op (st_events s r) = [] \<or> e < run_Revision (sn_Run sn)))"

lemma fresh_operation_steps:
  assumes "ksteps \<sigma> \<tau>" and "sys_inv \<sigma>" and "fresh_operation (sys_store \<sigma>) r e op"
  shows "fresh_operation (sys_store \<tau>) r e op"
proof -
  from assms(3) obtain sn where sn: "st_records (sys_store \<sigma>) r = Some sn"
    "run_Revision (sn_Run sn) = e \<and> own_proofs op (st_events (sys_store \<sigma>) r) = [] \<or> e < run_Revision (sn_Run sn)"
    by (auto simp: fresh_operation_def)
  from run_follows_steps [OF assms(1,2) sn(1)] obtain nx where "st_records (sys_store \<tau>) r = Some nx"
    "nx = sn \<and> st_events (sys_store \<tau>) r = st_events (sys_store \<sigma>) r \<or> run_Revision (sn_Run sn) < run_Revision (sn_Run nx)"
    by (auto simp: run_follows_def)
  then show ?thesis using sn(2) unfolding fresh_operation_def by (metis order_less_trans)
qed

definition evidence_ok :: "Store \<Rightarrow> pending \<Rightarrow> bool" where
  "evidence_ok s p \<longleftrightarrow> \<not> hasReservedApplyEvidence (pending_events p) \<or>
     (\<exists>ds pr. pending_events p = ds @ [evidence_draft pr] \<and> \<not> hasReservedApplyEvidence ds \<and> readable pr \<and>
        fresh_operation s (pending_run p) (pending_revision p) (ip_OperationID pr))"

definition evidence_inv :: "Sys \<Rightarrow> bool" where
  "evidence_inv \<sigma> \<longleftrightarrow>
     (\<forall>r. well_formed_evidence (st_events (sys_store \<sigma>) r) \<and> (\<forall>op. length (own_proofs op (st_events (sys_store \<sigma>) r)) \<le> 1)) \<and>
     (\<forall>p\<in>sys_pending \<sigma>. evidence_ok (sys_store \<sigma>) p)"

lemma evidence_ok_step:
  assumes "kstep' \<sigma> \<tau>" and "sys_inv \<sigma>" and "evidence_ok (sys_store \<sigma>) p"
  shows "evidence_ok (sys_store \<tau>) p"
proof -
  have "fresh_operation (sys_store \<tau>) r e op" if "fresh_operation (sys_store \<sigma>) r e op" for r e op
    by (rule fresh_operation_steps [OF _ assms(2) that]) (use assms(1) in simp)
  then show ?thesis using assms(3) unfolding evidence_ok_def by blast
qed

text \<open>A write that commits at its revision carries an operation that the journal does not have.\<close>

lemma evidence_inv_step:
  assumes "kstep' \<sigma> \<tau>" and "sys_inv \<sigma>" and "evidence_inv \<sigma>"
    and "\<And>p. p \<in> sys_pending \<tau> \<Longrightarrow> p \<notin> sys_pending \<sigma> \<Longrightarrow> evidence_ok (sys_store \<tau>) p"
  shows "evidence_inv \<tau>"
proof -
  have "well_formed_evidence (st_events (sys_store \<tau>) q) \<and> length (own_proofs op (st_events (sys_store \<tau>) q)) \<le> 1" for q op
  proof -
    have old: "well_formed_evidence (st_events (sys_store \<sigma>) q)" "length (own_proofs op (st_events (sys_store \<sigma>) q)) \<le> 1"
      using assms(3) by (simp_all add: evidence_inv_def)
    have "journal_grows \<sigma> (sys_store \<tau>) q" using kstep_journal assms(1,2) by (simp add: kstep'_def)
    then consider "evidence (st_events (sys_store \<tau>) q) = evidence (st_events (sys_store \<sigma>) q)"
      | p pr where "p \<in> sys_pending \<sigma>" "pending_run p = q"
          "evidence (st_events (sys_store \<tau>) q) = evidence (st_events (sys_store \<sigma>) q) @ [Some pr]"
          "own_proofs (ip_OperationID pr) (st_events (sys_store \<sigma>) q) = []"
    proof (cases rule: journal_grows_def [THEN iffD1, THEN disjE, consumes 1])
      case 2
      then obtain ds t where ds: "st_events (sys_store \<tau>) q = appendEvents (st_events (sys_store \<sigma>) q) ds t"
        "\<not> hasReservedApplyEvidence ds \<or> (\<exists>p\<in>sys_pending \<sigma>. ds = pending_events p \<and> pending_run p = q \<and>
            (\<exists>cur. st_records (sys_store \<sigma>) q = Some cur \<and> run_Revision (sn_Run cur) = pending_revision p))" by blast
      show thesis
      proof (cases "hasReservedApplyEvidence ds")
        case False
        then show thesis using that(1) ds(1) by (simp add: evidence_plain)
      next
        case True
        with ds(2) obtain p cur where p: "p \<in> sys_pending \<sigma>" "ds = pending_events p" "pending_run p = q"
          "st_records (sys_store \<sigma>) q = Some cur" "run_Revision (sn_Run cur) = pending_revision p" by blast
        have "evidence_ok (sys_store \<sigma>) p" using assms(3) p(1) by (simp add: evidence_inv_def)
        with True p(2) obtain es pr where pr: "ds = es @ [evidence_draft pr]" "\<not> hasReservedApplyEvidence es" "readable pr"
          "fresh_operation (sys_store \<sigma>) (pending_run p) (pending_revision p) (ip_OperationID pr)" by (auto simp: evidence_ok_def)
        have "own_proofs (ip_OperationID pr) (st_events (sys_store \<sigma>) q) = []"
          using pr(4) p(3-5) by (auto simp: fresh_operation_def)
        then show thesis using that(2) [OF p(1,3)] evidence_identified [OF pr(2,3)] ds(1) pr(1) by simp
      qed
    qed (simp add: that(1))
    then show ?thesis using old by cases (auto simp: well_formed_evidence_def own_proofs_def filter_empty_conv)
  qed
  moreover have "evidence_ok (sys_store \<tau>) p" if "p \<in> sys_pending \<tau>" for p
    using assms(3,4) evidence_ok_step [OF assms(1,2), of p] that by (auto simp: evidence_inv_def)
  ultimately show ?thesis by (simp add: evidence_inv_def)
qed

lemma verify_fresh:
  assumes "sys_inv \<sigma>" and "\<And>k. ksteps \<sigma> (\<tau> k)"
    and v: "VerifyIdentifiedApply memory_port cx cxs r e op m (sys_store \<sigma>) (\<lambda>k. sys_store (\<tau> k)) = Inr outcome"
    and "ae_Status outcome \<noteq> ApplyEvidenceCommitted" and "digestApplyMutation m = Inr h"
  shows "validApplyOperation op e" and "fresh_operation (sys_store \<sigma>) (trim_space r) e op"
proof -
  from v have op: "cx \<noteq> CtxNil" "validApplyOperation op e" by (auto simp: VerifyIdentifiedApply_def split: if_splits)
  from v obtain cur where cur: "st_records (sys_store \<sigma>) (trim_space r) = Some cur"
    by (auto simp: VerifyIdentifiedApply_def rt_Load_def Load_def split: if_splits sum.splits option.splits)
  have "journal_evidence op e h (st_events (sys_store \<sigma>) (trim_space r)) (run_Revision (sn_Run cur)) outcome"
    using verdict [OF assms(1) cur assms(2) op assms(5)] VerifyIdentifiedApply_live [OF v] by simp
  then show "fresh_operation (sys_store \<sigma>) (trim_space r) e op"
    using assms(4) cur by (auto simp: journal_evidence_def fresh_operation_def)
qed (use v in \<open>auto simp: VerifyIdentifiedApply_def split: if_splits\<close>)

lemma digest_sha: "digestApplyMutation m = Inr h \<Longrightarrow> \<not> hasReservedApplyEvidence (mu_Events m) \<and> (\<exists>x. h = sha256_hex x)"
  by (auto simp: digestApplyMutation_def split: if_splits option.splits)

lemma prepare_events:
  "apply_prepare memory_port b now r e m x s = Inr proposed \<Longrightarrow> sm_Events proposed = mu_Events m"
  using mem.prepare_ok [of b now r e m x s proposed] by (auto simp: makeStoreMutation_def Let_def)

lemma itrace_inv:
  assumes "itrace Ops tr" and "\<forall>op\<in>Ops. valid_utf8 op"
  shows "\<sigma> \<in> set tr \<Longrightarrow> evidence_inv \<sigma>"
  using assms(1)
proof (induction arbitrary: \<sigma> rule: itrace.induct)
  case (I_init t)
  then show ?case by (simp add: evidence_inv_def init_sys_def NewStore_def)
next
  case (I_kernel tr \<tau>)
  have inv: "sys_inv (last tr)" "evidence_inv (last tr)"
    using itrace_last [OF I_kernel.hyps(1)] itrace_reach [OF I_kernel.hyps(1)] itrace_step [OF I_kernel.hyps(1)]
    by (auto intro: reach_inv I_kernel.IH)
  have "evidence_inv \<tau>"
    by (rule evidence_inv_step [OF I_kernel.hyps(2) inv]) (use I_kernel.hyps(3) in \<open>auto simp: evidence_ok_def\<close>)
  then show ?case using I_kernel.prems I_kernel.IH by auto
next
  case (I_identified tr i pg cx cxs r e op m outcome h b now proposed)
  let ?p = "PendingApply r e proposed b"
  let ?pr = "\<lparr>ip_OperationID = op, ip_SourceRevision = e, ip_MutationDigest = h\<rparr>"
  note it = I_identified.hyps(1)
  have inv: "sys_inv (last tr)" "evidence_inv (last tr)" "sys_inv (tr ! i)"
    using itrace_last [OF it] itrace_reach [OF it] itrace_step [OF it] I_identified.hyps(2)
    by (auto intro: reach_inv I_identified.IH)
  have steps: "ksteps (tr ! i) (tr ! pg k)" for k using itrace_steps [OF it] I_identified.hyps(3) by blast
  note fresh = verify_fresh [OF inv(3) steps I_identified.hyps(4,5,6)]
  have "ksteps (tr ! i) (last tr)" using itrace_steps [OF it, of i "length tr - 1"] itrace_last [OF it] I_identified.hyps(2) by simp
  from fresh_operation_steps [OF this inv(3) fresh(2)] have "evidence_ok (sys_store (last tr)) ?p"
    using fresh(1) digest_sha [OF I_identified.hyps(6)] prepare_events [OF I_identified.hyps(9)] I_identified.hyps(7) assms(2)
    unfolding evidence_ok_def
    by (intro disjI2 exI [of _ "mu_Events m"] exI [of _ ?pr])
      (simp add: pending_events_def pending_run_def pending_revision_def with_evidence_def readable_def)
  then have "evidence_inv ((last tr)\<lparr>sys_pending := insert ?p (sys_pending (last tr))\<rparr>)"
    using inv(2) by (simp add: evidence_inv_def)
  then show ?case using I_identified.prems I_identified.IH by auto
qed

text \<open>The journal holds a proof that all later verifications find.\<close>

lemma own_proofs_unique:
  assumes "evidence_inv \<sigma>" and "Some p \<in> set (evidence (st_events (sys_store \<sigma>) r))"
  shows "own_proofs (ip_OperationID p) (st_events (sys_store \<sigma>) r) = [p]"
proof -
  have "p \<in> set (own_proofs (ip_OperationID p) (st_events (sys_store \<sigma>) r))"
    using assms(2) by (force simp: own_proofs_def)
  moreover have "length (own_proofs (ip_OperationID p) (st_events (sys_store \<sigma>) r)) \<le> 1"
    using assms(1) by (simp add: evidence_inv_def)
  ultimately show ?thesis by (cases "own_proofs (ip_OperationID p) (st_events (sys_store \<sigma>) r)") auto
qed

text \<open>What a successful identified write leaves in the store.\<close>

lemma ApplyIdentified_ok:
  assumes "ApplyIdentified memory_port cx cxs b now r e op m s0 ss s = (s', Inr sn)" and "valid_utf8 op" and "sys_inv \<tau>"
    and "sys_store \<tau> = s'"
  shows "validApplyOperation op e" and "\<exists>h. digestApplyMutation m = Inr h \<and>
    Some \<lparr>ip_OperationID = op, ip_SourceRevision = e, ip_MutationDigest = h\<rparr> \<in> set (evidence (st_events s' (trim_space r)))"
    and "\<exists>cur. st_records s' (trim_space r) = Some cur \<and> run_Revision (sn_Run cur) = e + 1"
proof -
  show op: "validApplyOperation op e" using assms(1) by (simp add: ApplyIdentified_def split: if_splits)
  from assms(1) obtain h where h: "digestApplyMutation m = Inr h"
      "rt_apply memory_port cx b now r e (with_evidence op e h m) True s = (s', Inr sn)"
    by (auto simp: ApplyIdentified_def split: if_splits sum.splits prod.splits)
  then obtain proposed where prep: "apply_prepare memory_port b now r e (with_evidence op e h m) True s = Inr proposed"
    and com: "apply_commit memory_port cx b r e proposed s = (s', Inr sn)" by (auto simp: rt_apply_def split: sum.splits)
  let ?pr = "\<lparr>ip_OperationID = op, ip_SourceRevision = e, ip_MutationDigest = h\<rparr>"
  from mem.prepare_ok [OF prep] obtain cur where cur: "run_Revision (sn_Run cur) = e"
    "proposed = makeStoreMutation now cur (with_evidence op e h m)" "\<forall>l. b = Some l \<longrightarrow> el_RunID l = trim_space r" by blast
  obtain k where k: "s' = commit_state k proposed s" "k = r \<or> k = trim_space r"
    using com cur(3) by (cases b) (auto simp: apply_commit_def Apply_ok dest!: ApplyExecution_ok)
  have "trim_space k = k" using assms(3) by (auto simp: sys_inv_def rec_wf_def assms(4) k(1) dest!: spec [of _ k])
  then have k': "k = trim_space r" using k(2) by auto
  have "readable ?pr" using op assms(2) digest_sha [OF h(1)] by (simp add: readable_def)
  moreover have "sm_Events proposed = mu_Events m @ [evidence_draft ?pr]"
    using prepare_events [OF prep] by (simp add: with_evidence_def)
  ultimately have "Some ?pr \<in> set (evidence (st_events s' (trim_space r)))"
    using evidence_identified [of "mu_Events m" ?pr] digest_sha [OF h(1)] by (simp add: k(1) k')
  then show "\<exists>h. digestApplyMutation m = Inr h \<and>
      Some \<lparr>ip_OperationID = op, ip_SourceRevision = e, ip_MutationDigest = h\<rparr> \<in> set (evidence (st_events s' (trim_space r)))"
    using h(1) by blast
  show "\<exists>cur. st_records s' (trim_space r) = Some cur \<and> run_Revision (sn_Run cur) = e + 1"
    using cur(1,2) by (simp add: k(1) k' makeStoreMutation_def Let_def)
qed

subsection \<open>An example\<close>

definition ex_mutation :: Mutation where
  "ex_mutation = cancel_mutation ex_cur ''stop''"

definition ex_op :: string where
  "ex_op = ''op-1''"

definition ex_digest :: string where
  "ex_digest = (case digestApplyMutation ex_mutation of Inl _ \<Rightarrow> [] | Inr h \<Rightarrow> h)"

lemma ex_operation:
  "validApplyOperation ex_op 1" "valid_utf8 ex_op" "enc_mutation ex_mutation \<noteq> None"
  "\<not> hasReservedApplyEvidence (mu_Events ex_mutation)" "validateMutation ex_cur ex_mutation = None"
  "run_Revision (sn_Run ex_cur) = 1"
  by code_simp+

lemma ex_digested: "digestApplyMutation ex_mutation = Inr ex_digest"
  using ex_operation(3,4) by (auto simp: ex_digest_def digestApplyMutation_def)

lemma ex_created_events: "evidence (st_events (sys_store (ex_created x)) ex_id) = []"
  using ex_valid
  by (simp add: ex_created_def rt_Create_def hasReservedApplyEvidence_def SupportsExecution_def Create_def
      Let_def init_sys_def NewStore_def ex_req_def evidence_def run_created_draft_def identifiedApplyEventType_def)

abbreviation ex_retryable :: ApplyEvidence where
  "ex_retryable \<equiv> \<lparr>ae_Status = ApplyEvidenceRetryableCAS, ae_CommittedRevision = 0, ae_CurrentRevision = 1\<rparr>"

lemma ex_retry: "journal_evidence ex_op 1 ex_digest (st_events (sys_store (ex_created x)) ex_id) 1 ex_retryable"
  by (simp add: journal_evidence_def well_formed_evidence_def own_proofs_def ex_created_events)

definition ex_write :: StoreMutation where
  "ex_write = makeStoreMutation 20 ex_cur (with_evidence ex_op 1 ex_digest ex_mutation)"

definition ex_prepared :: Sys where
  "ex_prepared = (ex_created False)\<lparr>sys_pending := {PendingApply ex_id 1 ex_write None}\<rparr>"

definition ex_committed :: Sys where
  "ex_committed = ex_prepared\<lparr>sys_store := commit_state ex_id ex_write (sys_store (ex_created False))\<rparr>"

lemma ex_verified:
  "VerifyIdentifiedApply memory_port CtxLive (\<lambda>_. None) ex_id 1 ex_op ex_mutation (sys_store (ex_created False))
     (\<lambda>_. sys_store (ex_created False)) = Inr ex_retryable"
  using verdict [OF reach_inv [OF reach_created], of False ex_id ex_cur "\<lambda>_. ex_created False" CtxLive ex_op 1 ex_mutation ex_digest] ex_retry
  by (simp add: ex_created_store ex_valid ex_operation ex_digested)

lemma ex_write_prepared:
  "apply_prepare memory_port None 20 ex_id 1 (with_evidence ex_op 1 ex_digest ex_mutation) True (sys_store (ex_created False)) = Inr ex_write"
proof -
  have "validateMutation ex_cur (with_evidence ex_op 1 ex_digest ex_mutation) = None"
    using ex_operation(5) by (simp add: validateMutation_def with_evidence_def validMutationCheckpoint_def validMutationResult_def split: if_splits)
  then show ?thesis using ex_valid ex_operation(6)
    by (simp add: apply_prepare_def validBoundRun_def Load_def ex_created_store ex_write_def)
qed

lemma ex_write_committed:
  "apply_commit memory_port CtxLive None ex_id 1 ex_write (sys_store (ex_created False)) =
     (sys_store ex_committed, Inr (commit_snapshot ex_id ex_write (sys_store (ex_created False))))"
  using ex_operation(6) by (simp add: apply_commit_def Apply_ok ex_created_store ex_committed_def zero_execution_def)

lemma ex_identified:
  "ApplyIdentified memory_port CtxLive (\<lambda>_. None) None 20 ex_id 1 ex_op ex_mutation (sys_store (ex_created False))
     (\<lambda>_. sys_store (ex_created False)) (sys_store (ex_created False)) =
   (sys_store ex_committed, Inr (commit_snapshot ex_id ex_write (sys_store (ex_created False))))"
  using ex_valid ex_operation(1) ex_write_prepared ex_write_committed
  by (simp add: ApplyIdentified_def ex_digested ex_verified rt_apply_def)

abbreviation ex_trace :: "Sys list" where
  "ex_trace \<equiv> [init_sys 10, ex_created False, ex_prepared, ex_committed]"

lemma ex_itrace: "itrace {ex_op} ex_trace"
proof -
  have 1: "itrace {ex_op} [init_sys 10, ex_created False]"
    using itrace.I_kernel [OF itrace.I_init [of "{ex_op}" 10], of "ex_created False"] ex_created_step by (simp add: ex_created_store)
  have 2: "itrace {ex_op} [init_sys 10, ex_created False, ex_prepared]"
    using itrace.I_identified [OF 1, of 1 "\<lambda>_. 1" CtxLive "\<lambda>_. None" ex_id 1 ex_op ex_mutation ex_retryable ex_digest None 20 ex_write]
      ex_verified ex_digested ex_operation(2) below_max_created ex_write_prepared
    by (simp add: ex_prepared_def ex_created_store)
  have "kstep ex_prepared ex_committed"
    unfolding ex_committed_def
    by (rule kstep.K_commit [of ex_id 1 ex_write None _ CtxLive])
      (use ex_write_committed in \<open>simp_all add: ex_prepared_def ex_committed_def\<close>)
  then show ?thesis
    using itrace.I_kernel [OF 2, of ex_committed] below_max_created by (simp add: kstep'_def ex_prepared_def ex_committed_def)
qed

subsection \<open>Properties\<close>

text \<open>C15: the verification of an identified write tells what the journal says. Although the journal is read in
  pages of 512 events, each from a later state of the system, the answer is the one of the single
  journal at the load: committed exactly when every proof in it is well formed, the operation
  occurs once, as this write, and the run has moved on; retryable exactly when every proof is
  well formed, the operation does not occur and the run is still at the expected revision; an
  error otherwise.\<close>

theorem verification_tells_the_journal:
  assumes "reach \<sigma>" and "st_records (sys_store \<sigma>) (trim_space r) = Some cur" and "\<And>k. ksteps \<sigma> (\<tau> k)"
    and "cx \<noteq> CtxNil" and "validApplyOperation op e" and "digestApplyMutation m = Inr h"
  shows "VerifyIdentifiedApply memory_port cx (\<lambda>_. None) r e op m (sys_store \<sigma>) (\<lambda>k. sys_store (\<tau> k)) = Inr v \<longleftrightarrow>
    journal_evidence op e h (st_events (sys_store \<sigma>) (trim_space r)) (run_Revision (sn_Run cur)) v"
  using verdict [OF reach_inv [OF assms(1)] assms(2-6)] .

theorem verification_tells_the_journal_witness:
  "VerifyIdentifiedApply memory_port CtxLive (\<lambda>_. None) ex_id 1 ex_op ex_mutation (sys_store (ex_created False))
     (\<lambda>_. sys_store (ex_created False)) = Inr ex_retryable"
proof -
  have "VerifyIdentifiedApply memory_port CtxLive (\<lambda>_. None) ex_id 1 ex_op ex_mutation (sys_store (ex_created False))
     (\<lambda>_. sys_store (ex_created False)) = Inr ex_retryable \<longleftrightarrow>
    journal_evidence ex_op 1 ex_digest (st_events (sys_store (ex_created False)) (trim_space ex_id)) (run_Revision (sn_Run ex_cur)) ex_retryable"
    by (rule verification_tells_the_journal [OF reach_created])
      (simp_all add: ex_created_store ex_valid ex_operation ex_digested)
  then show ?thesis using ex_retry by (simp add: ex_valid ex_operation)
qed

text \<open>C13: an identified operation whose ID is valid UTF-8 commits at most once. In every execution in which
  evidence is written only after a verification that did not find the operation, and in which all
  operation IDs that are written are valid UTF-8, all proofs of every journal are well formed and
  no operation occurs twice in the journal of a run, however verifications, writes and controls
  of different callers interleave. The code does not check that an ID is valid UTF-8, and without
  the condition the property fails: the encoding of the proof replaces the invalid bytes, so that
  the operation is not found again (\<open>invalid_utf8_operation_is_lost\<close>).\<close>

theorem identified_operation_commits_once:
  assumes "itrace Ops tr" and "\<forall>op\<in>Ops. valid_utf8 op" and "\<sigma> \<in> set tr"
  shows "well_formed_evidence (st_events (sys_store \<sigma>) r) \<and> length (own_proofs op (st_events (sys_store \<sigma>) r)) \<le> 1"
  using itrace_inv [OF assms] by (simp add: evidence_inv_def)

theorem identified_operation_commits_once_witness:
  "well_formed_evidence (st_events (sys_store ex_committed) ex_id) \<and> length (own_proofs ex_op (st_events (sys_store ex_committed) ex_id)) \<le> 1"
  by (rule identified_operation_commits_once [OF ex_itrace]) (use ex_operation(2) in simp_all)

text \<open>C14: a committed operation whose ID is valid UTF-8 is recognised for ever. After a successful
  \<open>ApplyIdentified\<close>, at every later point of an execution whose operation IDs are all valid UTF-8,
  the proof is decoded from the journal as it was encoded, the verification answers that the
  operation committed at the revision after the expected one, and a repeated \<open>ApplyIdentified\<close> is
  refused without effect. As for C13, the condition on the IDs is needed and the code does not
  check it.\<close>

theorem committed_operation_is_recognised:
  assumes "ApplyIdentified memory_port cx cxs b now r e op m s0 ss s = (s', Inr sn)" and "valid_utf8 op"
    and "itrace Ops tr" and "n < length tr" and "sys_store (tr ! n) = s'"
    and "n \<le> i" and "i < length tr" and "\<And>k. i \<le> pg k \<and> pg k < length tr" and "cx' \<noteq> CtxNil"
    and utf8: "\<forall>op\<in>Ops. valid_utf8 op"
  shows "(\<exists>cur. st_records (sys_store (tr ! i)) (trim_space r) = Some cur \<and>
      VerifyIdentifiedApply memory_port cx' (\<lambda>_. None) r e op m (sys_store (tr ! i)) (\<lambda>k. sys_store (tr ! pg k)) =
        Inr \<lparr>ae_Status = ApplyEvidenceCommitted, ae_CommittedRevision = e + 1, ae_CurrentRevision = run_Revision (sn_Run cur)\<rparr>) \<and>
    ApplyIdentified memory_port cx' (\<lambda>_. None) b' now' r e op m (sys_store (tr ! i)) (\<lambda>k. sys_store (tr ! pg k)) s2 =
      (s2, Inl ErrApplyAlreadyCommitted)"
proof -
  have inv: "sys_inv (tr ! n)" "sys_inv (tr ! i)" using itrace_reach [OF assms(3)] assms(4,7) by (auto intro: reach_inv)
  note ok = ApplyIdentified_ok [OF assms(1,2) inv(1) assms(5)]
  obtain h where h: "digestApplyMutation m = Inr h"
    "Some \<lparr>ip_OperationID = op, ip_SourceRevision = e, ip_MutationDigest = h\<rparr> \<in> set (evidence (st_events s' (trim_space r)))" using ok(2) by blast
  obtain c where c: "st_records s' (trim_space r) = Some c" "run_Revision (sn_Run c) = e + 1" using ok(3) by blast
  have "run_follows s' (sys_store (tr ! i)) (trim_space r) c"
    using run_follows_steps [OF itrace_steps [OF assms(3,6,7)] inv(1)] c(1) by (simp add: assms(5))
  then obtain cur new where cur: "st_records (sys_store (tr ! i)) (trim_space r) = Some cur" "e + 1 \<le> run_Revision (sn_Run cur)"
    "st_events (sys_store (tr ! i)) (trim_space r) = st_events s' (trim_space r) @ new"
    using c(2) by (auto simp: run_follows_def prefix_def)
  have "e < e + 1" using ok(1) less_Suc_u64 by (simp add: validApplyOperation_def)
  then have less: "e < run_Revision (sn_Run cur)" using cur(2) by order
  have ev: "evidence_inv (tr ! i)" using itrace_inv [OF assms(3) utf8] assms(7) by simp
  have "own_proofs op (st_events (sys_store (tr ! i)) (trim_space r)) = [\<lparr>ip_OperationID = op, ip_SourceRevision = e, ip_MutationDigest = h\<rparr>]"
    using own_proofs_unique [OF ev, of _ "trim_space r"] h(2) cur(3) by fastforce
  then have "journal_evidence op e h (st_events (sys_store (tr ! i)) (trim_space r)) (run_Revision (sn_Run cur))
      \<lparr>ae_Status = ApplyEvidenceCommitted, ae_CommittedRevision = e + 1, ae_CurrentRevision = run_Revision (sn_Run cur)\<rparr>"
    using less ev by (simp add: journal_evidence_def evidence_inv_def)
  then have v: "VerifyIdentifiedApply memory_port cx' (\<lambda>_. None) r e op m (sys_store (tr ! i)) (\<lambda>k. sys_store (tr ! pg k)) =
      Inr \<lparr>ae_Status = ApplyEvidenceCommitted, ae_CommittedRevision = e + 1, ae_CurrentRevision = run_Revision (sn_Run cur)\<rparr>"
    using verdict [OF inv(2) cur(1) _ assms(9) ok(1) h(1), of "\<lambda>k. tr ! pg k"] itrace_steps [OF assms(3)] assms(8) by blast
  have "\<not> blank r" using v assms(9) ok(1) by (auto simp: VerifyIdentifiedApply_def split: if_splits)
  then show ?thesis using v cur(1) assms(9) ok(1) h(1) by (simp add: ApplyIdentified_def)
qed

theorem committed_operation_is_recognised_witness:
  "(\<exists>cur. st_records (sys_store ex_committed) (trim_space ex_id) = Some cur \<and>
      VerifyIdentifiedApply memory_port CtxLive (\<lambda>_. None) ex_id 1 ex_op ex_mutation (sys_store ex_committed) (\<lambda>_. sys_store ex_committed) =
        Inr \<lparr>ae_Status = ApplyEvidenceCommitted, ae_CommittedRevision = 1 + 1, ae_CurrentRevision = run_Revision (sn_Run cur)\<rparr>) \<and>
    ApplyIdentified memory_port CtxLive (\<lambda>_. None) None 30 ex_id 1 ex_op ex_mutation (sys_store ex_committed) (\<lambda>_. sys_store ex_committed)
      (sys_store ex_committed) = (sys_store ex_committed, Inl ErrApplyAlreadyCommitted)"
  using committed_operation_is_recognised [OF ex_identified ex_operation(2) ex_itrace, of 3 3 "\<lambda>_. 3" CtxLive None 30 "sys_store ex_committed"]
    ex_operation(2) by simp

end
