(* ===== verification/Queue.thy ===== *)
theory Queue
  imports Go_Util Kernel_Types "HOL-Library.Product_Lexorder"
begin

text \<open>
  The delivery queue: \<open>queue/queue.go\<close> (policies, normalisation, job identity) and the in-memory
  state machine of \<open>queue/memory.go\<close>.

  The Go map \<open>jobs\<close>, which the code iterates over, is an association list with distinct keys;
  its order stands for the unspecified iteration order. Every method holds the mutex, so it is
  one function of the jobs; \<open>now\<close> is the clock reading of the call, the context is its error, if
  any. A method returns the jobs it leaves and its result.
\<close>

datatype queue_error =
    QErrInvalidInput | QErrConflict | QErrNotFound | QErrLeaseLost | QErrLeaseExpired | QErrJobTerminal
  | QErrContext context_error

datatype Status = StatusQueued | StatusLeased | StatusCompleted | StatusDeadLetter | StatusOther string

record Policy =
  po_MaxAttempts :: int
  po_VisibilityTimeout :: duration
  po_InitialBackoff :: duration
  po_MaxBackoff :: duration
  po_BackoffMultiplier :: int
  po_RequireTerminalFence :: bool

record Lease =
  le_ID :: string
  le_WorkerID :: string
  le_Generation :: u64
  le_Attempt :: int
  le_ClaimedAt :: time
  le_ExpiresAt :: time

record Job =
  jb_ID :: string
  jb_Queue :: string
  jb_ClientJobID :: string
  jb_Fingerprint :: string
  jb_Kind :: string
  jb_Payload :: string
  jb_Priority :: int
  jb_Policy :: Policy
  jb_Status :: Status
  jb_Attempt :: int
  jb_Generation :: u64
  jb_AvailableAt :: time
  jb_Lease :: "Lease option"
  jb_LastErrorCode :: string
  jb_LastError :: string
  jb_CreatedAt :: time
  jb_UpdatedAt :: time
  jb_CompletedAt :: "time option"
  jb_DeadLetterAt :: "time option"

record EnqueueRequest =
  en_Queue :: string
  en_ClientJobID :: string
  en_Kind :: string
  en_Payload :: string
  en_Priority :: int
  en_AvailableAt :: time
  en_Policy :: Policy

record ClaimRequest =
  cl_Queue :: string
  cl_WorkerID :: string
  cl_Limit :: int

record LeaseRequest =
  lr_JobID :: string
  lr_LeaseID :: string
  lr_WorkerID :: string

record NackRequest =
  nk_Lease :: LeaseRequest
  nk_ErrorCode :: string
  nk_Error :: string
  nk_AllowDeadLetter :: bool

type_synonym jobs = "(string \<times> Job) list"

subsection \<open>Policies\<close>

abbreviation second :: duration where
  "second \<equiv> 1000000000"

definition normalizePolicy :: "Policy \<Rightarrow> Policy" where
  "normalizePolicy p = p
     \<lparr>po_MaxAttempts := (if po_MaxAttempts p \<le> 0 then 5 else po_MaxAttempts p),
      po_VisibilityTimeout := (if po_VisibilityTimeout p \<le> 0 then 30 * second else po_VisibilityTimeout p),
      po_InitialBackoff := (if po_InitialBackoff p < 0 then 0 else po_InitialBackoff p),
      po_MaxBackoff := (if po_MaxBackoff p \<le> 0 then 300 * second else po_MaxBackoff p),
      po_BackoffMultiplier := (if po_BackoffMultiplier p \<le> 1 then 2 else po_BackoffMultiplier p)\<rparr>"

definition validPolicy :: "Policy \<Rightarrow> bool" where
  "validPolicy p \<longleftrightarrow>
     0 < po_MaxAttempts p \<and> po_MaxAttempts p \<le> 1000 \<and>
     0 < po_VisibilityTimeout p \<and> po_VisibilityTimeout p \<le> 24 * 3600 * second \<and>
     0 \<le> po_InitialBackoff p \<and> po_InitialBackoff p \<le> po_MaxBackoff p \<and>
     po_MaxBackoff p \<le> 7 * 24 * 3600 * second \<and>
     2 \<le> po_BackoffMultiplier p \<and> po_BackoffMultiplier p \<le> 100"

text \<open>The loop of \<open>retryBackoff\<close>, from iteration \<open>index\<close> below \<open>bound = min(attempt, 64)\<close>.\<close>

function backoff_loop :: "Policy \<Rightarrow> int \<Rightarrow> int \<Rightarrow> duration \<Rightarrow> duration" where
  "backoff_loop p bound index delay =
     (if index < bound \<and> delay < po_MaxBackoff p then
        if po_MaxBackoff p div po_BackoffMultiplier p < delay then po_MaxBackoff p
        else backoff_loop p bound (index + 1) (wrap_s64 (delay * po_BackoffMultiplier p))
      else if po_MaxBackoff p < delay then po_MaxBackoff p
      else delay)"
  by pat_completeness auto
termination
  by (relation "measure (\<lambda>(p, bound, index, delay). nat (bound - index))") auto

declare backoff_loop.simps [simp del]

definition retryBackoff :: "Policy \<Rightarrow> int \<Rightarrow> duration" where
  "retryBackoff p attempt = backoff_loop p (min attempt 64) 1 (po_InitialBackoff p)"

subsection \<open>Requests and identities\<close>

definition normalizeJSON :: "string \<Rightarrow> string \<Rightarrow> string" where
  "normalizeJSON v fallback =
     (let v' = (if v = [] then fallback else v) in
      case parse_json v' of None \<Rightarrow> v' | Some t \<Rightarrow> marshal_any t)"

definition normalizeEnqueueRequest :: "EnqueueRequest \<Rightarrow> time \<Rightarrow> queue_error + EnqueueRequest" where
  "normalizeEnqueueRequest r now =
     (let r' = r\<lparr>en_Queue := trim_space (en_Queue r), en_ClientJobID := trim_space (en_ClientJobID r),
                 en_Kind := trim_space (en_Kind r), en_Payload := normalizeJSON (en_Payload r) ''null'',
                 en_Policy := normalizePolicy (en_Policy r),
                 en_AvailableAt := (if en_AvailableAt r = 0 then now else en_AvailableAt r)\<rparr>
      in if en_Queue r' = [] \<or> en_ClientJobID r' = [] \<or> en_Kind r' = [] \<or> \<not> json_valid (en_Payload r') \<or>
            en_Priority r' < - 1000 \<or> 1000 < en_Priority r' \<or> \<not> validPolicy (en_Policy r')
         then Inl QErrInvalidInput else Inr r')"

definition stableID :: "string \<Rightarrow> string list \<Rightarrow> string" where
  "stableID pfx values = pfx @ ''_'' @ take 32 (sha256_hex (intercalate [CHR 0x1F] values))"

definition enc_policy :: "Policy \<Rightarrow> string" where
  "enc_policy p = enc_obj
     ([(''maxAttempts'', dec_int (po_MaxAttempts p)), (''visibilityTimeout'', dec_int (po_VisibilityTimeout p)),
       (''initialBackoff'', dec_int (po_InitialBackoff p)), (''maxBackoff'', dec_int (po_MaxBackoff p)),
       (''backoffMultiplier'', dec_int (po_BackoffMultiplier p))]
      @ (if po_RequireTerminalFence p then [(''requireTerminalFence'', enc_bool True)] else []))"

definition job_material :: "EnqueueRequest \<Rightarrow> string option" where
  "job_material r = map_option (\<lambda>payload. enc_obj
     [(''queue'', enc_string (en_Queue r)), (''clientID'', enc_string (en_ClientJobID r)),
      (''kind'', enc_string (en_Kind r)), (''payload'', payload), (''priority'', dec_int (en_Priority r)),
      (''policy'', enc_policy (en_Policy r))]) (enc_raw (en_Payload r))"

definition jobIdentity :: "EnqueueRequest \<Rightarrow> queue_error + string \<times> string" where
  "jobIdentity r = (case job_material r of
       None \<Rightarrow> Inl QErrInvalidInput
     | Some encoded \<Rightarrow> Inr (stableID ''job'' [en_Queue r, en_ClientJobID r], sha256_hex encoded))"

definition PrepareEnqueue :: "EnqueueRequest \<Rightarrow> time \<Rightarrow> queue_error + Job" where
  "PrepareEnqueue request now =
     (case normalizeEnqueueRequest request now of
        Inl e \<Rightarrow> Inl e
      | Inr r \<Rightarrow>
          (case jobIdentity r of
             Inl e \<Rightarrow> Inl e
           | Inr (jobID, fp) \<Rightarrow>
               Inr \<lparr>jb_ID = jobID, jb_Queue = en_Queue r, jb_ClientJobID = en_ClientJobID r, jb_Fingerprint = fp,
                    jb_Kind = en_Kind r, jb_Payload = en_Payload r, jb_Priority = en_Priority r,
                    jb_Policy = en_Policy r, jb_Status = StatusQueued, jb_Attempt = 0, jb_Generation = 0,
                    jb_AvailableAt = en_AvailableAt r, jb_Lease = None, jb_LastErrorCode = [], jb_LastError = [],
                    jb_CreatedAt = now, jb_UpdatedAt = now, jb_CompletedAt = None, jb_DeadLetterAt = None\<rparr>))"

subsection \<open>Leases and retries\<close>

definition releaseForRetryLocked :: "Job \<Rightarrow> time \<Rightarrow> bool \<Rightarrow> Job" where
  "releaseForRetryLocked job now allowDeadLetter =
     (let j = job\<lparr>jb_Lease := None, jb_UpdatedAt := now\<rparr> in
      if po_MaxAttempts (jb_Policy j) \<le> jb_Attempt j \<and>
         (\<not> po_RequireTerminalFence (jb_Policy j) \<or> allowDeadLetter)
      then j\<lparr>jb_Status := StatusDeadLetter, jb_DeadLetterAt := Some now\<rparr>
      else j\<lparr>jb_Status := StatusQueued, jb_AvailableAt := now + retryBackoff (jb_Policy j) (jb_Attempt j)\<rparr>)"

definition expired :: "string \<Rightarrow> time \<Rightarrow> Job \<Rightarrow> bool" where
  "expired queueName now job \<longleftrightarrow>
     \<not> (jb_Queue job \<noteq> queueName \<or> jb_Status job \<noteq> StatusLeased \<or>
        (case jb_Lease job of None \<Rightarrow> True | Some l \<Rightarrow> now < le_ExpiresAt l))"

definition reapExpiredLocked :: "time \<Rightarrow> string \<Rightarrow> jobs \<Rightarrow> jobs \<times> nat" where
  "reapExpiredLocked now queueName jobs =
     (map (\<lambda>(k, j). (k, if expired queueName now j then releaseForRetryLocked j now False else j)) jobs,
      length (filter (\<lambda>(k, j). expired queueName now j) jobs))"

definition is_eligible :: "string \<Rightarrow> time \<Rightarrow> Job \<Rightarrow> bool" where
  "is_eligible queueName now job \<longleftrightarrow>
     jb_Queue job = queueName \<and> jb_Status job = StatusQueued \<and> \<not> now < jb_AvailableAt job"

definition claim_key :: "Job \<Rightarrow> int \<times> time \<times> time \<times> string" where
  "claim_key job = (- jb_Priority job, jb_AvailableAt job, jb_CreatedAt job, jb_ID job)"

definition eligibleLocked :: "string \<Rightarrow> time \<Rightarrow> jobs \<Rightarrow> string list" where
  "eligibleLocked queueName now jobs =
     sort_key (\<lambda>k. claim_key (the (map_of jobs k)))
       (map fst (filter (\<lambda>(k, j). is_eligible queueName now j) jobs))"

text \<open>\<open>currentLeaseLocked\<close> may itself release an expired lease.\<close>

definition currentLeaseLocked :: "LeaseRequest \<Rightarrow> time \<Rightarrow> jobs \<Rightarrow> jobs \<times> (queue_error + Job)" where
  "currentLeaseLocked r now jobs =
     (case map_of jobs (trim_space (lr_JobID r)) of
        None \<Rightarrow> (jobs, Inl QErrNotFound)
      | Some job \<Rightarrow>
          if jb_Status job = StatusCompleted \<or> jb_Status job = StatusDeadLetter then (jobs, Inl QErrJobTerminal)
          else if jb_Status job \<noteq> StatusLeased then (jobs, Inl QErrLeaseLost)
          else case jb_Lease job of
            None \<Rightarrow> (jobs, Inl QErrLeaseLost)
          | Some l \<Rightarrow>
              if le_ID l \<noteq> trim_space (lr_LeaseID r) \<or> le_WorkerID l \<noteq> trim_space (lr_WorkerID r)
              then (jobs, Inl QErrLeaseLost)
              else if \<not> now < le_ExpiresAt l
              then (AList.update (jb_ID job) (releaseForRetryLocked job now False) jobs, Inl QErrLeaseExpired)
              else (jobs, Inr job))"

definition truncate :: "string \<Rightarrow> int \<Rightarrow> string" where
  "truncate v limit =
     (let v' = trim_space v; rs = runes v' in
      if limit \<le> 0 then []
      else if int (length rs) \<le> limit then v'
      else concat (take (nat (limit - 1)) rs) @ [CHR 0xE2, CHR 0x80, CHR 0xA6])"

subsection \<open>The methods\<close>

definition Enqueue ::
  "context_error option \<Rightarrow> time \<Rightarrow> EnqueueRequest \<Rightarrow> jobs \<Rightarrow> jobs \<times> (queue_error + Job \<times> bool)" where
  "Enqueue cx now request jobs =
     (case cx of Some e \<Rightarrow> (jobs, Inl (QErrContext e)) | None \<Rightarrow>
      (case PrepareEnqueue request now of
         Inl e \<Rightarrow> (jobs, Inl e)
       | Inr job \<Rightarrow>
           (case map_of jobs (jb_ID job) of
              Some existing \<Rightarrow>
                if jb_Fingerprint existing \<noteq> jb_Fingerprint job then (jobs, Inl QErrConflict)
                else (jobs, Inr (existing, True))
            | None \<Rightarrow> (AList.update (jb_ID job) job jobs, Inr (job, False)))))"

definition claim_job :: "time \<Rightarrow> string \<Rightarrow> Job \<Rightarrow> Job \<times> Lease" where
  "claim_job now worker job =
     (let attempt = wrap_s64 (jb_Attempt job + 1); generation = jb_Generation job + 1;
          lease = \<lparr>le_ID = stableID ''lease'' [jb_ID job, dec_u64 generation], le_WorkerID = worker,
                   le_Generation = generation, le_Attempt = attempt, le_ClaimedAt = now,
                   le_ExpiresAt = now + po_VisibilityTimeout (jb_Policy job)\<rparr>
      in (job\<lparr>jb_Attempt := attempt, jb_Generation := generation, jb_Status := StatusLeased,
              jb_Lease := Some lease, jb_UpdatedAt := now\<rparr>, lease))"

fun claim_jobs :: "time \<Rightarrow> string \<Rightarrow> string list \<Rightarrow> jobs \<Rightarrow> jobs \<times> (Job \<times> Lease) list" where
  "claim_jobs now worker [] jobs = (jobs, [])"
| "claim_jobs now worker (k # ks) jobs =
     (let (job, lease) = claim_job now worker (the (map_of jobs k));
          (jobs', ds) = claim_jobs now worker ks (AList.update (jb_ID job) job jobs)
      in (jobs', (job, lease) # ds))"

definition Claim ::
  "context_error option \<Rightarrow> time \<Rightarrow> ClaimRequest \<Rightarrow> jobs \<Rightarrow> jobs \<times> (queue_error + (Job \<times> Lease) list)" where
  "Claim cx now r jobs =
     (case cx of Some e \<Rightarrow> (jobs, Inl (QErrContext e)) | None \<Rightarrow>
      (let queueName = trim_space (cl_Queue r); worker = trim_space (cl_WorkerID r);
           limit = (if cl_Limit r \<le> 0 then 1 else cl_Limit r) in
       if queueName = [] \<or> worker = [] \<or> 100 < limit then (jobs, Inl QErrInvalidInput)
       else
         let (jobs1, _) = reapExpiredLocked now queueName jobs;
             eligible = take (nat limit) (eligibleLocked queueName now jobs1);
             (jobs2, ds) = claim_jobs now worker eligible jobs1
         in (jobs2, Inr ds)))"

definition Renew ::
  "context_error option \<Rightarrow> time \<Rightarrow> LeaseRequest \<Rightarrow> jobs \<Rightarrow> jobs \<times> (queue_error + Job \<times> Lease)" where
  "Renew cx now r jobs =
     (case cx of Some e \<Rightarrow> (jobs, Inl (QErrContext e)) | None \<Rightarrow>
      (case currentLeaseLocked r now jobs of
         (jobs1, Inl e) \<Rightarrow> (jobs1, Inl e)
       | (jobs1, Inr job) \<Rightarrow>
           let lease = (the (jb_Lease job))\<lparr>le_ExpiresAt := now + po_VisibilityTimeout (jb_Policy job)\<rparr>;
               job' = job\<lparr>jb_Lease := Some lease, jb_UpdatedAt := now\<rparr>
           in (AList.update (jb_ID job) job' jobs1, Inr (job', lease))))"

definition Ack ::
  "context_error option \<Rightarrow> time \<Rightarrow> LeaseRequest \<Rightarrow> jobs \<Rightarrow> jobs \<times> (queue_error + Job)" where
  "Ack cx now r jobs =
     (case cx of Some e \<Rightarrow> (jobs, Inl (QErrContext e)) | None \<Rightarrow>
      (case currentLeaseLocked r now jobs of
         (jobs1, Inl e) \<Rightarrow> (jobs1, Inl e)
       | (jobs1, Inr job) \<Rightarrow>
           let job' = job\<lparr>jb_Status := StatusCompleted, jb_Lease := None, jb_UpdatedAt := now,
                          jb_CompletedAt := Some now\<rparr>
           in (AList.update (jb_ID job) job' jobs1, Inr job')))"

definition Nack ::
  "context_error option \<Rightarrow> time \<Rightarrow> NackRequest \<Rightarrow> jobs \<Rightarrow> jobs \<times> (queue_error + Job)" where
  "Nack cx now r jobs =
     (case cx of Some e \<Rightarrow> (jobs, Inl (QErrContext e)) | None \<Rightarrow>
      (case currentLeaseLocked (nk_Lease r) now jobs of
         (jobs1, Inl e) \<Rightarrow> (jobs1, Inl e)
       | (jobs1, Inr job) \<Rightarrow>
           let job' = releaseForRetryLocked
                 (job\<lparr>jb_LastErrorCode := trim_space (nk_ErrorCode r), jb_LastError := truncate (nk_Error r) 1024\<rparr>)
                 now (nk_AllowDeadLetter r)
           in (AList.update (jb_ID job) job' jobs1, Inr job')))"

definition Reap :: "context_error option \<Rightarrow> time \<Rightarrow> string \<Rightarrow> jobs \<Rightarrow> jobs \<times> (queue_error + nat)" where
  "Reap cx now queueName jobs =
     (case cx of Some e \<Rightarrow> (jobs, Inl (QErrContext e)) | None \<Rightarrow>
      (if trim_space queueName = [] then (jobs, Inl QErrInvalidInput)
       else let (jobs1, n) = reapExpiredLocked now (trim_space queueName) jobs in (jobs1, Inr n)))"

definition Get :: "context_error option \<Rightarrow> string \<Rightarrow> jobs \<Rightarrow> queue_error + Job" where
  "Get cx jobID jobs =
     (case cx of Some e \<Rightarrow> Inl (QErrContext e) | None \<Rightarrow>
      (case map_of jobs (trim_space jobID) of None \<Rightarrow> Inl QErrNotFound | Some j \<Rightarrow> Inr j))"

definition List_jobs :: "context_error option \<Rightarrow> string \<Rightarrow> Status \<Rightarrow> jobs \<Rightarrow> queue_error + Job list" where
  "List_jobs cx queueName status jobs =
     (case cx of Some e \<Rightarrow> Inl (QErrContext e) | None \<Rightarrow>
      (if trim_space queueName = [] then Inl QErrInvalidInput
       else Inr (sort_key (\<lambda>j. (jb_CreatedAt j, jb_ID j))
              (filter (\<lambda>j. jb_Queue j = trim_space queueName \<and> (status = StatusOther [] \<or> jb_Status j = status))
                 (map snd jobs)))))"

definition RequeueDeadLetter ::
  "context_error option \<Rightarrow> time \<Rightarrow> string \<Rightarrow> jobs \<Rightarrow> jobs \<times> (queue_error + Job)" where
  "RequeueDeadLetter cx now jobID jobs =
     (case cx of Some e \<Rightarrow> (jobs, Inl (QErrContext e)) | None \<Rightarrow>
      (case map_of jobs (trim_space jobID) of
         None \<Rightarrow> (jobs, Inl QErrNotFound)
       | Some job \<Rightarrow>
           if jb_Status job \<noteq> StatusDeadLetter then (jobs, Inl QErrJobTerminal)
           else let job' = job\<lparr>jb_Status := StatusQueued, jb_Attempt := 0, jb_AvailableAt := now, jb_Lease := None,
                      jb_LastErrorCode := [], jb_LastError := [], jb_DeadLetterAt := None, jb_UpdatedAt := now\<rparr>
                in (AList.update (jb_ID job) job' jobs, Inr job')))"

end
