(* ===== verification/Queue_Facts.thy ===== *)
theory Queue_Facts
  imports Queue "HOL-Library.Multiset"
begin

text \<open>
  Correctness of the delivery queue. \<open>qstep\<close> is one call of any method at any time, by any caller,
  with any clock reading; \<open>job_wf\<close> is the invariant of a stored job. The properties are about
  every sequence of calls.
\<close>

subsection \<open>Backoff\<close>

definition capped_power :: "Policy \<Rightarrow> nat \<Rightarrow> duration" where
  "capped_power p n = min (po_MaxBackoff p) (po_InitialBackoff p * po_BackoffMultiplier p ^ n)"

lemma div_less_mult_iff: "0 < (m :: int) \<Longrightarrow> M div m < d \<longleftrightarrow> M < d * m"
proof -
  assume m: "0 < m"
  have eq: "M = m * (M div m) + M mod m" and le: "0 \<le> M mod m" "M mod m < m" using m by simp_all
  have "M < d * m" if "M div m < d"
  proof -
    have "m * (M div m + 1) \<le> m * d" using that m by (intro mult_left_mono) simp_all
    then have "m * (M div m) + m \<le> d * m" by (simp add: distrib_left mult.commute)
    with eq le show ?thesis by linarith
  qed
  moreover have "d * m \<le> M" if "d \<le> M div m"
  proof -
    have "m * d \<le> m * (M div m)" using that m by (intro mult_left_mono) simp_all
    with eq le show ?thesis unfolding mult.commute [of d m] by linarith
  qed
  ultimately show ?thesis by linarith
qed

lemma backoff_loop_value:
  assumes "validPolicy p" and "0 \<le> delay"
  shows "backoff_loop p bound index delay =
     min (po_MaxBackoff p) (delay * po_BackoffMultiplier p ^ nat (bound - index))"
  using assms
proof (induction p bound index delay rule: backoff_loop.induct)
  case (1 p bound index delay)
  let ?m = "po_BackoffMultiplier p" and ?M = "po_MaxBackoff p"
  have m: "2 \<le> ?m" and M: "?M \<le> 7 * 24 * 3600 * second"
    using "1.prems"(1) by (auto simp: validPolicy_def)
  have grow: "x \<le> x * ?m ^ k" if "0 \<le> x" for x k
    using mult_left_mono [OF _ that, of 1 "?m ^ k"] m by simp
  show ?case
  proof (cases "index < bound \<and> delay < ?M")
    case False
    have "?M \<le> delay \<Longrightarrow> ?M \<le> delay * ?m ^ nat (bound - index)"
      using grow [OF "1.prems"(2), of "nat (bound - index)"] by linarith
    with False show ?thesis by (subst backoff_loop.simps) (auto simp: min_def)
  next
    case True
    define k where "k = nat (bound - (index + 1))"
    have k: "nat (bound - index) = Suc k" using True unfolding k_def by arith
    show ?thesis
    proof (cases "?M div ?m < delay")
      case big: True
      then have "?M < delay * ?m" using m div_less_mult_iff by simp
      also have "delay * ?m \<le> delay * ?m * ?m ^ k" by (rule grow) (use m "1.prems"(2) in simp)
      finally have "?M \<le> delay * ?m ^ Suc k" by (simp add: mult.assoc)
      with True big k show ?thesis by (subst backoff_loop.simps) (simp add: min_def)
    next
      case small: False
      then have le: "delay * ?m \<le> ?M" using m div_less_mult_iff [of ?m ?M delay] by simp
      have nonneg: "0 \<le> delay * ?m" using m "1.prems"(2) by simp
      have "in_s64 (delay * ?m)" unfolding in_s64_def min_s64_def max_s64_def using le nonneg M by linarith
      then have id: "wrap_s64 (delay * ?m) = delay * ?m" by simp
      have "backoff_loop p bound (index + 1) (delay * ?m) = min ?M (delay * ?m * ?m ^ k)"
        using "1.IH" [OF True small] "1.prems"(1) nonneg unfolding id k_def by simp
      with True small show ?thesis
        by (subst backoff_loop.simps) (simp add: id k mult.assoc)
    qed
  qed
qed

lemma power_exceeds:
  assumes "validPolicy p" and "0 < x" and "63 \<le> n"
  shows "po_MaxBackoff p \<le> x * po_BackoffMultiplier p ^ n"
proof -
  let ?m = "po_BackoffMultiplier p"
  have m: "2 \<le> ?m" and M: "po_MaxBackoff p \<le> 2 ^ 63"
    using assms(1) by (auto simp: validPolicy_def)
  have "(2 :: int) ^ 63 \<le> 2 ^ n" using assms(3) by (intro power_increasing) simp_all
  also have "(2 :: int) ^ n \<le> ?m ^ n" using m by (intro power_mono) simp_all
  also have "?m ^ n \<le> x * ?m ^ n" using assms(2) m mult_right_mono [of 1 x "?m ^ n"] by simp
  finally show ?thesis using M by linarith
qed

lemma retryBackoff_value:
  assumes "validPolicy p" and "1 \<le> attempt"
  shows "retryBackoff p attempt = min (po_MaxBackoff p) (po_InitialBackoff p * po_BackoffMultiplier p ^ nat (attempt - 1))"
proof -
  let ?m = "po_BackoffMultiplier p" and ?i = "po_InitialBackoff p" and ?M = "po_MaxBackoff p"
  have i: "0 \<le> ?i" using assms(1) by (simp add: validPolicy_def)
  have eq: "retryBackoff p attempt = min ?M (?i * ?m ^ nat (min attempt 64 - 1))"
    unfolding retryBackoff_def by (rule backoff_loop_value [OF assms(1) i])
  show ?thesis
  proof (cases "attempt \<le> 64")
    case True
    then show ?thesis using eq by simp
  next
    case False
    show ?thesis
    proof (cases "?i = 0")
      case True
      then show ?thesis using eq by simp
    next
      case nz: False
      then have "?M \<le> ?i * ?m ^ nat (min attempt 64 - 1)" "?M \<le> ?i * ?m ^ nat (attempt - 1)"
        using i False by (auto intro!: power_exceeds [OF assms(1)])
      then show ?thesis using eq by simp
    qed
  qed
qed

subsection \<open>Calls\<close>

datatype qcall =
    CallEnqueue "context_error option" time EnqueueRequest
  | CallClaim "context_error option" time ClaimRequest
  | CallRenew "context_error option" time LeaseRequest
  | CallAck "context_error option" time LeaseRequest
  | CallNack "context_error option" time NackRequest
  | CallReap "context_error option" time string
  | CallRequeue "context_error option" time string

fun call_effect :: "qcall \<Rightarrow> jobs \<Rightarrow> jobs" where
  "call_effect (CallEnqueue cx now r) js = fst (Enqueue cx now r js)"
| "call_effect (CallClaim cx now r) js = fst (Claim cx now r js)"
| "call_effect (CallRenew cx now r) js = fst (Renew cx now r js)"
| "call_effect (CallAck cx now r) js = fst (Ack cx now r js)"
| "call_effect (CallNack cx now r) js = fst (Nack cx now r js)"
| "call_effect (CallReap cx now q) js = fst (Reap cx now q js)"
| "call_effect (CallRequeue cx now k) js = fst (RequeueDeadLetter cx now k js)"

abbreviation run_calls :: "qcall list \<Rightarrow> jobs \<Rightarrow> jobs" where
  "run_calls cs js \<equiv> fold call_effect cs js"

subsection \<open>The invariant\<close>

definition job_wf :: "string \<Rightarrow> Job \<Rightarrow> bool" where
  "job_wf k j \<longleftrightarrow> jb_ID j = k \<and> k = stableID ''job'' [jb_Queue j, jb_ClientJobID j] \<and>
     validPolicy (jb_Policy j) \<and>
     (case jb_Status j of
        StatusQueued \<Rightarrow> jb_Lease j = None \<and> jb_DeadLetterAt j = None \<and> jb_CompletedAt j = None
      | StatusLeased \<Rightarrow> jb_DeadLetterAt j = None \<and> jb_CompletedAt j = None \<and>
          (\<exists>l. jb_Lease j = Some l \<and> le_Generation l = jb_Generation j \<and> le_Attempt l = jb_Attempt j \<and>
             le_ID l = stableID ''lease'' [k, dec_u64 (jb_Generation j)])
      | StatusCompleted \<Rightarrow> jb_Lease j = None \<and> jb_CompletedAt j \<noteq> None \<and> jb_DeadLetterAt j = None
      | StatusDeadLetter \<Rightarrow> jb_Lease j = None \<and> jb_DeadLetterAt j \<noteq> None \<and> jb_CompletedAt j = None
      | StatusOther _ \<Rightarrow> False) \<and>
     (\<not> po_RequireTerminalFence (jb_Policy j) \<longrightarrow>
        0 \<le> jb_Attempt j \<and> jb_Attempt j \<le> po_MaxAttempts (jb_Policy j) \<and>
        (jb_Status j = StatusQueued \<longrightarrow> jb_Attempt j < po_MaxAttempts (jb_Policy j)))"

definition queue_wf :: "jobs \<Rightarrow> bool" where
  "queue_wf js \<longleftrightarrow> distinct (map fst js) \<and> (\<forall>(k, j)\<in>set js. job_wf k j)"

lemma queue_wfD: "queue_wf js \<Longrightarrow> map_of js k = Some j \<Longrightarrow> job_wf k j"
  by (auto simp: queue_wf_def dest: map_of_SomeD)

lemma queue_wfI:
  "distinct (map fst js) \<Longrightarrow> (\<And>k j. map_of js k = Some j \<Longrightarrow> job_wf k j) \<Longrightarrow> queue_wf js"
  by (auto simp: queue_wf_def)

lemma queue_wf_update: "queue_wf js \<Longrightarrow> job_wf k j \<Longrightarrow> queue_wf (AList.update k j js)"
  by (rule queue_wfI) (auto simp: queue_wf_def distinct_update update_conv' split: if_splits dest: map_of_SomeD)

lemma job_wf_ID: "job_wf k j \<Longrightarrow> jb_ID j = k"
  by (simp add: job_wf_def)

subsection \<open>What a call does to one job\<close>

text \<open>Only \<open>Ack\<close> completes a job, only a \<open>Nack\<close> with \<open>AllowDeadLetter\<close> dead-letters a protected one, and
  only \<open>RequeueDeadLetter\<close> takes a job out of the dead letters.\<close>

datatype call_kind = PlainCall | AckCall | FencedNack | ReplayCall

fun kind_of :: "qcall \<Rightarrow> call_kind" where
  "kind_of (CallAck cx now r) = AckCall"
| "kind_of (CallNack cx now r) = (if nk_AllowDeadLetter r then FencedNack else PlainCall)"
| "kind_of (CallRequeue cx now k) = ReplayCall"
| "kind_of _ = PlainCall"

inductive jstep :: "call_kind \<Rightarrow> Job \<Rightarrow> Job \<Rightarrow> bool" for c where
  J_release: "jb_Status j = StatusLeased \<Longrightarrow> allow \<longrightarrow> c = FencedNack \<Longrightarrow>
     jstep c j (releaseForRetryLocked (j\<lparr>jb_LastErrorCode := code, jb_LastError := err\<rparr>) now allow)"
| J_claim: "jb_Status j = StatusQueued \<Longrightarrow> jstep c j (fst (claim_job now w j))"
| J_renew: "jb_Status j = StatusLeased \<Longrightarrow> jb_Lease j = Some l \<Longrightarrow>
     jstep c j (j\<lparr>jb_Lease := Some (l\<lparr>le_ExpiresAt := t\<rparr>), jb_UpdatedAt := now\<rparr>)"
| J_ack: "jb_Status j = StatusLeased \<Longrightarrow> c = AckCall \<Longrightarrow>
     jstep c j (j\<lparr>jb_Status := StatusCompleted, jb_Lease := None, jb_UpdatedAt := now, jb_CompletedAt := Some now\<rparr>)"
| J_replay: "jb_Status j = StatusDeadLetter \<Longrightarrow> c = ReplayCall \<Longrightarrow>
     jstep c j (j\<lparr>jb_Status := StatusQueued, jb_Attempt := 0, jb_AvailableAt := now, jb_Lease := None,
        jb_LastErrorCode := [], jb_LastError := [], jb_DeadLetterAt := None, jb_UpdatedAt := now\<rparr>)"

inductive_cases jstep_cases: "jstep c j j'"

abbreviation jsteps :: "call_kind \<Rightarrow> Job \<Rightarrow> Job \<Rightarrow> bool" where
  "jsteps c \<equiv> (jstep c)\<^sup>*\<^sup>*"

lemma jstep_wf:
  assumes "jstep c j j'" and "job_wf k j"
  shows "job_wf k j'"
  using assms
proof cases
  case (J_release allow code err now)
  with assms(2) show ?thesis
    by (auto simp: job_wf_def releaseForRetryLocked_def Let_def)
next
  case (J_claim now w)
  have pol: "po_MaxAttempts (jb_Policy j) \<le> 1000" using assms(2) by (auto simp: job_wf_def validPolicy_def)
  have "in_s64 (jb_Attempt j + 1)" if "0 \<le> jb_Attempt j" "jb_Attempt j < po_MaxAttempts (jb_Policy j)"
    using that pol by (simp add: in_s64_def min_s64_def max_s64_def)
  with J_claim assms(2) show ?thesis by (auto simp: job_wf_def claim_job_def Let_def)
next
  case (J_renew l t now)
  with assms(2) show ?thesis by (auto simp: job_wf_def)
next
  case (J_ack now)
  with assms(2) show ?thesis by (auto simp: job_wf_def)
next
  case (J_replay now)
  with assms(2) show ?thesis by (auto simp: job_wf_def validPolicy_def)
qed

lemma jsteps_wf: "jsteps c j j' \<Longrightarrow> job_wf k j \<Longrightarrow> job_wf k j'"
  by (induction rule: rtranclp_induct) (auto intro: jstep_wf)

definition jobs_follow :: "call_kind \<Rightarrow> jobs \<Rightarrow> jobs \<Rightarrow> bool" where
  "jobs_follow c js js' \<longleftrightarrow> distinct (map fst js') \<and>
     (\<forall>k j. map_of js k = Some j \<longrightarrow> (\<exists>j'. map_of js' k = Some j' \<and> jsteps c j j')) \<and>
     (\<forall>k j'. map_of js k = None \<longrightarrow> map_of js' k = Some j' \<longrightarrow> job_wf k j' \<and> jb_Status j' = StatusQueued)"

lemma jobs_followD:
  assumes "jobs_follow c js js'"
  shows "distinct (map fst js')"
    and "map_of js k = Some j \<Longrightarrow> \<exists>j'. map_of js' k = Some j' \<and> jsteps c j j'"
    and "map_of js k = None \<Longrightarrow> map_of js' k = Some j' \<Longrightarrow> job_wf k j' \<and> jb_Status j' = StatusQueued"
  using assms unfolding jobs_follow_def by blast+

lemma jobs_follow_refl: "queue_wf js \<Longrightarrow> jobs_follow c js js"
  unfolding jobs_follow_def queue_wf_def by (simp del: map_of_eq_Some_iff)

lemma jobs_follow_update:
  assumes "queue_wf js" and "map_of js k = Some j" and "jsteps c j j'"
  shows "jobs_follow c js (AList.update k j' js)"
  using assms unfolding jobs_follow_def queue_wf_def
  by (simp add: distinct_update update_conv' del: map_of_eq_Some_iff)

lemma jobs_follow_wf:
  assumes "jobs_follow c js js'" and "queue_wf js"
  shows "queue_wf js'"
proof (rule queue_wfI)
  fix k j'
  assume j': "map_of js' k = Some j'"
  show "job_wf k j'"
  proof (cases "map_of js k")
    case None
    then show ?thesis using jobs_followD(3) [OF assms(1) _ j'] by blast
  next
    case (Some j)
    then have "jsteps c j j'" using jobs_followD(2) [OF assms(1) Some] j' by simp
    with queue_wfD [OF assms(2) Some] show ?thesis by (blast intro: jsteps_wf)
  qed
qed (rule jobs_followD(1) [OF assms(1)])

lemma jobs_follow_trans:
  assumes "jobs_follow c js js1" and "jobs_follow c js1 js2" and "map fst js1 = map fst js"
  shows "jobs_follow c js js2"
proof -
  have dom: "map_of js1 k = None" if "map_of js k = None" for k
    using that assms(3) by (metis map_of_eq_None_iff set_map)
  have "\<exists>j2. map_of js2 k = Some j2 \<and> jsteps c j j2" if "map_of js k = Some j" for k j
    using jobs_followD(2) [OF assms(1) that] jobs_followD(2) [OF assms(2)] by (meson rtranclp_trans)
  then show ?thesis unfolding jobs_follow_def using jobs_followD [OF assms(2)] dom by blast
qed

subsection \<open>Every method, on every job\<close>

lemma release_jstep:
  assumes "jb_Status j = StatusLeased"
  shows "jstep c j (releaseForRetryLocked j now False)"
  using J_release [where j = j and allow = False and c = c and code = "jb_LastErrorCode j" and err = "jb_LastError j"
      and now = now] assms by simp

lemma reap_follow:
  assumes "queue_wf js"
  shows "jobs_follow c js (fst (reapExpiredLocked now q js))"
    and "map fst (fst (reapExpiredLocked now q js)) = map fst js"
proof -
  let ?f = "\<lambda>k j. if expired q now j then releaseForRetryLocked j now False else j"
  show keys: "map fst (fst (reapExpiredLocked now q js)) = map fst js"
    by (simp add: reapExpiredLocked_def comp_def case_prod_beta)
  have mo: "map_of (fst (reapExpiredLocked now q js)) k = map_option (?f k) (map_of js k)" for k
    unfolding reapExpiredLocked_def fst_conv
    by (induction js) (auto simp: case_prod_beta)
  have "jsteps c j (?f k j)" for k j
    by (auto simp: expired_def intro: release_jstep r_into_rtranclp)
  then show "jobs_follow c js (fst (reapExpiredLocked now q js))"
    unfolding jobs_follow_def mo keys using assms by (simp add: queue_wf_def del: map_of_eq_Some_iff)
qed

lemma currentLease_follow:
  assumes wf: "queue_wf js" and call: "currentLeaseLocked r now js = (js', res)"
  shows "jobs_follow c js js'"
    and "res = Inr j \<Longrightarrow> js' = js \<and> map_of js (trim_space (lr_JobID r)) = Some j \<and>
      jb_ID j = trim_space (lr_JobID r) \<and> jb_Status j = StatusLeased \<and>
      (\<exists>l. jb_Lease j = Some l \<and> le_ID l = trim_space (lr_LeaseID r) \<and> le_WorkerID l = trim_space (lr_WorkerID r) \<and>
         now < le_ExpiresAt l)"
proof -
  let ?k = "trim_space (lr_JobID r)"
  have "js' = js \<or> (\<exists>j. map_of js ?k = Some j \<and> jb_Status j = StatusLeased \<and>
      js' = AList.update (jb_ID j) (releaseForRetryLocked j now False) js)"
    using call unfolding currentLeaseLocked_def
    by (auto simp del: map_of_eq_Some_iff split: option.splits if_splits)
  then show "jobs_follow c js js'"
  proof
    assume "\<exists>j. map_of js ?k = Some j \<and> jb_Status j = StatusLeased \<and>
      js' = AList.update (jb_ID j) (releaseForRetryLocked j now False) js"
    then obtain j where j: "map_of js ?k = Some j" "jb_Status j = StatusLeased"
      "js' = AList.update (jb_ID j) (releaseForRetryLocked j now False) js" by blast
    have "jb_ID j = ?k" using queue_wfD [OF wf j(1)] by (rule job_wf_ID)
    then show ?thesis using j(3) jobs_follow_update [OF wf j(1) r_into_rtranclp [of "jstep c", OF release_jstep [OF j(2)]]]
      by simp
  qed (simp add: jobs_follow_refl [OF wf])
  show "res = Inr j \<Longrightarrow> js' = js \<and> map_of js ?k = Some j \<and> jb_ID j = ?k \<and> jb_Status j = StatusLeased \<and>
      (\<exists>l. jb_Lease j = Some l \<and> le_ID l = trim_space (lr_LeaseID r) \<and> le_WorkerID l = trim_space (lr_WorkerID r) \<and>
         now < le_ExpiresAt l)"
    using call job_wf_ID [OF queue_wfD [OF wf, of ?k j]] unfolding currentLeaseLocked_def
    by (auto simp del: map_of_eq_Some_iff split: option.splits if_splits)
qed

lemma PrepareEnqueue_wf:
  assumes "PrepareEnqueue r now = Inr j"
  shows "job_wf (jb_ID j) j \<and> jb_Status j = StatusQueued"
  using assms
  by (auto simp: PrepareEnqueue_def normalizeEnqueueRequest_def jobIdentity_def job_wf_def Let_def validPolicy_def
      split: sum.splits option.splits if_splits)

lemma Enqueue_follow:
  assumes wf: "queue_wf js"
  shows "jobs_follow c js (fst (Enqueue cx now r js))"
proof (cases "fst (Enqueue cx now r js) = js")
  case False
  then obtain j where j: "PrepareEnqueue r now = Inr j" "map_of js (jb_ID j) = None"
    "fst (Enqueue cx now r js) = AList.update (jb_ID j) j js"
    unfolding Enqueue_def by (auto simp del: map_of_eq_Some_iff split: option.splits sum.splits if_splits)
  have "distinct (map fst js)" using wf by (simp add: queue_wf_def)
  with j(2) PrepareEnqueue_wf [OF j(1)] show ?thesis unfolding j(3) jobs_follow_def
    by (auto simp: distinct_update update_conv' simp del: map_of_eq_Some_iff split: if_splits)
qed (simp add: jobs_follow_refl [OF wf])

text \<open>\<open>Renew\<close>, \<open>Ack\<close> and \<open>Nack\<close> replace the job that \<open>currentLeaseLocked\<close> validated.\<close>

lemma lease_call_follow:
  assumes wf: "queue_wf js"
    and step: "\<And>j l. jb_Status j = StatusLeased \<Longrightarrow> jb_Lease j = Some l \<Longrightarrow> jstep c j (f j)"
    and call: "js' = (case currentLeaseLocked r now js of
        (js1, Inl e) \<Rightarrow> js1 | (js1, Inr j) \<Rightarrow> AList.update (jb_ID j) (f j) js1)"
  shows "jobs_follow c js js'"
proof (cases "currentLeaseLocked r now js")
  case (Pair js1 res)
  show ?thesis
  proof (cases res)
    case (Inl e)
    then show ?thesis using call Pair currentLease_follow(1) [OF wf Pair] by simp
  next
    case (Inr j)
    from currentLease_follow(2) [OF wf Pair Inr] obtain l where
      j: "js1 = js" "map_of js (jb_ID j) = Some j" "jb_Status j = StatusLeased" "jb_Lease j = Some l" by auto
    then show ?thesis
      using call Pair Inr jobs_follow_update [OF wf j(2) r_into_rtranclp [of "jstep c", OF step [OF j(3,4)]]] by simp
  qed
qed

lemma Renew_follow:
  assumes "queue_wf js"
  shows "jobs_follow c js (fst (Renew cx now r js))"
proof (cases cx)
  case None
  let ?f = "\<lambda>j. j\<lparr>jb_Lease := Some ((the (jb_Lease j))\<lparr>le_ExpiresAt := now + po_VisibilityTimeout (jb_Policy j)\<rparr>), jb_UpdatedAt := now\<rparr>"
  show ?thesis
    by (rule lease_call_follow [OF assms, where f = ?f and r = r and now = now])
       (auto simp: None Renew_def Let_def intro: jstep.J_renew split: prod.split sum.split)
qed (simp add: Renew_def jobs_follow_refl [OF assms])

lemma Ack_follow:
  assumes "queue_wf js"
  shows "jobs_follow AckCall js (fst (Ack cx now r js))"
proof (cases cx)
  case None
  let ?f = "\<lambda>j. j\<lparr>jb_Status := StatusCompleted, jb_Lease := None, jb_UpdatedAt := now, jb_CompletedAt := Some now\<rparr>"
  show ?thesis
    by (rule lease_call_follow [OF assms, where f = ?f and r = r and now = now])
       (auto simp: None Ack_def Let_def intro: jstep.J_ack split: prod.split sum.split)
qed (simp add: Ack_def jobs_follow_refl [OF assms])

lemma Nack_follow:
  assumes "queue_wf js" and "nk_AllowDeadLetter r \<longrightarrow> c = FencedNack"
  shows "jobs_follow c js (fst (Nack cx now r js))"
proof (cases cx)
  case None
  let ?f = "\<lambda>j. releaseForRetryLocked (j\<lparr>jb_LastErrorCode := trim_space (nk_ErrorCode r),
      jb_LastError := truncate (nk_Error r) 1024\<rparr>) now (nk_AllowDeadLetter r)"
  show ?thesis
    by (rule lease_call_follow [OF assms(1), where f = ?f and r = "nk_Lease r" and now = now])
       (use assms(2) in \<open>auto simp: None Nack_def Let_def intro!: jstep.J_release split: prod.split sum.split\<close>)
qed (simp add: Nack_def jobs_follow_refl [OF assms(1)])

lemma Reap_follow:
  assumes "queue_wf js"
  shows "jobs_follow c js (fst (Reap cx now q js))"
  using reap_follow(1) [OF assms] jobs_follow_refl [OF assms]
  by (auto simp: Reap_def case_prod_beta split: option.split)

lemma Requeue_follow:
  assumes wf: "queue_wf js"
  shows "jobs_follow ReplayCall js (fst (RequeueDeadLetter cx now k js))"
proof (cases "fst (RequeueDeadLetter cx now k js) = js")
  case False
  then obtain j where j: "map_of js (trim_space k) = Some j" "jb_Status j = StatusDeadLetter"
    "fst (RequeueDeadLetter cx now k js) = AList.update (jb_ID j) (j\<lparr>jb_Status := StatusQueued, jb_Attempt := 0,
        jb_AvailableAt := now, jb_Lease := None, jb_LastErrorCode := [], jb_LastError := [], jb_DeadLetterAt := None,
        jb_UpdatedAt := now\<rparr>) js"
    unfolding RequeueDeadLetter_def
    by (auto simp: Let_def simp del: map_of_eq_Some_iff split: option.splits if_splits)
  have "jb_ID j = trim_space k" using job_wf_ID [OF queue_wfD [OF wf j(1)]] .
  then show ?thesis unfolding j(3)
    using jobs_follow_update [OF wf j(1) r_into_rtranclp [of "jstep ReplayCall", OF jstep.J_replay [OF j(2) refl]]] by simp
qed (simp add: jobs_follow_refl [OF wf])

lemma claim_job_ID [simp]: "jb_ID (fst (claim_job now w j)) = jb_ID j"
  by (simp add: claim_job_def Let_def)

lemma claim_jobs_effect:
  assumes "distinct ks" and "\<forall>k\<in>set ks. \<exists>j. map_of js k = Some j \<and> jb_ID j = k"
  shows "map_of (fst (claim_jobs now w ks js)) =
       (\<lambda>k. if k \<in> set ks then map_option (\<lambda>j. fst (claim_job now w j)) (map_of js k) else map_of js k) \<and>
     snd (claim_jobs now w ks js) = map (\<lambda>k. claim_job now w (the (map_of js k))) ks \<and>
     (distinct (map fst js) \<longrightarrow> distinct (map fst (fst (claim_jobs now w ks js))))"
  using assms
proof (induction ks arbitrary: js)
  case (Cons k ks)
  obtain j where j: "map_of js k = Some j" "jb_ID j = k" using Cons.prems(2) by auto
  define js1 where "js1 = AList.update k (fst (claim_job now w j)) js"
  have call: "claim_jobs now w (k # ks) js =
      (fst (claim_jobs now w ks js1), claim_job now w j # snd (claim_jobs now w ks js1))"
    using j by (simp add: js1_def case_prod_beta Let_def del: map_of_eq_Some_iff)
  have mo: "map_of js1 = (map_of js)(k \<mapsto> fst (claim_job now w j))" by (simp add: js1_def update_conv')
  have k: "k \<notin> set ks" "distinct ks" using Cons.prems(1) by auto
  have ex: "\<forall>k\<in>set ks. \<exists>j. map_of js1 k = Some j \<and> jb_ID j = k" using Cons.prems(2) k mo by auto
  have dist: "distinct (map fst js) \<Longrightarrow> distinct (map fst js1)" by (simp add: js1_def distinct_update)
  have same: "map (\<lambda>k. claim_job now w (the (map_of js1 k))) ks = map (\<lambda>k. claim_job now w (the (map_of js k))) ks"
    using k(1) mo by auto
  note IH = Cons.IH [OF k(2) ex]
  have "map_of (fst (claim_jobs now w ks js1)) = (\<lambda>k'. if k' \<in> set (k # ks)
      then map_option (\<lambda>j. fst (claim_job now w j)) (map_of js k') else map_of js k')"
    using conjunct1 [OF IH] j(1) k(1) unfolding mo by (auto simp: fun_eq_iff simp del: map_of_eq_Some_iff)
  with IH dist same j(1) show ?case unfolding call by simp
qed simp

lemma eligible_set:
  assumes "distinct (map fst js)"
  shows "set (eligibleLocked q now js) = {k. \<exists>j. map_of js k = Some j \<and> is_eligible q now j}"
    and "distinct (eligibleLocked q now js)"
proof -
  show "set (eligibleLocked q now js) = {k. \<exists>j. map_of js k = Some j \<and> is_eligible q now j}"
    using assms by (force simp: eligibleLocked_def)
  have "distinct (map fst (filter (\<lambda>(k, j). is_eligible q now j) js))"
    using assms distinct_map_filter by blast
  then show "distinct (eligibleLocked q now js)" by (simp add: eligibleLocked_def)
qed

lemma Claim_ok_shape:
  assumes "Claim cx now r js = (js', Inr ds)"
  shows "let q = trim_space (cl_Queue r); w = trim_space (cl_WorkerID r); limit = (if cl_Limit r \<le> 0 then 1 else cl_Limit r);
      js1 = fst (reapExpiredLocked now q js); ks = take (nat limit) (eligibleLocked q now js1)
    in js' = fst (claim_jobs now w ks js1) \<and> ds = snd (claim_jobs now w ks js1)"
  using assms by (auto simp: Claim_def Let_def case_prod_beta split: option.splits if_splits)

lemma Claim_follow:
  assumes wf: "queue_wf js"
  shows "jobs_follow c js (fst (Claim cx now r js))"
proof (cases "snd (Claim cx now r js)")
  case (Inl e)
  then have "fst (Claim cx now r js) = js"
    by (auto simp: Claim_def Let_def case_prod_beta split: option.splits if_splits)
  then show ?thesis using jobs_follow_refl [OF wf] by simp
next
  case (Inr ds)
  define q where "q = trim_space (cl_Queue r)"
  define js1 where "js1 = fst (reapExpiredLocked now q js)"
  define ks where "ks = take (nat (if cl_Limit r \<le> 0 then 1 else cl_Limit r)) (eligibleLocked q now js1)"
  define w where "w = trim_space (cl_WorkerID r)"
  have js': "fst (Claim cx now r js) = fst (claim_jobs now w ks js1)"
    using Claim_ok_shape [of cx now r js "fst (Claim cx now r js)" ds] Inr
    by (simp add: Let_def q_def js1_def ks_def w_def prod_eq_iff)
  have first: "jobs_follow c js js1" "map fst js1 = map fst js" using reap_follow [OF wf] by (simp_all add: js1_def)
  have wf1: "queue_wf js1" by (rule jobs_follow_wf [OF first(1) wf])
  then have dist: "distinct (map fst js1)" by (simp add: queue_wf_def)
  have el: "\<exists>j. map_of js1 k = Some j \<and> is_eligible q now j" if "k \<in> set ks" for k
    using that eligible_set(1) [OF dist] set_take_subset [of _ "eligibleLocked q now js1"] unfolding ks_def by fast
  have ks: "distinct ks" "\<forall>k\<in>set ks. \<exists>j. map_of js1 k = Some j \<and> jb_ID j = k"
    using eligible_set(2) [OF dist] unfolding ks_def by (simp, metis ks_def el job_wf_ID queue_wfD [OF wf1])
  note eff = claim_jobs_effect [OF ks, of now w]
  have "jobs_follow c js1 (fst (claim_jobs now w ks js1))"
    unfolding jobs_follow_def conjunct1 [OF eff]
  proof (intro conjI allI impI)
    fix k j
    assume j: "map_of js1 k = Some j"
    have "jsteps c j (fst (claim_job now w j))" if "k \<in> set ks"
      using el [OF that] j by (auto simp: is_eligible_def simp del: map_of_eq_Some_iff intro!: r_into_rtranclp jstep.J_claim)
    then show "\<exists>j'. (if k \<in> set ks then map_option (\<lambda>j. fst (claim_job now w j)) (map_of js1 k) else map_of js1 k) = Some j' \<and>
        jsteps c j j'" using j by simp
  qed (use eff dist in \<open>auto simp del: map_of_eq_Some_iff split: if_splits\<close>)
  then show ?thesis unfolding js' by (rule jobs_follow_trans [OF first(1) _ first(2)])
qed

lemma call_follow: "queue_wf js \<Longrightarrow> jobs_follow (kind_of c) js (call_effect c js)"
  by (cases c) (simp_all add: Enqueue_follow Claim_follow Renew_follow Ack_follow Nack_follow Reap_follow Requeue_follow)

lemma call_wf: "queue_wf js \<Longrightarrow> queue_wf (call_effect c js)"
  using call_follow jobs_follow_wf by blast

lemma calls_wf: "queue_wf js \<Longrightarrow> queue_wf (run_calls cs js)"
  by (induction cs arbitrary: js) (simp_all add: call_wf)

lemma queue_wf_Nil: "queue_wf []"
  by (simp add: queue_wf_def)

lemmas reached_wf = calls_wf [OF queue_wf_Nil]

text \<open>What no call changes of a job: everything that was enqueued.\<close>

definition job_request :: "Job \<Rightarrow> string \<times> string \<times> string \<times> string \<times> string \<times> string \<times> int \<times> Policy \<times> time" where
  "job_request j = (jb_ID j, jb_Queue j, jb_ClientJobID j, jb_Fingerprint j, jb_Kind j, jb_Payload j, jb_Priority j,
     jb_Policy j, jb_CreatedAt j)"

lemma jstep_request: "jstep c j j' \<Longrightarrow> job_request j' = job_request j"
  by (erule jstep_cases) (auto simp: job_request_def releaseForRetryLocked_def claim_job_def Let_def)

lemma jsteps_request: "jsteps c j j' \<Longrightarrow> job_request j' = job_request j"
  by (induction rule: rtranclp_induct) (auto dest: jstep_request)

lemma completed_jstep: "jstep c j j' \<Longrightarrow> jb_Status j \<noteq> StatusCompleted"
  by (erule jstep_cases) simp_all

lemma dead_letter_jstep: "jstep c j j' \<Longrightarrow> c \<noteq> ReplayCall \<Longrightarrow> jb_Status j \<noteq> StatusDeadLetter"
  by (erule jstep_cases) simp_all

lemma completed_stuck: "jsteps c j j' \<Longrightarrow> jb_Status j = StatusCompleted \<Longrightarrow> j' = j"
  by (induction rule: rtranclp_induct) (auto dest: completed_jstep)

lemma dead_letter_stuck: "jsteps c j j' \<Longrightarrow> c \<noteq> ReplayCall \<Longrightarrow> jb_Status j = StatusDeadLetter \<Longrightarrow> j' = j"
  by (induction rule: rtranclp_induct) (auto dest: dead_letter_jstep)

lemma protected_jstep:
  assumes "jstep c j j'" and "c \<noteq> FencedNack" and "po_RequireTerminalFence (jb_Policy j)" and "jb_Status j \<noteq> StatusDeadLetter"
  shows "jb_Status j' \<noteq> StatusDeadLetter \<and> po_RequireTerminalFence (jb_Policy j')"
  using assms by (elim jstep_cases) (auto simp: releaseForRetryLocked_def claim_job_def Let_def)

lemma protected_jsteps:
  assumes "jsteps c j j'" and "c \<noteq> FencedNack" and "po_RequireTerminalFence (jb_Policy j)" and "jb_Status j \<noteq> StatusDeadLetter"
  shows "jb_Status j' \<noteq> StatusDeadLetter \<and> po_RequireTerminalFence (jb_Policy j')"
  using assms by (induction rule: rtranclp_induct) (auto dest: protected_jstep)

text \<open>A predicate of one job that the job steps of the allowed kinds keep, every such sequence of calls keeps.\<close>

lemma calls_job_invariant:
  assumes "queue_wf js" and "map_of js k = Some j" and "P j"
    and "\<And>c j j'. c \<in> set cs \<Longrightarrow> P j \<Longrightarrow> jsteps (kind_of c) j j' \<Longrightarrow> P j'"
  shows "\<exists>j'. map_of (run_calls cs js) k = Some j' \<and> P j'"
  using assms
proof (induction cs arbitrary: js j)
  case (Cons c cs)
  from jobs_followD(2) [OF call_follow [OF Cons.prems(1)] Cons.prems(2)] obtain j1 where
    j1: "map_of (call_effect c js) k = Some j1" "jsteps (kind_of c) j j1" by blast
  have P: "P j1" by (rule Cons.prems(4) [OF _ Cons.prems(3) j1(2)]) simp
  have "\<exists>j'. map_of (run_calls cs (call_effect c js)) k = Some j' \<and> P j'"
    by (rule Cons.IH [OF call_wf [OF Cons.prems(1)] j1(1) P]) (rule Cons.prems(4), simp_all)
  then show ?case by simp
qed simp

lemma calls_kept:
  assumes "queue_wf js" and "map_of js k = Some j"
  shows "\<exists>j'. map_of (run_calls cs js) k = Some j' \<and> job_request j' = job_request j"
  by (rule calls_job_invariant [OF assms]) (simp_all add: jsteps_request)

end
