(* ===== verification/Queue_Properties.thy ===== *)
theory Queue_Properties
  imports Queue_Facts
begin

text \<open>
  Properties of the delivery queue, over every sequence of calls from the empty queue: the
  invariant of the stored jobs, the finality of completion, the discipline of the dead letters,
  the exact retry delay, what a claim delivers, idempotent enqueueing, and the lease fence.
\<close>

subsection \<open>An example\<close>

definition qx_policy :: "bool \<Rightarrow> Policy" where
  "qx_policy fence = \<lparr>po_MaxAttempts = 1, po_VisibilityTimeout = 100, po_InitialBackoff = 10, po_MaxBackoff = 50,
     po_BackoffMultiplier = 3, po_RequireTerminalFence = fence\<rparr>"

definition qx_enq :: "bool \<Rightarrow> EnqueueRequest" where
  "qx_enq fence = \<lparr>en_Queue = ''q'', en_ClientJobID = ''c1'', en_Kind = ''run'', en_Payload = [], en_Priority = 0,
     en_AvailableAt = 0, en_Policy = qx_policy fence\<rparr>"

definition qx_fp :: "bool \<Rightarrow> string" where
  "qx_fp fence = sha256_hex (the (job_material ((qx_enq fence)\<lparr>en_Payload := ''null'', en_AvailableAt := 5\<rparr>)))"

abbreviation qx_key :: string where
  "qx_key \<equiv> stableID ''job'' [''q'', ''c1'']"

definition qx_job :: "bool \<Rightarrow> Job" where
  "qx_job fence = \<lparr>jb_ID = qx_key, jb_Queue = ''q'', jb_ClientJobID = ''c1'', jb_Fingerprint = qx_fp fence,
     jb_Kind = ''run'', jb_Payload = ''null'', jb_Priority = 0, jb_Policy = qx_policy fence, jb_Status = StatusQueued,
     jb_Attempt = 0, jb_Generation = 0, jb_AvailableAt = 5, jb_Lease = None, jb_LastErrorCode = [], jb_LastError = [],
     jb_CreatedAt = 5, jb_UpdatedAt = 5, jb_CompletedAt = None, jb_DeadLetterAt = None\<rparr>"

lemma qx_normalize:
  "normalizeEnqueueRequest (qx_enq fence) 5 = Inr ((qx_enq fence)\<lparr>en_Payload := ''null'', en_AvailableAt := 5\<rparr>)"
proof -
  have "normalizeEnqueueRequest (qx_enq True) 5 = Inr ((qx_enq True)\<lparr>en_Payload := ''null'', en_AvailableAt := 5\<rparr>)"
    by code_simp
  moreover have "normalizeEnqueueRequest (qx_enq False) 5 = Inr ((qx_enq False)\<lparr>en_Payload := ''null'', en_AvailableAt := 5\<rparr>)"
    by code_simp
  ultimately show ?thesis by (cases fence) (simp_all only:)
qed

lemma qx_material: "\<exists>m. job_material ((qx_enq fence)\<lparr>en_Payload := ''null'', en_AvailableAt := 5\<rparr>) = Some m"
proof -
  have "job_material ((qx_enq True)\<lparr>en_Payload := ''null'', en_AvailableAt := 5\<rparr>) \<noteq> None" by code_simp
  moreover have "job_material ((qx_enq False)\<lparr>en_Payload := ''null'', en_AvailableAt := 5\<rparr>) \<noteq> None" by code_simp
  ultimately have "job_material ((qx_enq fence)\<lparr>en_Payload := ''null'', en_AvailableAt := 5\<rparr>) \<noteq> None"
    by (cases fence) (simp_all only: not_False_eq_True)
  then show ?thesis by simp
qed

lemma qx_prepare: "PrepareEnqueue (qx_enq fence) 5 = Inr (qx_job fence)"
  using qx_material [of fence]
  by (auto simp: PrepareEnqueue_def qx_normalize jobIdentity_def qx_job_def qx_fp_def) (auto simp: qx_enq_def)

lemma qx_enqueued: "Enqueue None 5 (qx_enq fence) [] = ([(qx_key, qx_job fence)], Inr (qx_job fence, False))"
  by (simp add: Enqueue_def qx_prepare) (simp add: qx_job_def)

definition qx_claim :: ClaimRequest where
  "qx_claim = \<lparr>cl_Queue = ''q'', cl_WorkerID = ''w'', cl_Limit = 1\<rparr>"

lemma qx_trim: "trim_space ''q'' = ''q''" "trim_space ''w'' = ''w''"
  by (rule trim_space_graphic; simp add: graphic_def)+

lemma trim_stableID [simp]: "pfx \<noteq> [] \<Longrightarrow> graphic (hd pfx) \<Longrightarrow> trim_space (stableID pfx vs) = stableID pfx vs"
  using trim_space_digest [of "pfx @ ''_''" 32] by (simp add: stableID_def)

lemma qx_claimed:
  "Claim None 6 qx_claim [(qx_key, qx_job fence)] =
     ([(qx_key, fst (claim_job 6 ''w'' (qx_job fence)))], Inr [claim_job 6 ''w'' (qx_job fence)])"
  by (simp add: Claim_def qx_claim_def qx_trim reapExpiredLocked_def expired_def eligibleLocked_def is_eligible_def
      qx_job_def Let_def case_prod_beta claim_job_def)

definition qx_leased :: "bool \<Rightarrow> Job" where
  "qx_leased fence = fst (claim_job 6 ''w'' (qx_job fence))"

definition qx_calls :: "bool \<Rightarrow> qcall list" where
  "qx_calls fence = [CallEnqueue None 5 (qx_enq fence), CallClaim None 6 qx_claim]"

lemma qx_calls_run: "run_calls (qx_calls fence) [] = [(qx_key, qx_leased fence)]"
  by (simp add: qx_calls_def qx_enqueued qx_claimed qx_leased_def)

definition qx_lr :: LeaseRequest where
  "qx_lr = \<lparr>lr_JobID = qx_key, lr_LeaseID = stableID ''lease'' [qx_key, ''1''], lr_WorkerID = ''w''\<rparr>"

lemmas qx_leased_simps = qx_leased_def claim_job_def qx_job_def Let_def

subsection \<open>The invariant\<close>

text \<open>C21: After any sequence of calls, whatever the callers, their requests and the clock readings, the keys are
  distinct and every stored job satisfies the queue's invariant: it is stored under its derived ID, its policy is valid,
  a lease exists exactly while it is leased and carries the job's current generation and attempt, the completion
  and dead-letter times are set exactly in those states, and an unprotected job never exceeds its attempts.\<close>

theorem queue_invariant:
  "distinct (map fst (run_calls cs [])) \<and> (\<forall>k j. map_of (run_calls cs []) k = Some j \<longrightarrow> job_wf k j)"
  using reached_wf [of cs] queue_wfD unfolding queue_wf_def by blast

theorem queue_invariant_witness: "job_wf qx_key (qx_leased True)"
  using queue_invariant [of "qx_calls True"] unfolding qx_calls_run by simp

subsection \<open>Completion and dead letters\<close>

text \<open>C22: A completed job is never changed again, by any sequence of calls.\<close>

theorem completed_job_is_final:
  assumes "map_of (run_calls cs []) k = Some j" and "jb_Status j = StatusCompleted"
  shows "map_of (run_calls (cs @ cs') []) k = Some j"
  using calls_job_invariant [OF reached_wf assms(1), of "\<lambda>j'. j' = j" cs'] completed_stuck assms(2) by auto

definition qx_done :: Job where
  "qx_done = (qx_leased True)\<lparr>jb_Status := StatusCompleted, jb_Lease := None, jb_UpdatedAt := 7, jb_CompletedAt := Some 7\<rparr>"

lemma qx_acked: "Ack None 7 qx_lr [(qx_key, qx_leased True)] = ([(qx_key, qx_done)], Inr qx_done)"
proof -
  have "dec_u64 1 = ''1''" by code_simp
  then show ?thesis
    by (simp add: Ack_def currentLeaseLocked_def qx_lr_def qx_trim qx_done_def qx_leased_simps graphic_def qx_policy_def)
qed

lemma qx_acked_run: "run_calls (qx_calls True @ [CallAck None 7 qx_lr]) [] = [(qx_key, qx_done)]"
  by (simp add: qx_calls_run qx_acked)

theorem completed_job_is_final_witness:
  "jb_Status qx_done = StatusCompleted \<and>
     map_of (run_calls ((qx_calls True @ [CallAck None 7 qx_lr]) @ [CallClaim None 500 qx_claim]) []) qx_key = Some qx_done"
proof
  show st: "jb_Status qx_done = StatusCompleted" by (simp add: qx_done_def)
  show "map_of (run_calls ((qx_calls True @ [CallAck None 7 qx_lr]) @ [CallClaim None 500 qx_claim]) []) qx_key = Some qx_done"
    by (rule completed_job_is_final [OF _ st], unfold qx_acked_run) simp
qed

text \<open>C23: A job whose policy requires a terminal fence reaches the dead letters only through a \<open>Nack\<close> with
  \<open>AllowDeadLetter\<close>: neither an expired lease (in a claim, a reap or a lease call) nor an exhausted attempt count
  takes it there.\<close>

theorem protected_job_needs_fence:
  assumes "map_of (run_calls cs []) k = Some j" and "po_RequireTerminalFence (jb_Policy j)"
    and "jb_Status j \<noteq> StatusDeadLetter"
    and "\<forall>cx now r. CallNack cx now r \<in> set cs' \<longrightarrow> \<not> nk_AllowDeadLetter r"
  shows "\<exists>j'. map_of (run_calls (cs @ cs') []) k = Some j' \<and> jb_Status j' \<noteq> StatusDeadLetter \<and>
     po_RequireTerminalFence (jb_Policy j')"
proof -
  have kind: "kind_of c \<noteq> FencedNack" if "c \<in> set cs'" for c using that assms(4) by - (cases c, auto)
  show ?thesis
    using calls_job_invariant [OF reached_wf assms(1),
        of "\<lambda>j. jb_Status j \<noteq> StatusDeadLetter \<and> po_RequireTerminalFence (jb_Policy j)" cs']
      protected_jsteps [OF _ kind] assms(2,3) by auto
qed

theorem protected_job_needs_fence_witness:
  "\<exists>j'. map_of (run_calls (qx_calls True @ [CallReap None 500 ''q'']) []) qx_key = Some j' \<and> jb_Status j' \<noteq> StatusDeadLetter \<and>
     po_RequireTerminalFence (jb_Policy j')"
  by (rule protected_job_needs_fence [where j = "qx_leased True"])
     (simp_all add: qx_calls_run qx_leased_simps qx_policy_def)

text \<open>C24: A dead-lettered job stays as it is under every sequence of calls without \<open>RequeueDeadLetter\<close>.\<close>

theorem dead_letter_needs_replay:
  assumes "map_of (run_calls cs []) k = Some j" and "jb_Status j = StatusDeadLetter"
    and "\<forall>cx now k. CallRequeue cx now k \<notin> set cs'"
  shows "map_of (run_calls (cs @ cs') []) k = Some j"
proof -
  have "kind_of c \<noteq> ReplayCall" if "c \<in> set cs'" for c using that assms(3) by - (cases c, auto)
  then show ?thesis
    using calls_job_invariant [OF reached_wf assms(1), of "\<lambda>j'. j' = j" cs'] dead_letter_stuck assms(2) by auto
qed

definition qx_dead :: Job where
  "qx_dead = releaseForRetryLocked (qx_leased False) 500 False"

lemma qx_dead_run: "run_calls (qx_calls False @ [CallReap None 500 ''q'']) [] = [(qx_key, qx_dead)]"
  by (simp add: qx_calls_run Reap_def reapExpiredLocked_def expired_def qx_dead_def qx_trim)
     (simp add: qx_leased_simps qx_policy_def)

theorem dead_letter_needs_replay_witness:
  "jb_Status qx_dead = StatusDeadLetter \<and>
     map_of (run_calls ((qx_calls False @ [CallReap None 500 ''q'']) @ [CallClaim None 900 qx_claim]) []) qx_key = Some qx_dead"
proof
  have "wrap_s64 1 = 1" by code_simp
  then show st: "jb_Status qx_dead = StatusDeadLetter"
    by (simp add: qx_dead_def releaseForRetryLocked_def qx_leased_simps qx_policy_def)
  show "map_of (run_calls ((qx_calls False @ [CallReap None 500 ''q'']) @ [CallClaim None 900 qx_claim]) []) qx_key = Some qx_dead"
    by (rule dead_letter_needs_replay [OF _ st], unfold qx_dead_run) simp_all
qed

subsection \<open>Retry delay\<close>

text \<open>C25: For a valid policy and any attempt the retry delay is exactly the initial backoff times the multiplier to
  the power of the attempts before, capped by the maximum: the loop's bound of 64 iterations and its 64-bit
  products lose nothing.\<close>

theorem retryBackoff_exact:
  assumes "validPolicy p" and "1 \<le> attempt"
  shows "retryBackoff p attempt =
     min (po_MaxBackoff p) (po_InitialBackoff p * po_BackoffMultiplier p ^ nat (attempt - 1))"
  by (rule retryBackoff_value [OF assms])

theorem retryBackoff_exact_witness:
  "validPolicy (qx_policy True) \<and> retryBackoff (qx_policy True) 2 = 30 \<and> retryBackoff (qx_policy True) 70 = 50"
proof -
  have valid: "validPolicy (qx_policy True)" by (simp add: validPolicy_def qx_policy_def)
  have "retryBackoff (qx_policy True) 2 = 30" using retryBackoff_exact [OF valid, of 2] by (simp add: qx_policy_def)
  moreover have "retryBackoff (qx_policy True) 70 = 50" using retryBackoff_exact [OF valid, of 70] by (simp add: qx_policy_def)
  ultimately show ?thesis using valid by blast
qed

subsection \<open>Claims\<close>

definition claim_limit :: "ClaimRequest \<Rightarrow> nat" where
  "claim_limit r = nat (if cl_Limit r \<le> 0 then 1 else cl_Limit r)"

definition claimable_job :: "ClaimRequest \<Rightarrow> time \<Rightarrow> jobs \<Rightarrow> string \<Rightarrow> Job \<Rightarrow> bool" where
  "claimable_job r now js k j \<longleftrightarrow>
     map_of (fst (reapExpiredLocked now (trim_space (cl_Queue r)) js)) k = Some j \<and> is_eligible (trim_space (cl_Queue r)) now j"

lemma Claim_eq:
  assumes wf: "queue_wf js" and "Claim cx now r js = (js', Inr ds)"
  defines "q \<equiv> trim_space (cl_Queue r)"
  defines "js1 \<equiv> fst (reapExpiredLocked now q js)"
  defines "ks \<equiv> take (claim_limit r) (eligibleLocked q now js1)"
  shows "distinct ks" and "set (eligibleLocked q now js1) = {k. \<exists>j. claimable_job r now js k j}"
    and "distinct (eligibleLocked q now js1)"
    and "k \<in> set ks \<Longrightarrow> \<exists>j. claimable_job r now js k j \<and> jb_ID j = k"
    and "map_of js' = (\<lambda>k. if k \<in> set ks then map_option (\<lambda>j. fst (claim_job now (trim_space (cl_WorkerID r)) j)) (map_of js1 k)
       else map_of js1 k)"
    and "ds = map (\<lambda>k. claim_job now (trim_space (cl_WorkerID r)) (the (map_of js1 k))) ks"
proof -
  have shape: "js' = fst (claim_jobs now (trim_space (cl_WorkerID r)) ks js1)"
    "ds = snd (claim_jobs now (trim_space (cl_WorkerID r)) ks js1)"
    using Claim_ok_shape [OF assms(2)] by (simp_all add: Let_def q_def js1_def ks_def claim_limit_def)
  have wf1: "queue_wf js1" unfolding js1_def using reap_follow(1) [OF wf] jobs_follow_wf wf by blast
  then have dist: "distinct (map fst js1)" by (simp add: queue_wf_def)
  show el: "set (eligibleLocked q now js1) = {k. \<exists>j. claimable_job r now js k j}"
    using eligible_set(1) [OF dist] by (simp add: claimable_job_def q_def js1_def)
  show dl: "distinct (eligibleLocked q now js1)" by (rule eligible_set(2) [OF dist])
  then show d: "distinct ks" by (simp add: ks_def)
  show ex: "\<exists>j. claimable_job r now js k j \<and> jb_ID j = k" if "k \<in> set ks" for k
    using that el in_set_takeD [of k] job_wf_ID [OF queue_wfD [OF wf1]] unfolding ks_def claimable_job_def js1_def q_def
    by blast
  have ks: "\<forall>k\<in>set ks. \<exists>j. map_of js1 k = Some j \<and> jb_ID j = k"
    using ex unfolding claimable_job_def js1_def q_def by blast
  show "map_of js' = (\<lambda>k. if k \<in> set ks then map_option (\<lambda>j. fst (claim_job now (trim_space (cl_WorkerID r)) j)) (map_of js1 k)
       else map_of js1 k)" "ds = map (\<lambda>k. claim_job now (trim_space (cl_WorkerID r)) (the (map_of js1 k))) ks"
    using claim_jobs_effect [OF d ks] shape by simp_all
qed

lemma claim_key_claimed [simp]: "claim_key (fst (claim_job now w j)) = claim_key j"
  by (simp add: claim_key_def claim_job_def Let_def)

lemma eligible_sorted: "sorted (map (\<lambda>k. claim_key (the (map_of js k))) (eligibleLocked q now js))"
  by (simp add: eligibleLocked_def)

text \<open>C26: A successful claim first releases the expired leases of the queue and then delivers, in the order of
  priority, availability, creation time and ID, exactly the first \<open>limit\<close> claimable_job jobs: each is stored
  as delivered, leased to the worker with the next attempt and generation; a claimable_job job that is left comes after all
  the delivered ones, and no other job changes.\<close>

theorem Claim_delivers_first:
  assumes "Claim None now r (run_calls cs []) = (js', Inr ds)"
  defines "js \<equiv> run_calls cs []"
  shows "length ds = min (claim_limit r) (card {k. \<exists>j. claimable_job r now js k j}) \<and>
     sorted (map (claim_key \<circ> fst) ds) \<and> distinct (map (jb_ID \<circ> fst) ds) \<and>
     (\<forall>d\<in>set ds. \<exists>j. claimable_job r now js (jb_ID (fst d)) j \<and> d = claim_job now (trim_space (cl_WorkerID r)) j \<and>
        map_of js' (jb_ID (fst d)) = Some (fst d)) \<and>
     (\<forall>k j. claimable_job r now js k j \<longrightarrow> k \<notin> jb_ID ` fst ` set ds \<longrightarrow> (\<forall>d\<in>set ds. claim_key (fst d) \<le> claim_key j)) \<and>
     (\<forall>k. k \<notin> jb_ID ` fst ` set ds \<longrightarrow> map_of js' k = map_of (fst (reapExpiredLocked now (trim_space (cl_Queue r)) js)) k)"
proof -
  define js1 where "js1 = fst (reapExpiredLocked now (trim_space (cl_Queue r)) js)"
  define el where "el = eligibleLocked (trim_space (cl_Queue r)) now js1"
  define ks where "ks = take (claim_limit r) el"
  note eq = Claim_eq [OF reached_wf assms(1), folded js_def, folded js1_def, folded el_def, folded ks_def]
  let ?d = "\<lambda>k. claim_job now (trim_space (cl_WorkerID r)) (the (map_of js1 k))"
  have at: "\<exists>j. claimable_job r now js k j \<and> jb_ID j = k \<and> map_of js1 k = Some j" if "k \<in> set ks" for k
    using eq(4) [OF that] unfolding claimable_job_def js1_def by blast
  have ID: "jb_ID (fst (?d k)) = k" if "k \<in> set ks" for k using at [OF that] by auto
  have ids: "map (jb_ID \<circ> fst) ds = ks" unfolding eq(6) using ID by (simp add: map_idI)
  then have img: "jb_ID ` fst ` set ds = set ks" by (metis image_comp list.set_map)
  have key: "claim_key (fst (?d k)) = claim_key (the (map_of js1 k))" for k by simp
  have srt: "sorted (map (\<lambda>k. claim_key (the (map_of js1 k))) el)" unfolding el_def by (rule eligible_sorted)
  have "length ds = min (claim_limit r) (card {k. \<exists>j. claimable_job r now js k j})"
    using distinct_card [OF eq(3)] eq(2) by (simp add: eq(6) ks_def min.commute)
  moreover have "sorted (map (claim_key \<circ> fst) ds)"
    using sorted_wrt_take [OF srt [unfolded sorted_map], of "claim_limit r"]
    by (simp add: eq(6) ks_def sorted_map comp_def take_map)
  moreover have "distinct (map (jb_ID \<circ> fst) ds)" using eq(1) ids by simp
  moreover have "\<forall>d\<in>set ds. \<exists>j. claimable_job r now js (jb_ID (fst d)) j \<and>
      d = claim_job now (trim_space (cl_WorkerID r)) j \<and> map_of js' (jb_ID (fst d)) = Some (fst d)"
  proof
    fix d assume "d \<in> set ds"
    then obtain k where k: "k \<in> set ks" "d = ?d k" unfolding eq(6) by auto
    from at [OF k(1)] obtain j where j: "claimable_job r now js k j" "jb_ID j = k" "map_of js1 k = Some j" by blast
    have "jb_ID (fst d) = k" using ID [OF k(1)] k(2) by simp
    moreover have "map_of js' k = Some (fst d)" using k j(3) by (simp add: eq(5))
    ultimately show "\<exists>j. claimable_job r now js (jb_ID (fst d)) j \<and>
      d = claim_job now (trim_space (cl_WorkerID r)) j \<and> map_of js' (jb_ID (fst d)) = Some (fst d)"
      using j k(2) by auto
  qed
  moreover have "claim_key (fst d) \<le> claim_key j" if "claimable_job r now js k j" "k \<notin> set ks" "d \<in> set ds" for k j d
  proof -
    have j: "map_of js1 k = Some j" using that(1) by (simp add: claimable_job_def js1_def)
    have "k \<in> set el" using that(1) eq(2) by auto
    then have "k \<in> set (drop (claim_limit r) el)" using that(2) set_append [of ks "drop (claim_limit r) el"]
      unfolding ks_def append_take_drop_id by blast
    moreover from \<open>d \<in> set ds\<close> obtain k' where "k' \<in> set ks" "d = ?d k'" unfolding eq(6) by auto
    ultimately show ?thesis
      using srt append_take_drop_id [of "claim_limit r" el] j unfolding sorted_map ks_def
      by (metis (mono_tags, lifting) key option.sel sorted_wrt_append)
  qed
  ultimately show ?thesis unfolding img by (simp add: eq(5) js1_def)
qed

theorem Claim_delivers_first_witness:
  "\<exists>js' ds. Claim None 6 qx_claim (run_calls [CallEnqueue None 5 (qx_enq True)] []) = (js', Inr ds) \<and>
     map (claim_key \<circ> fst) ds = [claim_key (qx_job True)] \<and> sorted (map (claim_key \<circ> fst) ds)"
proof -
  have c: "Claim None 6 qx_claim (run_calls [CallEnqueue None 5 (qx_enq True)] []) =
      ([(qx_key, fst (claim_job 6 ''w'' (qx_job True)))], Inr [claim_job 6 ''w'' (qx_job True)])"
    by (simp add: qx_enqueued qx_claimed)
  show ?thesis using Claim_delivers_first [OF c] c by (intro exI conjI) (assumption, simp, blast)
qed

subsection \<open>Go's map order\<close>

lemma same_lookup:
  assumes "distinct (map fst js)" and "mset js = mset js2"
  shows "map_of js2 = map_of js" and "distinct (map fst js2)"
proof -
  show d: "distinct (map fst js2)" using assms by (metis mset_eq_imp_distinct_iff mset_map)
  show "map_of js2 = map_of js" using map_of_inject_set [OF d assms(1)] assms(2) by (metis set_mset_mset)
qed

lemma reap_mset:
  assumes "mset js = mset js2"
  shows "mset (fst (reapExpiredLocked now q js)) = mset (fst (reapExpiredLocked now q js2))"
  using assms by (simp add: reapExpiredLocked_def)

lemma eligible_order_irrelevant:
  assumes wf: "queue_wf js" and eq: "mset js = mset js2"
  shows "eligibleLocked q now js2 = eligibleLocked q now js"
proof -
  have d: "distinct (map fst js)" using wf by (simp add: queue_wf_def)
  note same = same_lookup [OF d eq]
  have inj: "inj_on (\<lambda>k. claim_key (the (map_of js k))) {k. \<exists>j. map_of js k = Some j \<and> is_eligible q now j}"
  proof (rule inj_onI)
    fix k k'
    assume k: "k \<in> {k. \<exists>j. map_of js k = Some j \<and> is_eligible q now j}"
      and k': "k' \<in> {k. \<exists>j. map_of js k = Some j \<and> is_eligible q now j}"
      and key: "claim_key (the (map_of js k)) = claim_key (the (map_of js k'))"
    from k obtain j where j: "map_of js k = Some j" by blast
    from k' obtain j' where j': "map_of js k' = Some j'" by blast
    from key j j' have "jb_ID j = jb_ID j'" by (simp add: claim_key_def)
    then show "k = k'" using job_wf_ID [OF queue_wfD [OF wf j]] job_wf_ID [OF queue_wfD [OF wf j']] by simp
  qed
  have m: "mset (eligibleLocked q now js2) = mset (eligibleLocked q now js)"
    using eq by (simp add: eligibleLocked_def)
  have s: "sorted (map (\<lambda>k. claim_key (the (map_of js k))) (eligibleLocked q now js2))"
    using eligible_sorted [of js2 q now] unfolding same(1) .
  have "sort_key (\<lambda>k. claim_key (the (map_of js k))) (eligibleLocked q now js) = eligibleLocked q now js2"
    by (rule sort_key_inj_key_eq [OF m [symmetric] _ s]) (simp add: eligible_set(1) [OF d] inj)
  moreover have "sort_key (\<lambda>k. claim_key (the (map_of js k))) (eligibleLocked q now js) = eligibleLocked q now js"
    by (rule sort_key_inj_key_eq [OF refl _ eligible_sorted]) (simp add: eligible_set(1) [OF d] inj)
  ultimately show ?thesis by simp
qed

text \<open>C27: The result of a claim and the jobs it leaves do not depend on the order in which Go's map iteration
  presents the jobs.\<close>

theorem Claim_ignores_map_order:
  assumes "mset js2 = mset (run_calls cs [])" and "Claim None now r (run_calls cs []) = (js', Inr ds)"
  shows "\<exists>js2'. Claim None now r js2 = (js2', Inr ds) \<and> map_of js2' = map_of js'"
proof -
  define js where "js = run_calls cs []"
  have wf: "queue_wf js" unfolding js_def by (rule reached_wf)
  have d: "distinct (map fst js)" using wf by (simp add: queue_wf_def)
  have m: "mset js = mset js2" using assms(1) by (simp add: js_def)
  have wf2: "queue_wf js2" using same_lookup [OF d m] queue_wfD [OF wf] by (intro queue_wfI) simp_all
  have call: "Claim None now r js = (js', Inr ds)" using assms(2) by (simp add: js_def)
  from call obtain js2' ds2 where call2: "Claim None now r js2 = (js2', Inr ds2)"
    by (auto simp: Claim_def Let_def case_prod_beta split: if_splits)
  let ?q = "trim_space (cl_Queue r)"
  have wf1: "queue_wf (fst (reapExpiredLocked now ?q js))" using reap_follow(1) [OF wf] jobs_follow_wf wf by blast
  then have d1: "distinct (map fst (fst (reapExpiredLocked now ?q js)))" by (simp add: queue_wf_def)
  note el = eligible_order_irrelevant [OF wf1 reap_mset [OF m]]
  note lk = same_lookup(1) [OF d1 reap_mset [OF m]]
  note eq = Claim_eq(5,6) [OF wf call] and eq2 = Claim_eq(5,6) [OF wf2 call2, unfolded el lk]
  have "ds2 = ds" "map_of js2' = map_of js'" unfolding eq eq2 by (rule refl)+
  then show ?thesis using call2 by blast
qed

lemma qx_claim_ok: "\<exists>js' ds. Claim None now qx_claim js = (js', Inr ds)"
  by (simp add: Claim_def qx_claim_def qx_trim Let_def case_prod_beta)

theorem Claim_ignores_map_order_witness:
  "let js = run_calls [CallEnqueue None 5 (qx_enq True), CallEnqueue None 5 ((qx_enq True)\<lparr>en_ClientJobID := ''c2''\<rparr>)] []
   in \<exists>js' ds js2'. Claim None 6 qx_claim js = (js', Inr ds) \<and> Claim None 6 qx_claim (rev js) = (js2', Inr ds) \<and>
        map_of js2' = map_of js'"
proof -
  let ?cs = "[CallEnqueue None 5 (qx_enq True), CallEnqueue None 5 ((qx_enq True)\<lparr>en_ClientJobID := ''c2''\<rparr>)]"
  obtain js' ds where "Claim None 6 qx_claim (run_calls ?cs []) = (js', Inr ds)" using qx_claim_ok by blast
  then show ?thesis using Claim_ignores_map_order [of "rev (run_calls ?cs [])" ?cs 6 qx_claim js' ds]
    unfolding Let_def mset_rev by blast
qed

subsection \<open>Idempotent enqueueing\<close>

lemma PrepareEnqueue_time:
  assumes "PrepareEnqueue r now = Inr j"
  shows "\<exists>j2. PrepareEnqueue r now2 = Inr j2 \<and> jb_ID j2 = jb_ID j \<and> jb_Fingerprint j2 = jb_Fingerprint j"
  using assms
  by (auto simp: PrepareEnqueue_def normalizeEnqueueRequest_def jobIdentity_def job_material_def Let_def
      split: sum.splits option.splits if_splits)

lemma Enqueue_stored:
  assumes "Enqueue None now r js = (js1, Inr (j, b))"
  shows "\<exists>j0. PrepareEnqueue r now = Inr j0 \<and> map_of js1 (jb_ID j0) = Some j \<and> jb_Fingerprint j = jb_Fingerprint j0"
  using assms by (auto simp: Enqueue_def update_conv' split: sum.splits option.splits if_splits)

text \<open>C28: Enqueueing is idempotent: once a request was accepted, repeating it, at any later time and after any
  calls in between, creates nothing; it reports reuse and returns the job with everything that was enqueued unchanged.\<close>

theorem Enqueue_idempotent:
  assumes "Enqueue None now r (run_calls cs []) = (js1, Inr (j, reused))"
  shows "\<exists>j2. Enqueue None now2 r (run_calls cs2 js1) = (run_calls cs2 js1, Inr (j2, True)) \<and> job_request j2 = job_request j"
proof -
  from Enqueue_stored [OF assms] obtain j0 where
    j0: "PrepareEnqueue r now = Inr j0" "map_of js1 (jb_ID j0) = Some j" "jb_Fingerprint j = jb_Fingerprint j0" by blast
  from PrepareEnqueue_time [OF j0(1), of now2] obtain j1 where
    j1: "PrepareEnqueue r now2 = Inr j1" "jb_ID j1 = jb_ID j0" "jb_Fingerprint j1 = jb_Fingerprint j0" by blast
  have wf: "queue_wf js1" using call_wf [OF reached_wf, of "CallEnqueue None now r" cs] assms by simp
  from calls_kept [OF wf j0(2)] obtain j2 where
    j2: "map_of (run_calls cs2 js1) (jb_ID j0) = Some j2" "job_request j2 = job_request j" by blast
  then have "jb_Fingerprint j2 = jb_Fingerprint j1" using j0(3) j1(3) by (simp add: job_request_def)
  then show ?thesis using j1 j2 by (simp add: Enqueue_def del: map_of_eq_Some_iff)
qed

theorem Enqueue_idempotent_witness:
  "\<exists>j2. Enqueue None 900 (qx_enq True) (run_calls [CallClaim None 6 qx_claim] [(qx_key, qx_job True)]) =
     (run_calls [CallClaim None 6 qx_claim] [(qx_key, qx_job True)], Inr (j2, True)) \<and> job_request j2 = job_request (qx_job True)"
  by (rule Enqueue_idempotent [of 5 "qx_enq True" "[]" _ _ False]) (simp add: qx_enqueued)

subsection \<open>The lease fence\<close>

definition holds_lease :: "LeaseRequest \<Rightarrow> time \<Rightarrow> jobs \<Rightarrow> bool" where
  "holds_lease r now js \<longleftrightarrow> (case map_of js (trim_space (lr_JobID r)) of
       Some j \<Rightarrow> jb_Status j = StatusLeased \<and> (case jb_Lease j of
           Some l \<Rightarrow> le_ID l = trim_space (lr_LeaseID r) \<and> le_WorkerID l = trim_space (lr_WorkerID r) \<and> now < le_ExpiresAt l
         | None \<Rightarrow> False)
     | None \<Rightarrow> False)"

lemma currentLease_iff: "\<not> isl (snd (currentLeaseLocked r now js)) \<longleftrightarrow> holds_lease r now js"
  by (auto simp: currentLeaseLocked_def holds_lease_def split: option.splits)

lemma currentLease_refused:
  assumes "\<not> holds_lease r now js" and "queue_wf js" and "map_of js k = Some j"
  shows "map_of (fst (currentLeaseLocked r now js)) k = Some j \<or>
     (k = trim_space (lr_JobID r) \<and> map_of (fst (currentLeaseLocked r now js)) k = Some (releaseForRetryLocked j now False) \<and>
      (\<exists>l. jb_Lease j = Some l \<and> le_ExpiresAt l \<le> now))"
  using assms(1,3) job_wf_ID [OF queue_wfD [OF assms(2)]]
  by (auto simp: currentLeaseLocked_def holds_lease_def update_conv' simp del: map_of_eq_Some_iff split: option.splits if_splits)

text \<open>C29: \<open>Ack\<close>, \<open>Renew\<close> and \<open>Nack\<close> succeed exactly when the request names the job's current lease, its worker,
  and the lease has not expired. When they fail they change at most that job, and then only by releasing
  its expired lease for a retry.\<close>

theorem lease_calls_are_fenced:
  "(\<not> isl (snd (Ack None now r (run_calls cs []))) \<longleftrightarrow> holds_lease r now (run_calls cs [])) \<and>
   (\<not> isl (snd (Renew None now r (run_calls cs []))) \<longleftrightarrow> holds_lease r now (run_calls cs [])) \<and>
   (\<not> isl (snd (Nack None now \<lparr>nk_Lease = r, nk_ErrorCode = code, nk_Error = msg, nk_AllowDeadLetter = allow\<rparr> (run_calls cs [])))
      \<longleftrightarrow> holds_lease r now (run_calls cs [])) \<and>
   (\<not> holds_lease r now (run_calls cs []) \<longrightarrow>
      (\<forall>js'\<in>{fst (Ack None now r (run_calls cs [])), fst (Renew None now r (run_calls cs [])),
         fst (Nack None now \<lparr>nk_Lease = r, nk_ErrorCode = code, nk_Error = msg, nk_AllowDeadLetter = allow\<rparr> (run_calls cs []))}.
       \<forall>k j. map_of (run_calls cs []) k = Some j \<longrightarrow> map_of js' k = Some j \<or>
         (k = trim_space (lr_JobID r) \<and> map_of js' k = Some (releaseForRetryLocked j now False) \<and>
          (\<exists>l. jb_Lease j = Some l \<and> le_ExpiresAt l \<le> now))))"
proof -
  define js where "js = run_calls cs []"
  have wf: "queue_wf js" unfolding js_def by (rule reached_wf)
  let ?nr = "\<lparr>nk_Lease = r, nk_ErrorCode = code, nk_Error = msg, nk_AllowDeadLetter = allow\<rparr>"
  obtain js1 res where cl: "currentLeaseLocked r now js = (js1, res)" by fastforce
  have ok: "\<not> isl (snd (Ack None now r js)) \<longleftrightarrow> \<not> isl res" "\<not> isl (snd (Renew None now r js)) \<longleftrightarrow> \<not> isl res"
    "\<not> isl (snd (Nack None now ?nr js)) \<longleftrightarrow> \<not> isl res"
    by (simp_all add: Ack_def Renew_def Nack_def cl Let_def split: sum.split)
  have fail: "fst (Ack None now r js) = js1" "fst (Renew None now r js) = js1" "fst (Nack None now ?nr js) = js1"
    if "isl res" using that by (auto simp: Ack_def Renew_def Nack_def cl Let_def split: sum.split)
  have holds: "\<not> isl res \<longleftrightarrow> holds_lease r now js" using currentLease_iff [of r now js] by (simp add: cl)
  have frame: "map_of js1 k = Some j \<or> (k = trim_space (lr_JobID r) \<and> map_of js1 k = Some (releaseForRetryLocked j now False) \<and>
      (\<exists>l. jb_Lease j = Some l \<and> le_ExpiresAt l \<le> now))" if "\<not> holds_lease r now js" "map_of js k = Some j" for k j
    using currentLease_refused [OF that(1) wf that(2)] by (simp add: cl)
  have all: "\<forall>k j. map_of js k = Some j \<longrightarrow> map_of js1 k = Some j \<or> (k = trim_space (lr_JobID r) \<and>
      map_of js1 k = Some (releaseForRetryLocked j now False) \<and> (\<exists>l. jb_Lease j = Some l \<and> le_ExpiresAt l \<le> now))"
    if "\<not> holds_lease r now js" using frame [OF that] by blast
  show ?thesis unfolding js_def [symmetric] ok holds
  proof (intro conjI impI refl)
    assume nh: "\<not> holds_lease r now js"
    then have "isl res" using holds by blast
    note f = fail [OF this]
    show "\<forall>js'\<in>{fst (Ack None now r js), fst (Renew None now r js), fst (Nack None now ?nr js)}.
       \<forall>k j. map_of js k = Some j \<longrightarrow> map_of js' k = Some j \<or>
         (k = trim_space (lr_JobID r) \<and> map_of js' k = Some (releaseForRetryLocked j now False) \<and>
          (\<exists>l. jb_Lease j = Some l \<and> le_ExpiresAt l \<le> now))"
      unfolding f using all [OF nh] by blast
  qed
qed

theorem lease_calls_are_fenced_witness:
  "holds_lease qx_lr 7 (run_calls (qx_calls True) []) \<and> \<not> isl (snd (Renew None 7 qx_lr (run_calls (qx_calls True) []))) \<and>
   \<not> holds_lease qx_lr 106 (run_calls (qx_calls True) []) \<and> isl (snd (Renew None 106 qx_lr (run_calls (qx_calls True) [])))"
proof -
  have "dec_u64 1 = ''1''" by code_simp
  then have "holds_lease qx_lr 7 (run_calls (qx_calls True) [])" "\<not> holds_lease qx_lr 106 (run_calls (qx_calls True) [])"
    unfolding qx_calls_run
    by (simp_all add: holds_lease_def qx_lr_def qx_trim qx_leased_simps graphic_def qx_policy_def)
  then show ?thesis using lease_calls_are_fenced [of 7 qx_lr "qx_calls True"] lease_calls_are_fenced [of 106 qx_lr "qx_calls True"]
    by blast
qed

end
