(* ===== verification/Budget.thy ===== *)
theory Budget
  imports Prelude
begin

text \<open>
  Runtime limits and usage: \<open>budget/budget.go\<close> and \<open>budget/ledger_usage.go\<close>. All counters are
  64-bit signed integers, modelled as \<open>int\<close>; where an expression can leave the range the model applies
  \<open>wrap_s64\<close>. A limit of zero means unlimited.
\<close>

datatype Dimension =
    DimensionNone | DimensionLLMCalls | DimensionToolCalls | DimensionHostedToolCalls | DimensionInputTokens
  | DimensionOutputTokens | DimensionTotalTokens | DimensionOutputBytes | DimensionStateBytes | DimensionChildRuns
  | DimensionCostUnits | DimensionConcurrentRuns | DimensionConcurrentDescendants

datatype usage_error = ErrInvalidUsage

record Limits =
  lm_MaxLLMCalls :: int
  lm_MaxToolCalls :: int
  lm_MaxHostedToolCalls :: int
  lm_MaxInputTokens :: int
  lm_MaxOutputTokens :: int
  lm_MaxTotalTokens :: int
  lm_MaxOutputBytes :: int
  lm_MaxStateBytes :: int
  lm_MaxChildRuns :: int
  lm_MaxCostUnits :: int
  lm_MaxConcurrentRuns :: int
  lm_MaxConcurrentDescendants :: int

record Usage =
  us_LLMCalls :: int
  us_ToolCalls :: int
  us_HostedToolCalls :: int
  us_InputTokens :: int
  us_OutputTokens :: int
  us_TotalTokens :: int
  us_CacheReadTokens :: int
  us_CacheWriteTokens :: int
  us_ReasoningTokens :: int
  us_OutputBytes :: int
  us_StateBytes :: int
  us_ChildRuns :: int
  us_CostUnits :: int

record TokenUsage =
  tu_InputTokens :: int
  tu_OutputTokens :: int
  tu_CacheReadTokens :: int
  tu_CacheWriteTokens :: int
  tu_ReasoningTokens :: int

text \<open>The zero values \<open>Limits{}\<close> and \<open>Usage{}\<close>.\<close>

definition zero_limits :: Limits where
  "zero_limits = \<lparr>lm_MaxLLMCalls = 0, lm_MaxToolCalls = 0, lm_MaxHostedToolCalls = 0, lm_MaxInputTokens = 0,
     lm_MaxOutputTokens = 0, lm_MaxTotalTokens = 0, lm_MaxOutputBytes = 0, lm_MaxStateBytes = 0, lm_MaxChildRuns = 0,
     lm_MaxCostUnits = 0, lm_MaxConcurrentRuns = 0, lm_MaxConcurrentDescendants = 0\<rparr>"

definition zero_usage :: Usage where
  "zero_usage = \<lparr>us_LLMCalls = 0, us_ToolCalls = 0, us_HostedToolCalls = 0, us_InputTokens = 0, us_OutputTokens = 0,
     us_TotalTokens = 0, us_CacheReadTokens = 0, us_CacheWriteTokens = 0, us_ReasoningTokens = 0, us_OutputBytes = 0,
     us_StateBytes = 0, us_ChildRuns = 0, us_CostUnits = 0\<rparr>"

subsection \<open>Validity\<close>

definition ValidLimits :: "Limits \<Rightarrow> bool" where
  "ValidLimits v \<longleftrightarrow>
     0 \<le> lm_MaxLLMCalls v \<and> 0 \<le> lm_MaxToolCalls v \<and> 0 \<le> lm_MaxHostedToolCalls v \<and>
     0 \<le> lm_MaxInputTokens v \<and> 0 \<le> lm_MaxOutputTokens v \<and> 0 \<le> lm_MaxTotalTokens v \<and>
     0 \<le> lm_MaxOutputBytes v \<and> 0 \<le> lm_MaxStateBytes v \<and> 0 \<le> lm_MaxChildRuns v \<and> 0 \<le> lm_MaxCostUnits v \<and>
     0 \<le> lm_MaxConcurrentRuns v \<and> 0 \<le> lm_MaxConcurrentDescendants v"

definition ValidUsage :: "Usage \<Rightarrow> bool" where
  "ValidUsage v \<longleftrightarrow>
     (if us_LLMCalls v < 0 \<or> us_ToolCalls v < 0 \<or> us_HostedToolCalls v < 0 \<or> us_InputTokens v < 0 \<or>
         us_OutputTokens v < 0 \<or> us_TotalTokens v < 0 \<or> us_CacheReadTokens v < 0 \<or> us_CacheWriteTokens v < 0 \<or>
         us_ReasoningTokens v < 0 \<or> us_OutputBytes v < 0 \<or> us_StateBytes v < 0 \<or> us_ChildRuns v < 0 \<or> us_CostUnits v < 0
      then False
      else if max_s64 - us_OutputTokens v < us_InputTokens v then False
      else us_TotalTokens v = us_InputTokens v + us_OutputTokens v)"

definition HasTokenLimits :: "Limits \<Rightarrow> bool" where
  "HasTokenLimits v \<longleftrightarrow> 0 < lm_MaxInputTokens v \<or> 0 < lm_MaxOutputTokens v \<or> 0 < lm_MaxTotalTokens v"

subsection \<open>Resolution of limits\<close>

definition fill :: "int \<Rightarrow> int \<Rightarrow> int" where
  "fill dflt resolved = (if resolved = 0 then dflt else resolved)"

definition ResolveLimits :: "Limits \<Rightarrow> Limits \<Rightarrow> usage_error + Limits" where
  "ResolveLimits d r =
     (if \<not> ValidLimits d \<or> \<not> ValidLimits r then Inl ErrInvalidUsage
      else Inr
        \<lparr>lm_MaxLLMCalls = fill (lm_MaxLLMCalls d) (lm_MaxLLMCalls r),
         lm_MaxToolCalls = fill (lm_MaxToolCalls d) (lm_MaxToolCalls r),
         lm_MaxHostedToolCalls = fill (lm_MaxHostedToolCalls d) (lm_MaxHostedToolCalls r),
         lm_MaxInputTokens = fill (lm_MaxInputTokens d) (lm_MaxInputTokens r),
         lm_MaxOutputTokens = fill (lm_MaxOutputTokens d) (lm_MaxOutputTokens r),
         lm_MaxTotalTokens = fill (lm_MaxTotalTokens d) (lm_MaxTotalTokens r),
         lm_MaxOutputBytes = fill (lm_MaxOutputBytes d) (lm_MaxOutputBytes r),
         lm_MaxStateBytes = fill (lm_MaxStateBytes d) (lm_MaxStateBytes r),
         lm_MaxChildRuns = fill (lm_MaxChildRuns d) (lm_MaxChildRuns r),
         lm_MaxCostUnits = fill (lm_MaxCostUnits d) (lm_MaxCostUnits r),
         lm_MaxConcurrentRuns = fill (lm_MaxConcurrentRuns d) (lm_MaxConcurrentRuns r),
         lm_MaxConcurrentDescendants = fill (lm_MaxConcurrentDescendants d) (lm_MaxConcurrentDescendants r)\<rparr>)"

definition tightenInt :: "int \<Rightarrow> int \<Rightarrow> int" where
  "tightenInt hard requested = (if requested = 0 then hard else if hard = 0 then requested else min hard requested)"

definition TightenLimits :: "Limits \<Rightarrow> Limits \<Rightarrow> usage_error + Limits" where
  "TightenLimits h r =
     (if \<not> ValidLimits h \<or> \<not> ValidLimits r then Inl ErrInvalidUsage
      else Inr
        \<lparr>lm_MaxLLMCalls = tightenInt (lm_MaxLLMCalls h) (lm_MaxLLMCalls r),
         lm_MaxToolCalls = tightenInt (lm_MaxToolCalls h) (lm_MaxToolCalls r),
         lm_MaxHostedToolCalls = tightenInt (lm_MaxHostedToolCalls h) (lm_MaxHostedToolCalls r),
         lm_MaxInputTokens = tightenInt (lm_MaxInputTokens h) (lm_MaxInputTokens r),
         lm_MaxOutputTokens = tightenInt (lm_MaxOutputTokens h) (lm_MaxOutputTokens r),
         lm_MaxTotalTokens = tightenInt (lm_MaxTotalTokens h) (lm_MaxTotalTokens r),
         lm_MaxOutputBytes = tightenInt (lm_MaxOutputBytes h) (lm_MaxOutputBytes r),
         lm_MaxStateBytes = tightenInt (lm_MaxStateBytes h) (lm_MaxStateBytes r),
         lm_MaxChildRuns = tightenInt (lm_MaxChildRuns h) (lm_MaxChildRuns r),
         lm_MaxCostUnits = tightenInt (lm_MaxCostUnits h) (lm_MaxCostUnits r),
         lm_MaxConcurrentRuns = tightenInt (lm_MaxConcurrentRuns h) (lm_MaxConcurrentRuns r),
         lm_MaxConcurrentDescendants = tightenInt (lm_MaxConcurrentDescendants h) (lm_MaxConcurrentDescendants r)\<rparr>)"

subsection \<open>Charging\<close>

definition checkedAdd :: "int \<Rightarrow> int \<Rightarrow> usage_error + int" where
  "checkedAdd left right =
     (if left < 0 \<or> right < 0 \<or> (0 < right \<and> max_s64 - right < left) then Inl ErrInvalidUsage
      else Inr (left + right))"

definition ChargeModelCall :: "Usage \<Rightarrow> TokenUsage option \<Rightarrow> usage_error + Usage" where
  "ChargeModelCall current0 tokens =
     (let current = current0\<lparr>us_LLMCalls := wrap_s64 (us_LLMCalls current0 + 1)\<rparr> in
      case tokens of None \<Rightarrow> Inr current | Some t \<Rightarrow>
      if list_ex (\<lambda>v. v < 0)
           [tu_InputTokens t, tu_OutputTokens t, tu_CacheReadTokens t, tu_CacheWriteTokens t, tu_ReasoningTokens t]
      then Inl ErrInvalidUsage
      else case checkedAdd (us_InputTokens current) (tu_InputTokens t) of Inl e \<Rightarrow> Inl e | Inr i \<Rightarrow>
      (case checkedAdd (us_OutputTokens current) (tu_OutputTokens t) of Inl e \<Rightarrow> Inl e | Inr out \<Rightarrow>
      (case checkedAdd (tu_InputTokens t) (tu_OutputTokens t) of Inl e \<Rightarrow> Inl e | Inr callTotal \<Rightarrow>
      (case checkedAdd (us_TotalTokens current) callTotal of Inl e \<Rightarrow> Inl e | Inr tot \<Rightarrow>
      (case checkedAdd (us_CacheReadTokens current) (tu_CacheReadTokens t) of Inl e \<Rightarrow> Inl e | Inr cr \<Rightarrow>
      (case checkedAdd (us_CacheWriteTokens current) (tu_CacheWriteTokens t) of Inl e \<Rightarrow> Inl e | Inr cw \<Rightarrow>
      (case checkedAdd (us_ReasoningTokens current) (tu_ReasoningTokens t) of Inl e \<Rightarrow> Inl e | Inr re \<Rightarrow>
         Inr (current\<lparr>us_InputTokens := i, us_OutputTokens := out, us_TotalTokens := tot, us_CacheReadTokens := cr,
                us_CacheWriteTokens := cw, us_ReasoningTokens := re\<rparr>))))))))"

definition Exceeded :: "Limits \<Rightarrow> Usage \<Rightarrow> Dimension" where
  "Exceeded l u =
     (if 0 < lm_MaxLLMCalls l \<and> lm_MaxLLMCalls l < us_LLMCalls u then DimensionLLMCalls
      else if 0 < lm_MaxToolCalls l \<and> lm_MaxToolCalls l < us_ToolCalls u then DimensionToolCalls
      else if 0 < lm_MaxHostedToolCalls l \<and> lm_MaxHostedToolCalls l < us_HostedToolCalls u then DimensionHostedToolCalls
      else if 0 < lm_MaxInputTokens l \<and> lm_MaxInputTokens l < us_InputTokens u then DimensionInputTokens
      else if 0 < lm_MaxOutputTokens l \<and> lm_MaxOutputTokens l < us_OutputTokens u then DimensionOutputTokens
      else if 0 < lm_MaxTotalTokens l \<and> lm_MaxTotalTokens l < us_TotalTokens u then DimensionTotalTokens
      else if 0 < lm_MaxOutputBytes l \<and> lm_MaxOutputBytes l < us_OutputBytes u then DimensionOutputBytes
      else if 0 < lm_MaxStateBytes l \<and> lm_MaxStateBytes l < us_StateBytes u then DimensionStateBytes
      else if 0 < lm_MaxChildRuns l \<and> lm_MaxChildRuns l < us_ChildRuns u then DimensionChildRuns
      else if 0 < lm_MaxCostUnits l \<and> lm_MaxCostUnits l < us_CostUnits u then DimensionCostUnits
      else DimensionNone)"

text \<open>\<open>AddUsage\<close> checks six \<open>int\<close> sums, then seven \<open>int64\<close> sums; every failure is \<open>ErrInvalidUsage\<close>.\<close>

definition AddUsage :: "Usage \<Rightarrow> Usage \<Rightarrow> usage_error + Usage" where
  "AddUsage left right =
     (if \<not> ValidUsage left \<or> \<not> ValidUsage right then Inl ErrInvalidUsage
      else if list_ex (\<lambda>(a, b). max_s64 - b < a)
        [(us_LLMCalls left, us_LLMCalls right), (us_ToolCalls left, us_ToolCalls right),
         (us_HostedToolCalls left, us_HostedToolCalls right), (us_ChildRuns left, us_ChildRuns right),
         (us_OutputBytes left, us_OutputBytes right), (us_StateBytes left, us_StateBytes right)]
      then Inl ErrInvalidUsage
      else if list_ex (\<lambda>(a, b). isl (checkedAdd a b))
        [(us_InputTokens left, us_InputTokens right), (us_OutputTokens left, us_OutputTokens right),
         (us_TotalTokens left, us_TotalTokens right), (us_CacheReadTokens left, us_CacheReadTokens right),
         (us_CacheWriteTokens left, us_CacheWriteTokens right), (us_ReasoningTokens left, us_ReasoningTokens right),
         (us_CostUnits left, us_CostUnits right)]
      then Inl ErrInvalidUsage
      else Inr
        \<lparr>us_LLMCalls = us_LLMCalls left + us_LLMCalls right, us_ToolCalls = us_ToolCalls left + us_ToolCalls right,
         us_HostedToolCalls = us_HostedToolCalls left + us_HostedToolCalls right,
         us_InputTokens = projr (checkedAdd (us_InputTokens left) (us_InputTokens right)),
         us_OutputTokens = projr (checkedAdd (us_OutputTokens left) (us_OutputTokens right)),
         us_TotalTokens = projr (checkedAdd (us_TotalTokens left) (us_TotalTokens right)),
         us_CacheReadTokens = projr (checkedAdd (us_CacheReadTokens left) (us_CacheReadTokens right)),
         us_CacheWriteTokens = projr (checkedAdd (us_CacheWriteTokens left) (us_CacheWriteTokens right)),
         us_ReasoningTokens = projr (checkedAdd (us_ReasoningTokens left) (us_ReasoningTokens right)),
         us_OutputBytes = us_OutputBytes left + us_OutputBytes right,
         us_StateBytes = us_StateBytes left + us_StateBytes right, us_ChildRuns = us_ChildRuns left + us_ChildRuns right,
         us_CostUnits = projr (checkedAdd (us_CostUnits left) (us_CostUnits right))\<rparr>)"

definition remaining :: "int \<Rightarrow> int \<Rightarrow> int \<Rightarrow> int" where
  "remaining limit used reserved = max 0 (wrap_s64 (wrap_s64 (limit - used) - reserved))"

definition remainingUsage :: "Limits \<Rightarrow> Usage \<Rightarrow> Usage \<Rightarrow> Usage" where
  "remainingUsage l u r = zero_usage
     \<lparr>us_LLMCalls := remaining (lm_MaxLLMCalls l) (us_LLMCalls u) (us_LLMCalls r),
      us_ToolCalls := remaining (lm_MaxToolCalls l) (us_ToolCalls u) (us_ToolCalls r),
      us_HostedToolCalls := remaining (lm_MaxHostedToolCalls l) (us_HostedToolCalls u) (us_HostedToolCalls r),
      us_ChildRuns := remaining (lm_MaxChildRuns l) (us_ChildRuns u) (us_ChildRuns r),
      us_InputTokens := remaining (lm_MaxInputTokens l) (us_InputTokens u) (us_InputTokens r),
      us_OutputTokens := remaining (lm_MaxOutputTokens l) (us_OutputTokens u) (us_OutputTokens r),
      us_TotalTokens := remaining (lm_MaxTotalTokens l) (us_TotalTokens u) (us_TotalTokens r)\<rparr>"

subsection \<open>Componentwise views\<close>

text \<open>The fields of a usage record, and the pairs of a limit and the field it bounds.\<close>

definition usage_fields :: "(Usage \<Rightarrow> int) list" where
  "usage_fields = [us_LLMCalls, us_ToolCalls, us_HostedToolCalls, us_InputTokens, us_OutputTokens, us_TotalTokens,
     us_CacheReadTokens, us_CacheWriteTokens, us_ReasoningTokens, us_OutputBytes, us_StateBytes, us_ChildRuns, us_CostUnits]"

definition limited_fields :: "((Limits \<Rightarrow> int) \<times> (Usage \<Rightarrow> int)) list" where
  "limited_fields = [(lm_MaxLLMCalls, us_LLMCalls), (lm_MaxToolCalls, us_ToolCalls),
     (lm_MaxHostedToolCalls, us_HostedToolCalls), (lm_MaxInputTokens, us_InputTokens),
     (lm_MaxOutputTokens, us_OutputTokens), (lm_MaxTotalTokens, us_TotalTokens), (lm_MaxOutputBytes, us_OutputBytes),
     (lm_MaxStateBytes, us_StateBytes), (lm_MaxChildRuns, us_ChildRuns), (lm_MaxCostUnits, us_CostUnits)]"

lemma limited_fields_usage: "(g, f) \<in> set limited_fields \<Longrightarrow> f \<in> set usage_fields"
  by (auto simp: limited_fields_def usage_fields_def)

lemma usage_eqI: "(\<And>f. f \<in> set usage_fields \<Longrightarrow> f u = f v) \<Longrightarrow> u = (v :: Usage)"
  by (simp add: usage_fields_def)

lemma zero_usage_field [simp]: "f \<in> set usage_fields \<Longrightarrow> f zero_usage = 0"
  by (auto simp: usage_fields_def zero_usage_def)

lemma ValidUsage_iff:
  "ValidUsage v \<longleftrightarrow> (\<forall>f\<in>set usage_fields. 0 \<le> f v) \<and> us_TotalTokens v \<le> max_s64 \<and>
     us_TotalTokens v = us_InputTokens v + us_OutputTokens v"
  by (auto simp: ValidUsage_def usage_fields_def)

lemma ValidUsage_nonneg: "ValidUsage v \<Longrightarrow> f \<in> set usage_fields \<Longrightarrow> 0 \<le> f v"
  by (simp add: ValidUsage_iff)

lemma ValidUsage_zero [simp]: "ValidUsage zero_usage"
  by (simp add: ValidUsage_def zero_usage_def max_s64_def)

lemma Exceeded_None_iff:
  "Exceeded l u = DimensionNone \<longleftrightarrow> (\<forall>(g, f)\<in>set limited_fields. 0 < g l \<longrightarrow> f u \<le> g l)"
proof -
  have step: "(if a \<and> x < y then d else e) = DimensionNone \<longleftrightarrow> (a \<longrightarrow> y \<le> x) \<and> e = DimensionNone" if "d \<noteq> DimensionNone"
    for a and x y :: int and d e :: Dimension
    using that by auto
  show ?thesis unfolding Exceeded_def limited_fields_def
    by (simp only: step Dimension.distinct list.set ball_simps prod.case not_False_eq_True) blast
qed

lemma isl_checkedAdd: "isl (checkedAdd a b) \<longleftrightarrow> a < 0 \<or> b < 0 \<or> (0 < b \<and> max_s64 < a + b)"
  by (auto simp: checkedAdd_def)

lemma checkedAdd_ok [simp]: "\<not> isl (checkedAdd a b) \<Longrightarrow> projr (checkedAdd a b) = a + b"
  by (auto simp: checkedAdd_def split: if_splits)

definition add_fields :: "Usage \<Rightarrow> Usage \<Rightarrow> Usage" where
  "add_fields l r =
     \<lparr>us_LLMCalls = us_LLMCalls l + us_LLMCalls r, us_ToolCalls = us_ToolCalls l + us_ToolCalls r,
      us_HostedToolCalls = us_HostedToolCalls l + us_HostedToolCalls r, us_InputTokens = us_InputTokens l + us_InputTokens r,
      us_OutputTokens = us_OutputTokens l + us_OutputTokens r, us_TotalTokens = us_TotalTokens l + us_TotalTokens r,
      us_CacheReadTokens = us_CacheReadTokens l + us_CacheReadTokens r,
      us_CacheWriteTokens = us_CacheWriteTokens l + us_CacheWriteTokens r,
      us_ReasoningTokens = us_ReasoningTokens l + us_ReasoningTokens r, us_OutputBytes = us_OutputBytes l + us_OutputBytes r,
      us_StateBytes = us_StateBytes l + us_StateBytes r, us_ChildRuns = us_ChildRuns l + us_ChildRuns r,
      us_CostUnits = us_CostUnits l + us_CostUnits r\<rparr>"

lemma add_fields_field [simp]: "f \<in> set usage_fields \<Longrightarrow> f (add_fields l r) = f l + f r"
  by (auto simp: usage_fields_def add_fields_def)

text \<open>Every counter of a Go value is at most \<open>math.MaxInt64\<close>.\<close>

definition usage_fits :: "Usage \<Rightarrow> bool" where
  "usage_fits u \<longleftrightarrow> ValidUsage u \<and> (\<forall>f\<in>set usage_fields. f u \<le> max_s64)"

lemma usage_fitsD: "usage_fits u \<Longrightarrow> ValidUsage u" "usage_fits u \<Longrightarrow> f \<in> set usage_fields \<Longrightarrow> f u \<le> max_s64"
  by (simp_all add: usage_fits_def)

lemma usage_fits_zero [simp]: "usage_fits zero_usage"
  by (simp add: usage_fits_def max_s64_def)

lemma usage_fits_add:
  assumes "ValidUsage l" and "ValidUsage r" and "\<forall>f\<in>set usage_fields. f l + f r \<le> max_s64"
  shows "usage_fits (add_fields l r)"
proof -
  have tot: "us_TotalTokens (add_fields l r) \<le> max_s64" using assms(3) by (simp add: usage_fields_def add_fields_def)
  have "us_TotalTokens (add_fields l r) = us_InputTokens (add_fields l r) + us_OutputTokens (add_fields l r)"
    using assms(1,2) by (simp add: ValidUsage_iff add_fields_def)
  then show ?thesis using assms tot by (simp add: usage_fits_def ValidUsage_iff)
qed

lemma AddUsage_eq:
  assumes "usage_fits l" and "usage_fits r"
  shows "AddUsage l r = (if \<forall>f\<in>set usage_fields. f l + f r \<le> max_s64 then Inr (add_fields l r) else Inl ErrInvalidUsage)"
proof -
  have v: "ValidUsage l" "ValidUsage r" using assms by (simp_all add: usage_fits_def)
  have nn: "0 \<le> f l" "0 \<le> f r" "f l \<le> max_s64" if "f \<in> set usage_fields" for f
    using assms that by (auto simp: usage_fits_def ValidUsage_iff)
  let ?ints = "[us_LLMCalls, us_ToolCalls, us_HostedToolCalls, us_ChildRuns, us_OutputBytes, us_StateBytes]"
  let ?longs = "[us_InputTokens, us_OutputTokens, us_TotalTokens, us_CacheReadTokens, us_CacheWriteTokens, us_ReasoningTokens,
    us_CostUnits]"
  have bad: "isl (checkedAdd (f l) (f r)) \<longleftrightarrow> max_s64 < f l + f r" if "f \<in> set usage_fields" for f
    using nn [OF that] by (auto simp: isl_checkedAdd)
  have all: "(\<forall>f\<in>set usage_fields. f l + f r \<le> max_s64) \<longleftrightarrow>
      (\<forall>f\<in>set ?ints. f l + f r \<le> max_s64) \<and> (\<forall>f\<in>set ?longs. f l + f r \<le> max_s64)"
    unfolding usage_fields_def by auto
  have longs: "list_ex (\<lambda>(a, b). isl (checkedAdd a b)) (map (\<lambda>f. (f l, f r)) ?longs) \<longleftrightarrow>
      \<not> (\<forall>f\<in>set ?longs. f l + f r \<le> max_s64)"
    using bad by (simp add: usage_fields_def not_le)
  have ints: "list_ex (\<lambda>(a, b). max_s64 - b < a) (map (\<lambda>f. (f l, f r)) ?ints) \<longleftrightarrow> \<not> (\<forall>f\<in>set ?ints. f l + f r \<le> max_s64)"
    by (auto simp: not_le)
  show ?thesis unfolding AddUsage_def all
    using ints longs v by (auto simp: add_fields_def)
qed

end
