(* ===== verification/Ledger.thy ===== *)
theory Ledger
  imports Budget Go_Json "HOL-Library.Monad_Syntax"
begin

text \<open>
  The shared budget ledger: \<open>budget/ledger.go\<close>, \<open>budget/receipt_transfer.go\<close> and the store of
  \<open>budget/memory_ledger.go\<close>.

  The Go maps \<open>Runs\<close> and \<open>Reservations\<close>, which the code iterates over, are association lists with
  distinct keys whose order stands for the iteration order; the sets \<open>CancelledRuns\<close> and
  \<open>FinishedRuns\<close> are lists. The loops that climb from a run to its parents end only if the
  ancestry has no cycle, so they are \<open>partial_function\<close>s whose value is \<open>None\<close> when the loop does not end.
  Each operation of the coordinator is a change function, the closure that the code hands to \<open>update\<close>,
  and \<open>update\<close> is the compare-and-swap loop around it: \<open>env k\<close> is what other workers do to the store
  between the load and the save of its \<open>k\<close>th round, \<open>cxs k\<close> the state of the context then.
\<close>

datatype ledger_error =
    ErrUsage | ErrLedgerNotFound | ErrLedgerConflict | ErrWaiting | ErrExhausted | ErrUnmetered
  | Denied ledger_error Dimension | LErrContext context_error | LErrStore string

fun is_error :: "ledger_error \<Rightarrow> ledger_error \<Rightarrow> bool" where
  "is_error target (Denied c d) \<longleftrightarrow> target = Denied c d \<or> is_error target c"
| "is_error target e \<longleftrightarrow> target = e"

fun DeniedDimension :: "ledger_error \<Rightarrow> Dimension option" where
  "DeniedDimension (Denied c d) = (if d = DimensionNone then None else Some d)"
| "DeniedDimension e = None"

record RunBudget =
  rb_ParentRunID :: string
  rb_Limits :: Limits

datatype ReservationStatus =
  ReservationWaiting | ReservationHeld | ReservationSettled | ReservationReleased | ReservationOther string

record Reservation =
  rs_ID :: string
  rs_RunID :: string
  rs_RequestHash :: string
  rs_Requested :: Usage
  rs_Usage :: Usage
  rs_Status :: ReservationStatus
  rs_Active :: bool
  rs_Dispatched :: bool
  rs_Receipt :: string
  rs_Dimension :: Dimension

record Ledger =
  lg_ID :: string
  lg_Revision :: u64
  lg_Limits :: Limits
  lg_Runs :: "(string \<times> RunBudget) list"
  lg_Reservations :: "(string \<times> Reservation) list"
  lg_Cancelled :: bool
  lg_CancelledRuns :: "string list"
  lg_FinishedRuns :: "string list"

record LedgerView =
  lv_ScopeID :: string
  lv_Revision :: u64
  lv_Limits :: Limits
  lv_Usage :: Usage
  lv_Reserved :: Usage
  lv_Remaining :: Usage
  lv_ActiveRuns :: int
  lv_WaitingRuns :: int
  lv_UnfinishedDescendants :: int
  lv_UnknownUsage :: bool
  lv_Cancelled :: bool

definition zero_ledger :: Ledger where
  "zero_ledger = \<lparr>lg_ID = [], lg_Revision = 0, lg_Limits = zero_limits, lg_Runs = [], lg_Reservations = [],
     lg_Cancelled = False, lg_CancelledRuns = [], lg_FinishedRuns = []\<rparr>"

text \<open>\<open>reflect.DeepEqual\<close> compares the maps, not the order of their entries.\<close>

definition same_map :: "('k \<times> 'v) list \<Rightarrow> ('k \<times> 'v) list \<Rightarrow> bool" where
  "same_map xs ys \<longleftrightarrow> list_all (\<lambda>k. map_of xs k = map_of ys k) (map fst xs @ map fst ys)"

definition same_ledger :: "Ledger \<Rightarrow> Ledger \<Rightarrow> bool" where
  "same_ledger a b \<longleftrightarrow> lg_ID a = lg_ID b \<and> lg_Revision a = lg_Revision b \<and> lg_Limits a = lg_Limits b \<and>
     same_map (lg_Runs a) (lg_Runs b) \<and> same_map (lg_Reservations a) (lg_Reservations b) \<and>
     lg_Cancelled a = lg_Cancelled b \<and> set (lg_CancelledRuns a) = set (lg_CancelledRuns b) \<and>
     set (lg_FinishedRuns a) = set (lg_FinishedRuns b)"

subsection \<open>Ancestry\<close>

definition run_of :: "Ledger \<Rightarrow> string \<Rightarrow> RunBudget" where
  "run_of L r = (case map_of (lg_Runs L) r of None \<Rightarrow> \<lparr>rb_ParentRunID = [], rb_Limits = zero_limits\<rparr> | Some b \<Rightarrow> b)"

abbreviation parent_of :: "Ledger \<Rightarrow> string \<Rightarrow> string" where
  "parent_of L r \<equiv> rb_ParentRunID (run_of L r)"

partial_function (option) contains_loop :: "Ledger \<Rightarrow> string \<Rightarrow> string \<Rightarrow> bool option" where
  "contains_loop L parent child =
     (if child = [] then Some False
      else if child = parent then Some True
      else contains_loop L parent (parent_of L child))"

definition contains :: "Ledger \<Rightarrow> string \<Rightarrow> string \<Rightarrow> bool option" where
  "contains L parent child = (if parent = [] then Some True else contains_loop L parent child)"

partial_function (option) cancelled_loop :: "Ledger \<Rightarrow> string \<Rightarrow> bool option" where
  "cancelled_loop L r =
     (if r = [] then Some False
      else if r \<in> set (lg_CancelledRuns L) then Some True
      else cancelled_loop L (parent_of L r))"

definition cancelled :: "Ledger \<Rightarrow> string \<Rightarrow> bool option" where
  "cancelled L r = (if lg_Cancelled L then Some True else cancelled_loop L r)"

subsection \<open>Views\<close>

fun unfinished_loop :: "Ledger \<Rightarrow> string \<Rightarrow> (string \<times> RunBudget) list \<Rightarrow> int \<Rightarrow> int option" where
  "unfinished_loop L r [] n = Some n"
| "unfinished_loop L r ((k, b) # runs) n =
     (if rb_ParentRunID b \<noteq> [] \<and> k \<noteq> r \<and> k \<notin> set (lg_FinishedRuns L) then
        do { inside \<leftarrow> contains L r k;
             unfinished_loop L r runs (if inside then n + 1 else n) }
      else unfinished_loop L r runs n)"

record view_acc =
  va_Usage :: Usage
  va_Reserved :: Usage
  va_Active :: "string list"
  va_Waiting :: "string list"
  va_Unknown :: bool

text \<open>\<open>x, _ = AddUsage(x, y)\<close>: on an error the Go function returns the zero usage.\<close>

definition add_or_zero :: "Usage \<Rightarrow> Usage \<Rightarrow> Usage" where
  "add_or_zero a b = (case AddUsage a b of Inl e \<Rightarrow> zero_usage | Inr c \<Rightarrow> c)"

definition view_add :: "Reservation \<Rightarrow> view_acc \<Rightarrow> view_acc" where
  "view_add v acc = (case rs_Status v of
       ReservationSettled \<Rightarrow> acc\<lparr>va_Usage := add_or_zero (va_Usage acc) (rs_Usage v)\<rparr>
     | ReservationHeld \<Rightarrow> acc
         \<lparr>va_Reserved := add_or_zero (va_Reserved acc) (rs_Requested v),
          va_Active := (if rs_Active v then List.insert (rs_RunID v) (va_Active acc) else va_Active acc),
          va_Unknown := (va_Unknown acc \<or> rs_Dispatched v)\<rparr>
     | ReservationWaiting \<Rightarrow> acc\<lparr>va_Waiting := List.insert (rs_RunID v) (va_Waiting acc)\<rparr>
     | _ \<Rightarrow> acc)"

fun view_loop :: "Ledger \<Rightarrow> string \<Rightarrow> (string \<times> Reservation) list \<Rightarrow> view_acc \<Rightarrow> view_acc option" where
  "view_loop L r [] acc = Some acc"
| "view_loop L r ((k, v) # vs) acc =
     do { inside \<leftarrow> contains L r (rs_RunID v);
          view_loop L r vs (if inside then view_add v acc else acc) }"

definition scope_limits :: "Ledger \<Rightarrow> string \<Rightarrow> Limits" where
  "scope_limits L r = (if r \<noteq> [] then rb_Limits (run_of L r) else lg_Limits L)"

definition view_start :: view_acc where
  "view_start = \<lparr>va_Usage = zero_usage, va_Reserved = zero_usage, va_Active = [], va_Waiting = [], va_Unknown = False\<rparr>"

definition View :: "Ledger \<Rightarrow> string \<Rightarrow> LedgerView option" where
  "View L r =
     do { stopped \<leftarrow> cancelled L r;
          unfinished \<leftarrow> unfinished_loop L r (lg_Runs L) 0;
          acc \<leftarrow> view_loop L r (lg_Reservations L) view_start;
          Some \<lparr>lv_ScopeID = lg_ID L, lv_Revision = lg_Revision L, lv_Limits = scope_limits L r,
                lv_Usage = va_Usage acc, lv_Reserved = va_Reserved acc,
                lv_Remaining = remainingUsage (scope_limits L r) (va_Usage acc) (va_Reserved acc),
                lv_ActiveRuns = int (length (va_Active acc)), lv_WaitingRuns = int (length (va_Waiting acc)),
                lv_UnfinishedDescendants = unfinished, lv_UnknownUsage = va_Unknown acc, lv_Cancelled = stopped\<rparr> }"

fun active_loop :: "Ledger \<Rightarrow> string \<Rightarrow> string \<Rightarrow> (string \<times> Reservation) list \<Rightarrow> bool option" where
  "active_loop L r subtree [] = Some False"
| "active_loop L r subtree ((k, v) # vs) =
     (if rs_RunID v = r \<and> rs_Active v then
        do { inside \<leftarrow> contains L subtree (rs_RunID v);
             if inside then Some True else active_loop L r subtree vs }
      else active_loop L r subtree vs)"

definition active :: "Ledger \<Rightarrow> string \<Rightarrow> string \<Rightarrow> bool option" where
  "active L r subtree = active_loop L r subtree (lg_Reservations L)"

subsection \<open>Admission\<close>

text \<open>The checks of \<open>admit\<close> at one scope: \<open>Some None\<close> passes, \<open>Some (Some denial)\<close> denies.\<close>

definition admit_at :: "Ledger \<Rightarrow> string \<Rightarrow> Usage \<Rightarrow> bool \<Rightarrow> string \<Rightarrow> (Dimension \<times> ledger_error) option option" where
  "admit_at L r requested act current =
     do { view \<leftarrow> View L current;
          case AddUsage (lv_Usage view) requested of
            Inl e \<Rightarrow> Some (Some (DimensionNone, ErrUsage))
          | Inr used \<Rightarrow>
              let dimension = Exceeded (lv_Limits view) used in
              if dimension \<noteq> DimensionNone then Some (Some (dimension, Denied ErrExhausted dimension))
              else (case AddUsage used (lv_Reserved view) of
                Inl e \<Rightarrow> Some (Some (DimensionNone, ErrUsage))
              | Inr occupied \<Rightarrow>
                  let dimension = Exceeded (lv_Limits view) occupied in
                  if dimension \<noteq> DimensionNone then Some (Some (dimension, Denied ErrWaiting dimension))
                  else if act \<and> 0 < lm_MaxConcurrentRuns (lv_Limits view) then
                    do { running \<leftarrow> active L r current;
                         if \<not> running \<and> lm_MaxConcurrentRuns (lv_Limits view) \<le> lv_ActiveRuns view
                         then Some (Some (DimensionConcurrentRuns, Denied ErrWaiting DimensionConcurrentRuns))
                         else Some None }
                  else Some None) }"

partial_function (option) admit_loop ::
  "Ledger \<Rightarrow> string \<Rightarrow> Usage \<Rightarrow> bool \<Rightarrow> string \<Rightarrow> (Dimension \<times> ledger_error) option option" where
  "admit_loop L r requested act current =
     do { verdict \<leftarrow> admit_at L r requested act current;
          if verdict \<noteq> None then Some verdict
          else if current = [] then Some None
          else admit_loop L r requested act (parent_of L current) }"

definition admit :: "Ledger \<Rightarrow> string \<Rightarrow> Usage \<Rightarrow> bool \<Rightarrow> (Dimension \<times> ledger_error) option option" where
  "admit L r requested act = admit_loop L r requested act r"

partial_function (option) descendants_loop :: "Ledger \<Rightarrow> string \<Rightarrow> ledger_error option option" where
  "descendants_loop L current =
     do { view \<leftarrow> View L current;
          if 0 < lm_MaxConcurrentDescendants (lv_Limits view) \<and>
             lm_MaxConcurrentDescendants (lv_Limits view) \<le> lv_UnfinishedDescendants view
          then Some (Some (Denied ErrWaiting DimensionConcurrentDescendants))
          else if current = [] then Some None
          else descendants_loop L (parent_of L current) }"

subsection \<open>Changes\<close>

type_synonym change = "Ledger \<Rightarrow> (ledger_error + Ledger) option"

definition child_charge :: Usage where
  "child_charge = zero_usage\<lparr>us_ChildRuns := 1\<rparr>"

definition child_reservation :: "string \<Rightarrow> string \<Rightarrow> Reservation" where
  "child_reservation runID parent =
     \<lparr>rs_ID = ''child:'' @ runID, rs_RunID = parent, rs_RequestHash = [], rs_Requested = child_charge, rs_Usage = child_charge,
      rs_Status = ReservationSettled, rs_Active = False, rs_Dispatched = False, rs_Receipt = [], rs_Dimension = DimensionNone\<rparr>"

definition register_change :: "string \<Rightarrow> RunBudget \<Rightarrow> change" where
  "register_change runID binding L =
     (case map_of (lg_Runs L) runID of
        Some existing \<Rightarrow> Some (if existing \<noteq> binding then Inl ErrLedgerConflict else Inr L)
      | None \<Rightarrow>
          do { c1 \<leftarrow> cancelled L runID;
               c2 \<leftarrow> (if c1 then Some True else cancelled L (rb_ParentRunID binding));
               let parent = rb_ParentRunID binding; registered = L\<lparr>lg_Runs := AList.update runID binding (lg_Runs L)\<rparr> in
               if c2 then Some (Inl ErrExhausted)
               else if parent = [] then Some (Inr registered)
               else if map_of (lg_Runs L) parent = None then Some (Inl ErrLedgerConflict)
               else if parent \<in> set (lg_FinishedRuns L) then Some (Inl ErrExhausted)
               else do { waiting \<leftarrow> descendants_loop L parent;
                         case waiting of Some e \<Rightarrow> Some (Inl e)
                         | None \<Rightarrow>
                             do { denied \<leftarrow> admit L parent child_charge False;
                                  case denied of Some (d, e) \<Rightarrow> Some (Inl e)
                                  | None \<Rightarrow> Some (Inr (registered\<lparr>lg_Reservations :=
                                      AList.update (''child:'' @ runID) (child_reservation runID parent) (lg_Reservations L)\<rparr>)) } } })"

definition finish_change :: "string list \<Rightarrow> change" where
  "finish_change runIDs L = Some
     (if list_ex (\<lambda>r. map_of (lg_Runs L) r = None) runIDs then Inl ErrLedgerNotFound
      else Inr (L\<lparr>lg_FinishedRuns := fold List.insert runIDs (lg_FinishedRuns L)\<rparr>))"

definition changeReservation :: "string \<Rightarrow> (Reservation \<Rightarrow> ledger_error + Reservation) \<Rightarrow> change" where
  "changeReservation k f L = Some
     (case map_of (lg_Reservations L) k of
        None \<Rightarrow> Inl ErrLedgerNotFound
      | Some v \<Rightarrow>
          (case f v of Inl e \<Rightarrow> Inl e
           | Inr v' \<Rightarrow> Inr (L\<lparr>lg_Reservations := AList.update k v' (lg_Reservations L)\<rparr>)))"

definition dispatch_change :: "string \<Rightarrow> change" where
  "dispatch_change k = changeReservation k (\<lambda>v.
     if rs_Status v \<noteq> ReservationHeld then Inl ErrLedgerConflict
     else if rs_Dispatched v then Inl ErrWaiting
     else Inr (v\<lparr>rs_Dispatched := True\<rparr>))"

definition requeue_change :: "string \<Rightarrow> u64 \<Rightarrow> change" where
  "requeue_change k dispatchRevision L = Some
     (if lg_Revision L \<noteq> dispatchRevision then Inl ErrLedgerConflict
      else case map_of (lg_Reservations L) k of
        None \<Rightarrow> Inl ErrLedgerConflict
      | Some v \<Rightarrow>
          if rs_Status v \<noteq> ReservationHeld \<or> \<not> rs_Active v \<or> \<not> rs_Dispatched v \<or> rs_Receipt v \<noteq> [] \<or> rs_Usage v \<noteq> zero_usage
          then Inl ErrLedgerConflict
          else Inr (L\<lparr>lg_Reservations := AList.update k
            (v\<lparr>rs_Status := ReservationWaiting, rs_Active := False, rs_Dispatched := False, rs_Dimension := DimensionNone\<rparr>)
            (lg_Reservations L)\<rparr>))"

definition suspend_change :: "string \<Rightarrow> change" where
  "suspend_change k = changeReservation k (\<lambda>v. Inr (v\<lparr>rs_Active := False\<rparr>))"

definition settle_change :: "string \<Rightarrow> Usage \<Rightarrow> string \<Rightarrow> change" where
  "settle_change k usage receipt = changeReservation k (\<lambda>v.
     if rs_Status v = ReservationSettled then
       if rs_Usage v \<noteq> usage \<or> rs_Receipt v \<noteq> receipt then Inl ErrLedgerConflict else Inr v
     else if rs_Status v \<noteq> ReservationHeld then Inl ErrLedgerConflict
     else Inr (v\<lparr>rs_Status := ReservationSettled, rs_Active := False, rs_Usage := usage, rs_Receipt := receipt\<rparr>))"

definition release_change :: "string \<Rightarrow> change" where
  "release_change k = changeReservation k (\<lambda>v.
     if rs_Dispatched v \<or> rs_Status v = ReservationSettled then Inl ErrLedgerConflict
     else Inr (v\<lparr>rs_Status := ReservationReleased, rs_Active := False\<rparr>))"

definition refund :: "Reservation \<Rightarrow> Reservation" where
  "refund v = (if \<not> rs_Dispatched v \<and> rs_Status v \<noteq> ReservationSettled
     then v\<lparr>rs_Status := ReservationReleased, rs_Active := False\<rparr> else v)"

definition cancel_change :: change where
  "cancel_change L = Some (Inr (L\<lparr>lg_Cancelled := True,
     lg_Reservations := map (\<lambda>(k, v). (k, refund v)) (lg_Reservations L)\<rparr>))"

fun refund_subtree :: "Ledger \<Rightarrow> string \<Rightarrow> (string \<times> Reservation) list \<Rightarrow> (string \<times> Reservation) list option" where
  "refund_subtree L r [] = Some []"
| "refund_subtree L r ((k, v) # vs) =
     do { inside \<leftarrow> contains L r (rs_RunID v);
          rest \<leftarrow> refund_subtree L r vs;
          Some ((k, if inside then refund v else v) # rest) }"

definition cancel_run_change :: "string \<Rightarrow> change" where
  "cancel_run_change r L =
     (let L1 = L\<lparr>lg_CancelledRuns := List.insert r (lg_CancelledRuns L)\<rparr> in
      do { vs \<leftarrow> refund_subtree L1 r (lg_Reservations L1);
           Some (Inr (L1\<lparr>lg_Reservations := vs\<rparr>)) })"

text \<open>The closure of \<open>Reserve\<close> also reads and writes the captured variables \<open>request\<close> and \<open>admissionErr\<close>.\<close>

definition reserve_change :: "bool \<Rightarrow> Reservation \<times> ledger_error option \<Rightarrow> Ledger \<Rightarrow>
  ((Reservation \<times> ledger_error option) \<times> (ledger_error + Ledger)) option" where
  "reserve_change act captured L =
     (let request = fst captured; found = map_of (lg_Reservations L) (rs_ID request) in
      if map_of (lg_Runs L) (rs_RunID request) = None then Some ((request, None), Inl ErrLedgerConflict)
      else if (case found of None \<Rightarrow> False | Some ex \<Rightarrow>
                 rs_RunID ex \<noteq> rs_RunID request \<or> rs_RequestHash ex \<noteq> rs_RequestHash request)
      then Some ((request, None), Inl ErrLedgerConflict)
      else if (case found of None \<Rightarrow> False | Some ex \<Rightarrow> rs_Status ex = ReservationSettled) then Some ((request, None), Inr L)
      else if (case found of None \<Rightarrow> False | Some ex \<Rightarrow> rs_Status ex = ReservationReleased)
      then Some ((request, None), Inl ErrLedgerConflict)
      else
        let req = (case found of None \<Rightarrow> request | Some ex \<Rightarrow> ex);
            L1 = L\<lparr>lg_Reservations := AList.delete (rs_ID req) (lg_Reservations L)\<rparr>;
            store = (\<lambda>v. L1\<lparr>lg_Reservations := AList.update (rs_ID req) v (lg_Reservations L1)\<rparr>) in
        do { stopped \<leftarrow> cancelled L (rs_RunID req);
             if stopped then Some ((req, None), Inl ErrExhausted)
             else do { denied \<leftarrow> admit L1 (rs_RunID req) (rs_Requested req) act;
               case denied of
                 None \<Rightarrow>
                   let held = req\<lparr>rs_Status := ReservationHeld, rs_Active := act, rs_Dimension := DimensionNone\<rparr>
                   in Some ((held, None), Inr (store held))
               | Some (dimension, e) \<Rightarrow>
                   if (case found of None \<Rightarrow> False | Some ex \<Rightarrow> rs_Status ex = ReservationHeld)
                   then Some ((req, Some e), Inr (store req))
                   else if \<not> is_error ErrWaiting e then Some ((req, None), Inl e)
                   else let waiting = req\<lparr>rs_Status := ReservationWaiting, rs_Active := False, rs_Dimension := dimension\<rparr>
                        in Some ((waiting, Some e), Inr (store waiting)) } })"

text \<open>The loop of \<open>SettleWithReceipts\<close> over the related receipts.\<close>

definition related_ok :: "string \<Rightarrow> string list \<Rightarrow> Reservation \<Rightarrow> bool" where
  "related_ok run seen nx \<longleftrightarrow>
     \<not> (rs_ID nx = [] \<or> rs_ID nx \<in> set seen \<or> rs_RunID nx \<noteq> run \<or> rs_RequestHash nx = [] \<or> \<not> ValidUsage (rs_Requested nx) \<or>
        rs_Usage nx \<noteq> zero_usage \<or> \<not> json_valid (rs_Receipt nx) \<or> \<not> rs_Dispatched nx \<or> rs_Active nx \<or>
        (rs_Status nx \<noteq> ReservationHeld \<and> rs_Status nx \<noteq> ReservationSettled))"

fun related_loop :: "string \<Rightarrow> string list \<Rightarrow> Reservation list \<Rightarrow> (string \<times> Reservation) list \<Rightarrow>
  ledger_error + (string \<times> Reservation) list" where
  "related_loop run seen [] vs = Inr vs"
| "related_loop run seen (nx # related) vs =
     (if \<not> related_ok run seen nx then Inl ErrUsage
      else
        let seen' = rs_ID nx # seen; continue = related_loop run seen' related in
        case map_of vs (rs_ID nx) of
          Some previous \<Rightarrow>
            if rs_RunID previous \<noteq> rs_RunID nx \<or> rs_RequestHash previous \<noteq> rs_RequestHash nx \<or>
               rs_Requested previous \<noteq> rs_Requested nx \<or>
               (rs_Status previous \<noteq> ReservationHeld \<and> rs_Status previous \<noteq> ReservationSettled)
            then Inl ErrLedgerConflict
            else if rs_Status previous = ReservationSettled then continue vs
            else continue (AList.update (rs_ID nx) nx vs)
        | None \<Rightarrow> continue (AList.update (rs_ID nx) nx vs))"

definition receipts_change :: "string \<Rightarrow> Usage \<Rightarrow> string \<Rightarrow> Reservation list \<Rightarrow> change" where
  "receipts_change k usage receipt related L = Some
     (case map_of (lg_Reservations L) k of
        None \<Rightarrow> Inl ErrLedgerConflict
      | Some current \<Rightarrow>
          if \<not> rs_Dispatched current \<or> (rs_Status current \<noteq> ReservationHeld \<and> rs_Status current \<noteq> ReservationSettled)
          then Inl ErrLedgerConflict
          else if rs_Status current = ReservationSettled then
            if rs_Usage current \<noteq> usage \<or> rs_Receipt current \<noteq> receipt then Inl ErrLedgerConflict else Inr L
          else case related_loop (rs_RunID current) [k] related (lg_Reservations L) of
            Inl e \<Rightarrow> Inl e
          | Inr vs \<Rightarrow> Inr (L\<lparr>lg_Reservations := AList.update k
              (current\<lparr>rs_Status := ReservationSettled, rs_Active := False, rs_Usage := usage, rs_Receipt := receipt\<rparr>) vs\<rparr>))"

subsection \<open>The compare-and-swap loop\<close>

text \<open>The interface \<open>LedgerStore\<close>.\<close>

record 's ledger_port =
  lp_LoadBudget :: "string \<Rightarrow> 's \<Rightarrow> ledger_error + Ledger"
  lp_SaveBudget :: "Ledger \<Rightarrow> u64 \<Rightarrow> 's \<Rightarrow> 's \<times> ledger_error option"

definition is_conflict :: "ledger_error option \<Rightarrow> bool" where
  "is_conflict err = (case err of None \<Rightarrow> False | Some e \<Rightarrow> is_error ErrLedgerConflict e)"

text \<open>One round of the loop. \<open>change c L\<close> runs the closure with its captured variables \<open>c\<close> on a copy of the
  loaded ledger; \<open>Inr\<close> is \<open>continue\<close>.\<close>

definition update_round ::
  "'s ledger_port \<Rightarrow> (nat \<Rightarrow> context_error option) \<Rightarrow> (nat \<Rightarrow> 's \<Rightarrow> 's) \<Rightarrow> string \<Rightarrow>
   ('c \<Rightarrow> Ledger \<Rightarrow> ('c \<times> (ledger_error + Ledger)) option) \<Rightarrow> nat \<Rightarrow> 'c \<Rightarrow> 's \<Rightarrow>
   (('s \<times> 'c \<times> Ledger \<times> ledger_error option) + ('c \<times> 's)) option" where
  "update_round port cxs env scopeID change k c st =
     (case cxs k of Some e \<Rightarrow> Some (Inl (st, c, zero_ledger, Some (LErrContext e))) | None \<Rightarrow>
      (case lp_LoadBudget port scopeID st of Inl e \<Rightarrow> Some (Inl (st, c, zero_ledger, Some e)) | Inr ledger \<Rightarrow>
         do { out \<leftarrow> change c ledger;
              case snd out of
                Inl e \<Rightarrow> Some (Inl (st, fst out, ledger, Some e))
              | Inr nx \<Rightarrow>
                  if same_ledger ledger nx then Some (Inl (st, fst out, ledger, None))
                  else
                    let nx' = nx\<lparr>lg_Revision := lg_Revision nx + 1\<rparr>;
                        saved = lp_SaveBudget port nx' (lg_Revision ledger) (env k st) in
                    if is_conflict (snd saved) then Some (Inr (fst out, fst saved))
                    else Some (Inl (fst saved, fst out, nx', snd saved)) }))"

partial_function (option) update_loop ::
  "'s ledger_port \<Rightarrow> (nat \<Rightarrow> context_error option) \<Rightarrow> (nat \<Rightarrow> 's \<Rightarrow> 's) \<Rightarrow> string \<Rightarrow>
   ('c \<Rightarrow> Ledger \<Rightarrow> ('c \<times> (ledger_error + Ledger)) option) \<Rightarrow> nat \<Rightarrow> 'c \<Rightarrow> 's \<Rightarrow>
   ('s \<times> 'c \<times> Ledger \<times> ledger_error option) option" where
  "update_loop port cxs env scopeID change k c st =
     do { out \<leftarrow> update_round port cxs env scopeID change k c st;
          case out of Inl result \<Rightarrow> Some result
          | Inr (c', st') \<Rightarrow> update_loop port cxs env scopeID change (Suc k) c' st' }"

type_synonym 's ledger_call = "('s \<times> Ledger \<times> ledger_error option) option"

definition update ::
  "'s ledger_port option \<Rightarrow> (nat \<Rightarrow> context_error option) \<Rightarrow> (nat \<Rightarrow> 's \<Rightarrow> 's) \<Rightarrow> string \<Rightarrow> change \<Rightarrow> 's \<Rightarrow> 's ledger_call" where
  "update store cxs env scopeID change st =
     (case store of None \<Rightarrow> Some (st, zero_ledger, Some ErrUsage)
      | Some port \<Rightarrow> map_option (\<lambda>(st', c, L, e). (st', L, e))
          (update_loop port cxs env scopeID (\<lambda>c L. map_option (\<lambda>r. ((), r)) (change L)) 0 () st))"

subsection \<open>The coordinator\<close>

partial_function (option) ensure_loop ::
  "'s ledger_port \<Rightarrow> (nat \<Rightarrow> 's \<Rightarrow> 's) \<Rightarrow> string \<Rightarrow> Limits \<Rightarrow> nat \<Rightarrow> 's \<Rightarrow> ('s \<times> Ledger \<times> ledger_error option) option" where
  "ensure_loop port env scopeID limits k st =
     (case lp_LoadBudget port scopeID st of
        Inr ledger \<Rightarrow>
          if lg_Limits ledger \<noteq> limits then Some (st, zero_ledger, Some ErrLedgerConflict) else Some (st, ledger, None)
      | Inl e \<Rightarrow>
          if \<not> is_error ErrLedgerNotFound e then Some (st, zero_ledger, Some e)
          else
            let ledger = zero_ledger\<lparr>lg_ID := scopeID, lg_Revision := 1, lg_Limits := limits\<rparr>;
                saved = lp_SaveBudget port ledger 0 (env k st) in
            if is_conflict (snd saved) then ensure_loop port env scopeID limits (Suc k) (fst saved)
            else Some (fst saved, ledger, snd saved))"

definition co_Ensure :: "'s ledger_port option \<Rightarrow> (nat \<Rightarrow> 's \<Rightarrow> 's) \<Rightarrow> string \<Rightarrow> Limits \<Rightarrow> 's \<Rightarrow> 's ledger_call" where
  "co_Ensure store env scopeID limits st =
     (if store = None \<or> blank scopeID \<or> \<not> ValidLimits limits then Some (st, zero_ledger, Some ErrUsage)
      else ensure_loop (the store) env scopeID limits 0 st)"

definition co_RegisterRun ::
  "'s ledger_port option \<Rightarrow> (nat \<Rightarrow> context_error option) \<Rightarrow> (nat \<Rightarrow> 's \<Rightarrow> 's) \<Rightarrow> string \<Rightarrow> string \<Rightarrow> RunBudget \<Rightarrow> 's \<Rightarrow> 's ledger_call" where
  "co_RegisterRun store cxs env scopeID runID binding st =
     (if runID = [] \<or> runID = rb_ParentRunID binding \<or> \<not> ValidLimits (rb_Limits binding) then Some (st, zero_ledger, Some ErrUsage)
      else update store cxs env scopeID (register_change runID binding) st)"

definition co_FinishRuns ::
  "'s ledger_port option \<Rightarrow> (nat \<Rightarrow> context_error option) \<Rightarrow> (nat \<Rightarrow> 's \<Rightarrow> 's) \<Rightarrow> string \<Rightarrow> string list \<Rightarrow> 's \<Rightarrow> 's ledger_call" where
  "co_FinishRuns store cxs env scopeID runIDs st = update store cxs env scopeID (finish_change runIDs) st"

text \<open>\<open>errors.Join(err, admissionErr)\<close> is the list of the errors that are not nil.\<close>

definition co_Reserve ::
  "'s ledger_port option \<Rightarrow> (nat \<Rightarrow> context_error option) \<Rightarrow> (nat \<Rightarrow> 's \<Rightarrow> 's) \<Rightarrow> string \<Rightarrow> Reservation \<Rightarrow> bool \<Rightarrow> 's \<Rightarrow>
   ('s \<times> Ledger \<times> ledger_error list) option" where
  "co_Reserve store cxs env scopeID request act st =
     (if rs_ID request = [] \<or> rs_RunID request = [] \<or> rs_RequestHash request = [] \<or> \<not> ValidUsage (rs_Requested request)
      then Some (st, zero_ledger, [ErrUsage])
      else case store of None \<Rightarrow> Some (st, zero_ledger, [ErrUsage])
      | Some port \<Rightarrow>
          map_option (\<lambda>(st', c, L, e). (st', L, (case e of None \<Rightarrow> [] | Some x \<Rightarrow> [x]) @ (case snd c of None \<Rightarrow> [] | Some x \<Rightarrow> [x])))
            (update_loop port cxs env scopeID (reserve_change act) 0 (request, None) st))"

definition co_Dispatch ::
  "'s ledger_port option \<Rightarrow> (nat \<Rightarrow> context_error option) \<Rightarrow> (nat \<Rightarrow> 's \<Rightarrow> 's) \<Rightarrow> string \<Rightarrow> string \<Rightarrow> 's \<Rightarrow> 's ledger_call" where
  "co_Dispatch store cxs env scopeID k st = update store cxs env scopeID (dispatch_change k) st"

definition co_RequeueProvenUnsent ::
  "'s ledger_port option \<Rightarrow> (nat \<Rightarrow> context_error option) \<Rightarrow> (nat \<Rightarrow> 's \<Rightarrow> 's) \<Rightarrow> string \<Rightarrow> string \<Rightarrow> u64 \<Rightarrow> 's \<Rightarrow> 's ledger_call" where
  "co_RequeueProvenUnsent store cxs env scopeID k dispatchRevision st =
     (if dispatchRevision = 0 \<or> take 6 k \<noteq> ''model:'' \<or> length k \<le> 6 then Some (st, zero_ledger, Some ErrLedgerConflict)
      else update store cxs env scopeID (requeue_change k dispatchRevision) st)"

definition co_Suspend ::
  "'s ledger_port option \<Rightarrow> (nat \<Rightarrow> context_error option) \<Rightarrow> (nat \<Rightarrow> 's \<Rightarrow> 's) \<Rightarrow> string \<Rightarrow> string \<Rightarrow> 's \<Rightarrow> 's ledger_call" where
  "co_Suspend store cxs env scopeID k st = update store cxs env scopeID (suspend_change k) st"

definition co_Settle ::
  "'s ledger_port option \<Rightarrow> (nat \<Rightarrow> context_error option) \<Rightarrow> (nat \<Rightarrow> 's \<Rightarrow> 's) \<Rightarrow> string \<Rightarrow> string \<Rightarrow> Usage \<Rightarrow> string \<Rightarrow> 's \<Rightarrow> 's ledger_call" where
  "co_Settle store cxs env scopeID k usage receipt st =
     (if \<not> ValidUsage usage \<or> (receipt \<noteq> [] \<and> \<not> json_valid receipt) then Some (st, zero_ledger, Some ErrUsage)
      else update store cxs env scopeID (settle_change k usage receipt) st)"

definition co_Release ::
  "'s ledger_port option \<Rightarrow> (nat \<Rightarrow> context_error option) \<Rightarrow> (nat \<Rightarrow> 's \<Rightarrow> 's) \<Rightarrow> string \<Rightarrow> string \<Rightarrow> 's \<Rightarrow> 's ledger_call" where
  "co_Release store cxs env scopeID k st = update store cxs env scopeID (release_change k) st"

definition co_Cancel ::
  "'s ledger_port option \<Rightarrow> (nat \<Rightarrow> context_error option) \<Rightarrow> (nat \<Rightarrow> 's \<Rightarrow> 's) \<Rightarrow> string \<Rightarrow> 's \<Rightarrow> 's ledger_call" where
  "co_Cancel store cxs env scopeID st = update store cxs env scopeID cancel_change st"

definition co_CancelRun ::
  "'s ledger_port option \<Rightarrow> (nat \<Rightarrow> context_error option) \<Rightarrow> (nat \<Rightarrow> 's \<Rightarrow> 's) \<Rightarrow> string \<Rightarrow> string \<Rightarrow> 's \<Rightarrow> 's ledger_call" where
  "co_CancelRun store cxs env scopeID runID st =
     (if blank runID then Some (st, zero_ledger, Some ErrUsage)
      else update store cxs env scopeID (cancel_run_change runID) st)"

definition co_SettleWithReceipts ::
  "'s ledger_port option \<Rightarrow> (nat \<Rightarrow> context_error option) \<Rightarrow> (nat \<Rightarrow> 's \<Rightarrow> 's) \<Rightarrow> string \<Rightarrow> string \<Rightarrow> Usage \<Rightarrow> string \<Rightarrow>
   Reservation list \<Rightarrow> 's \<Rightarrow> 's ledger_call" where
  "co_SettleWithReceipts store cxs env scopeID k usage receipt related st =
     (if \<not> ValidUsage usage \<or> \<not> json_valid receipt then Some (st, zero_ledger, Some ErrUsage)
      else update store cxs env scopeID (receipts_change k usage receipt related) st)"

subsection \<open>The in-memory store\<close>

type_synonym MemoryLedgerStore = "string \<rightharpoonup> Ledger"

definition LoadBudget :: "string \<Rightarrow> MemoryLedgerStore \<Rightarrow> ledger_error + Ledger" where
  "LoadBudget k ledgers = (case ledgers k of None \<Rightarrow> Inl ErrLedgerNotFound | Some L \<Rightarrow> Inr L)"

definition SaveBudget :: "Ledger \<Rightarrow> u64 \<Rightarrow> MemoryLedgerStore \<Rightarrow> MemoryLedgerStore \<times> ledger_error option" where
  "SaveBudget L revision ledgers =
     (if lg_ID L = [] \<or> lg_Revision L \<noteq> revision + 1 \<or> \<not> ValidLimits (lg_Limits L) then (ledgers, Some ErrUsage)
      else if (case ledgers (lg_ID L) of None \<Rightarrow> 0 | Some old \<Rightarrow> lg_Revision old) \<noteq> revision
      then (ledgers, Some ErrLedgerConflict)
      else (ledgers(lg_ID L \<mapsto> L), None))"

definition memory_ledger :: "MemoryLedgerStore ledger_port" where
  "memory_ledger = \<lparr>lp_LoadBudget = LoadBudget, lp_SaveBudget = SaveBudget\<rparr>"

end
