(* ===== verification/Ledger_Facts.thy ===== *)
theory Ledger_Facts
  imports Ledger
begin

text \<open>
  Correctness of the ledger. \<open>is_path\<close> describes the ancestry of a run; the loops that climb it are
  rewritten along it, which also shows that they end. \<open>charged\<close> is the amount that a scope has
  used or reserved, an exact sum over the reservations, and \<open>ledger_inv\<close> says that no scope's charge,
  active runs or unfinished descendants exceed its limits. Every operation keeps it.
\<close>

subsection \<open>Ancestry\<close>

fun is_path :: "Ledger \<Rightarrow> string \<Rightarrow> string list \<Rightarrow> bool" where
  "is_path L r [] \<longleftrightarrow> r = []"
| "is_path L r (x # p) \<longleftrightarrow> r \<noteq> [] \<and> x = r \<and> is_path L (parent_of L r) p"

lemma is_path_unique: "is_path L r p \<Longrightarrow> is_path L r q \<Longrightarrow> p = q"
proof (induction p arbitrary: r q)
  case Nil
  then show ?case by (cases q) auto
next
  case (Cons x p)
  then show ?case by (cases q) auto
qed

lemma contains_loop_path: "is_path L r p \<Longrightarrow> contains_loop L c r = Some (c \<in> set p)"
  by (induction p arbitrary: r) (auto simp: contains_loop.simps)

lemma cancelled_loop_path: "is_path L r p \<Longrightarrow> cancelled_loop L r = Some (\<exists>x\<in>set p. x \<in> set (lg_CancelledRuns L))"
  by (induction p arbitrary: r) (auto simp: cancelled_loop.simps)

definition inside :: "Ledger \<Rightarrow> string \<Rightarrow> string \<Rightarrow> bool" where
  "inside L c r \<longleftrightarrow> c = [] \<or> (\<exists>p. is_path L r p \<and> c \<in> set p)"

lemma inside_root [simp]: "inside L [] r"
  by (simp add: inside_def)

lemma inside_path: "is_path L r p \<Longrightarrow> inside L c r \<longleftrightarrow> c = [] \<or> c \<in> set p"
  using is_path_unique by (auto simp: inside_def)

text \<open>The ancestry of the runs is a forest.\<close>

definition registered :: "Ledger \<Rightarrow> string \<Rightarrow> bool" where
  "registered L r \<longleftrightarrow> map_of (lg_Runs L) r \<noteq> None"

definition runs_ok :: "Ledger \<Rightarrow> bool" where
  "runs_ok L \<longleftrightarrow> distinct (map fst (lg_Runs L)) \<and> \<not> registered L [] \<and>
     (\<forall>r. parent_of L r = [] \<or> registered L (parent_of L r)) \<and> (\<forall>r. \<exists>p. is_path L r p)"

lemma runs_okD:
  assumes "runs_ok L"
  shows "distinct (map fst (lg_Runs L))" and "\<not> registered L []"
    and "parent_of L r = [] \<or> registered L (parent_of L r)" and "\<exists>p. is_path L r p"
  using assms unfolding runs_ok_def by blast+

lemma unregistered_parent: "\<not> registered L r \<Longrightarrow> parent_of L r = []"
  by (simp add: run_of_def registered_def)

lemma contains_eq: "runs_ok L \<Longrightarrow> contains L c r = Some (inside L c r)"
proof -
  assume "runs_ok L"
  from runs_okD(4) [OF this] obtain p where "is_path L r p" by blast
  from contains_loop_path [OF this] inside_path [OF this] show ?thesis by (simp add: contains_def)
qed

lemma cancelled_total: "runs_ok L \<Longrightarrow> \<exists>b. cancelled L r = Some b"
proof -
  assume "runs_ok L"
  from runs_okD(4) [OF this] obtain p where "is_path L r p" by blast
  from cancelled_loop_path [OF this] show ?thesis unfolding cancelled_def by fastforce
qed

lemma run_of_cong: "lg_Runs L' = lg_Runs L \<Longrightarrow> run_of L' = run_of L"
  by (simp add: run_of_def fun_eq_iff)

lemma is_path_cong: "lg_Runs L' = lg_Runs L \<Longrightarrow> is_path L' r p = is_path L r p"
  by (induction p arbitrary: r) (simp_all add: run_of_def)

lemma inside_cong: "lg_Runs L' = lg_Runs L \<Longrightarrow> inside L' = inside L"
  using is_path_cong unfolding inside_def fun_eq_iff by blast

lemma runs_ok_cong: "lg_Runs L' = lg_Runs L \<Longrightarrow> runs_ok L' = runs_ok L"
  using is_path_cong [of L' L] run_of_cong [of L' L] unfolding runs_ok_def registered_def by presburger

text \<open>Registering a new run below a registered one changes no other run's ancestry.\<close>

lemma path_registered:
  assumes "runs_ok L" and "is_path L r p" and "r = [] \<or> registered L r"
  shows "\<forall>x\<in>set p. registered L x"
  using assms(2,3)
proof (induction p arbitrary: r)
  case (Cons x p)
  then show ?case using Cons.IH [OF _ runs_okD(3) [OF assms(1), of r]] by simp
qed simp

lemma register_path:
  assumes "run \<notin> set p" and "is_path L r p" and "lg_Runs L' = AList.update run b (lg_Runs L)"
  shows "is_path L' r p"
  using assms by (induction p arbitrary: r) (auto simp: run_of_def update_conv')

lemma fresh_not_in_path:
  assumes "runs_ok L" and "\<not> registered L run" and "is_path L r p" and "r \<noteq> run"
  shows "run \<notin> set p"
proof (cases p)
  case (Cons x q)
  then have q: "x = r" "is_path L (parent_of L r) q" using assms(3) by simp_all
  show ?thesis using path_registered [OF assms(1) q(2) runs_okD(3) [OF assms(1)]] assms(2,4) Cons q(1) by auto
qed simp

lemma register_run_of:
  assumes "lg_Runs L' = AList.update run b (lg_Runs L)"
  shows "run_of L' r = (if r = run then b else run_of L r)" and "registered L' r \<longleftrightarrow> r = run \<or> registered L r"
  using assms by (simp_all add: run_of_def registered_def update_conv')

lemma register_ancestry:
  assumes ok: "runs_ok L" and new: "\<not> registered L run" "run \<noteq> []" "run \<noteq> rb_ParentRunID b"
    and par: "rb_ParentRunID b = [] \<or> registered L (rb_ParentRunID b)"
    and L': "lg_Runs L' = AList.update run b (lg_Runs L)"
  shows "r \<noteq> run \<Longrightarrow> \<exists>p. is_path L r p \<and> is_path L' r p"
    and "\<exists>p. is_path L (rb_ParentRunID b) p \<and> is_path L' run (run # p)"
proof -
  show *: "\<exists>p. is_path L r p \<and> is_path L' r p" if "r \<noteq> run" for r
    using runs_okD(4) [OF ok, of r] fresh_not_in_path [OF ok new(1) _ that] register_path [OF _ _ L'] by blast
  show "\<exists>p. is_path L (rb_ParentRunID b) p \<and> is_path L' run (run # p)"
  proof -
    obtain p where "is_path L (rb_ParentRunID b) p" "is_path L' (rb_ParentRunID b) p" using * [OF new(3) [symmetric]] by blast
    then show ?thesis using new(2) by (intro exI [of _ p]) (simp add: register_run_of(1) [OF L'])
  qed
qed

lemma register_runs_ok:
  assumes ok: "runs_ok L" and new: "\<not> registered L run" "run \<noteq> []" "run \<noteq> rb_ParentRunID b"
    and par: "rb_ParentRunID b = [] \<or> registered L (rb_ParentRunID b)"
    and L': "lg_Runs L' = AList.update run b (lg_Runs L)"
  shows "runs_ok L'" and "r \<noteq> run \<Longrightarrow> inside L' c r = inside L c r"
    and "inside L' c run = (c = run \<or> inside L c (rb_ParentRunID b))"
proof -
  note anc = register_ancestry [OF assms]
  have paths: "\<exists>p. is_path L' r p" for r using anc by (cases "r = run") blast+
  have "distinct (map fst (lg_Runs L'))" using runs_okD(1) [OF ok] by (simp add: L' distinct_update)
  moreover have "parent_of L' r = [] \<or> registered L' (parent_of L' r)" for r
    using par runs_okD(3) [OF ok, of r] by (auto simp: register_run_of [OF L'])
  ultimately show "runs_ok L'"
    unfolding runs_ok_def using paths runs_okD(2) [OF ok] new(2) by (simp add: register_run_of(2) [OF L'])
  show "inside L' c r = inside L c r" if "r \<noteq> run" using anc(1) [OF that] by (auto simp: inside_path)
  obtain p where "is_path L (rb_ParentRunID b) p" "is_path L' run (run # p)" using anc(2) by blast
  from inside_path [OF this(1)] inside_path [OF this(2)]
  show "inside L' c run = (c = run \<or> inside L c (rb_ParentRunID b))" by auto
qed

subsection \<open>Charges\<close>

definition used :: "(Usage \<Rightarrow> int) \<Rightarrow> Reservation \<Rightarrow> int" where
  "used f v = (if rs_Status v = ReservationSettled then f (rs_Usage v) else 0)"

definition held :: "(Usage \<Rightarrow> int) \<Rightarrow> Reservation \<Rightarrow> int" where
  "held f v = (if rs_Status v = ReservationHeld then f (rs_Requested v) else 0)"

definition charge :: "(Usage \<Rightarrow> int) \<Rightarrow> Reservation \<Rightarrow> int" where
  "charge f v = used f v + held f v"

definition scope_sum :: "Ledger \<Rightarrow> string \<Rightarrow> (Reservation \<Rightarrow> int) \<Rightarrow> (string \<times> Reservation) list \<Rightarrow> int" where
  "scope_sum L c w vs = (\<Sum>(k, v)\<leftarrow>vs. if inside L c (rs_RunID v) then w v else 0)"

abbreviation charged :: "Ledger \<Rightarrow> string \<Rightarrow> (Usage \<Rightarrow> int) \<Rightarrow> int" where
  "charged L c f \<equiv> scope_sum L c (charge f) (lg_Reservations L)"

definition actives :: "Ledger \<Rightarrow> string \<Rightarrow> (string \<times> Reservation) list \<Rightarrow> string set" where
  "actives L c vs = {rs_RunID v |k v. (k, v) \<in> set vs \<and> rs_Active v \<and> inside L c (rs_RunID v)}"

definition resv_ok :: "Ledger \<Rightarrow> Reservation \<Rightarrow> bool" where
  "resv_ok L v \<longleftrightarrow> (rs_Status v = ReservationSettled \<longrightarrow> usage_fits (rs_Usage v)) \<and>
     (rs_Status v = ReservationHeld \<longrightarrow> usage_fits (rs_Requested v)) \<and>
     (rs_Active v \<longrightarrow> rs_Status v = ReservationHeld) \<and> registered L (rs_RunID v)"

lemma scope_sum_Nil [simp]: "scope_sum L c w [] = 0"
  by (simp add: scope_sum_def)

lemma scope_sum_Cons [simp]:
  "scope_sum L c w ((k, v) # vs) = (if inside L c (rs_RunID v) then w v else 0) + scope_sum L c w vs"
  by (simp add: scope_sum_def)

lemma scope_sum_add: "scope_sum L c (\<lambda>v. w v + u v) vs = scope_sum L c w vs + scope_sum L c u vs"
  by (induction vs) auto

lemma scope_sum_nonneg: "(\<And>k v. (k, v) \<in> set vs \<Longrightarrow> 0 \<le> w v) \<Longrightarrow> 0 \<le> scope_sum L c w vs"
  unfolding scope_sum_def by (rule sum_list_nonneg) auto

lemma scope_sum_le_root:
  "(\<And>k v. (k, v) \<in> set vs \<Longrightarrow> 0 \<le> w v) \<Longrightarrow> scope_sum L c w vs \<le> scope_sum L [] w vs"
  unfolding scope_sum_def by (rule sum_list_mono) auto

lemma scope_sum_update:
  "scope_sum L c w (AList.update k v vs) =
     scope_sum L c w vs - (case map_of vs k of None \<Rightarrow> 0 | Some o' \<Rightarrow> if inside L c (rs_RunID o') then w o' else 0) +
     (if inside L c (rs_RunID v) then w v else 0)"
  by (induction vs) auto

lemma scope_sum_delete:
  "distinct (map fst vs) \<Longrightarrow> scope_sum L c w (AList.delete k vs) =
     scope_sum L c w vs - (case map_of vs k of None \<Rightarrow> 0 | Some o' \<Rightarrow> if inside L c (rs_RunID o') then w o' else 0)"
proof (induction vs)
  case (Cons kv vs)
  obtain k' v where kv: "kv = (k', v)" by fastforce
  show ?case
  proof (cases "k' = k")
    case True
    then have "k \<notin> fst ` set vs" using Cons.prems kv by simp
    then have "AList.delete k vs = vs" by simp
    then show ?thesis using True by (simp add: kv)
  qed (use Cons kv in simp)
qed simp

lemma field_nonneg:
  assumes "f \<in> set usage_fields" and "resv_ok L v"
  shows "0 \<le> used f v" and "0 \<le> held f v" and "0 \<le> charge f v"
  using assms by (auto simp: used_def held_def charge_def resv_ok_def usage_fits_def ValidUsage_iff)

subsection \<open>Views\<close>

definition acc_ok :: "Ledger \<Rightarrow> string \<Rightarrow> (string \<times> Reservation) list \<Rightarrow> view_acc \<Rightarrow> bool" where
  "acc_ok L c vs a \<longleftrightarrow> usage_fits (va_Usage a) \<and> usage_fits (va_Reserved a) \<and> distinct (va_Active a) \<and>
     (\<forall>f\<in>set usage_fields. f (va_Usage a) + scope_sum L c (used f) vs \<le> max_s64 \<and>
        f (va_Reserved a) + scope_sum L c (held f) vs \<le> max_s64)"

lemma add_or_zero_eq:
  assumes "usage_fits a" and "usage_fits b" and "\<forall>f\<in>set usage_fields. f a + f b \<le> max_s64"
  shows "add_or_zero a b = add_fields a b" and "usage_fits (add_fields a b)"
  using assms AddUsage_eq [OF assms(1,2)] usage_fits_add usage_fitsD(1) by (auto simp: add_or_zero_def)

lemma view_add_ok:
  assumes vs: "\<forall>(k, v)\<in>set ((k, v) # vs). resv_ok L v" and ok: "acc_ok L c ((k, v) # vs) a" and "inside L c (rs_RunID v)"
  shows "acc_ok L c vs (view_add v a)"
    and "f \<in> set usage_fields \<Longrightarrow> f (va_Usage (view_add v a)) = f (va_Usage a) + used f v \<and>
       f (va_Reserved (view_add v a)) = f (va_Reserved a) + held f v"
    and "set (va_Active (view_add v a)) = set (va_Active a) \<union> (if rs_Active v then {rs_RunID v} else {})"
proof -
  have v: "resv_ok L v" using vs by simp
  have nn: "0 \<le> scope_sum L c (used f) vs" "0 \<le> scope_sum L c (held f) vs" if "f \<in> set usage_fields" for f
    using vs field_nonneg [OF that] by (auto intro!: scope_sum_nonneg)
  have bound: "f (va_Usage a) + used f v \<le> max_s64" "f (va_Reserved a) + held f v \<le> max_s64" if "f \<in> set usage_fields" for f
    using ok nn [OF that] that assms(3) by (fastforce simp: acc_ok_def)+
  have settled: "va_Usage (view_add v a) = add_fields (va_Usage a) (rs_Usage v) \<and> usage_fits (va_Usage (view_add v a))"
    if st: "rs_Status v = ReservationSettled"
    using add_or_zero_eq [of "va_Usage a" "rs_Usage v"] ok v bound(1) st
    by (simp add: acc_ok_def resv_ok_def view_add_def used_def)
  have hold: "va_Reserved (view_add v a) = add_fields (va_Reserved a) (rs_Requested v) \<and> usage_fits (va_Reserved (view_add v a))"
    if st: "rs_Status v = ReservationHeld"
    using add_or_zero_eq [of "va_Reserved a" "rs_Requested v"] ok v bound(2) st
    by (simp add: acc_ok_def resv_ok_def view_add_def held_def)
  have other: "va_Usage (view_add v a) = va_Usage a" if "rs_Status v \<noteq> ReservationSettled"
    using that by (simp add: view_add_def split: ReservationStatus.split)
  have other': "va_Reserved (view_add v a) = va_Reserved a" if "rs_Status v \<noteq> ReservationHeld"
    using that by (simp add: view_add_def split: ReservationStatus.split)
  show sums: "f (va_Usage (view_add v a)) = f (va_Usage a) + used f v \<and>
       f (va_Reserved (view_add v a)) = f (va_Reserved a) + held f v" if "f \<in> set usage_fields" for f
    using settled hold other other' that by (cases "rs_Status v") (simp_all add: used_def held_def)
  have fits: "usage_fits (va_Usage (view_add v a))" "usage_fits (va_Reserved (view_add v a))"
    using settled hold other other' ok by (cases "rs_Status v"; simp add: acc_ok_def)+
  have dist: "distinct (va_Active (view_add v a))"
    using ok by (simp add: acc_ok_def view_add_def split: ReservationStatus.split)
  show "acc_ok L c vs (view_add v a)"
    unfolding acc_ok_def
  proof (intro conjI ballI)
    fix f assume f: "f \<in> set usage_fields"
    show "f (va_Usage (view_add v a)) + scope_sum L c (used f) vs \<le> max_s64"
      "f (va_Reserved (view_add v a)) + scope_sum L c (held f) vs \<le> max_s64"
      using ok sums [OF f] f assms(3) by (auto simp: acc_ok_def)
  qed (fact fits dist)+
  show "set (va_Active (view_add v a)) = set (va_Active a) \<union> (if rs_Active v then {rs_RunID v} else {})"
    using v by (auto simp: view_add_def resv_ok_def split: ReservationStatus.split)
qed

lemma view_loop_eq:
  assumes "runs_ok L" and "\<forall>(k, v)\<in>set vs. resv_ok L v" and "acc_ok L c vs a"
  shows "\<exists>a'. view_loop L c vs a = Some a' \<and> usage_fits (va_Usage a') \<and> usage_fits (va_Reserved a') \<and>
     (\<forall>f\<in>set usage_fields. f (va_Usage a') = f (va_Usage a) + scope_sum L c (used f) vs \<and>
        f (va_Reserved a') = f (va_Reserved a) + scope_sum L c (held f) vs) \<and>
     distinct (va_Active a') \<and> set (va_Active a') = set (va_Active a) \<union> actives L c vs"
  using assms(2,3)
proof (induction vs arbitrary: a)
  case (Cons kv vs)
  obtain k v where kv: "kv = (k, v)" by fastforce
  define a1 where "a1 = (if inside L c (rs_RunID v) then view_add v a else a)"
  have prems: "\<forall>(k, v)\<in>set ((k, v) # vs). resv_ok L v" "acc_ok L c ((k, v) # vs) a" using Cons.prems kv by simp_all
  note va = view_add_ok [OF prems]
  have ok1: "acc_ok L c vs a1" using va(1) prems(2) by (auto simp: a1_def acc_ok_def)
  have act1: "set (va_Active a1) \<union> actives L c vs = set (va_Active a) \<union> actives L c ((k, v) # vs)"
    using va(3) by (auto simp: a1_def actives_def)
  have sums1: "f (va_Usage a1) + scope_sum L c (used f) vs = f (va_Usage a) + scope_sum L c (used f) ((k, v) # vs)"
    "f (va_Reserved a1) + scope_sum L c (held f) vs = f (va_Reserved a) + scope_sum L c (held f) ((k, v) # vs)"
    if "f \<in> set usage_fields" for f
    using va(2) [OF _ that] by (simp_all add: a1_def)
  have "view_loop L c (kv # vs) a = view_loop L c vs a1"
    by (simp add: kv contains_eq [OF assms(1)] a1_def)
  then show ?case using Cons.IH [OF _ ok1] Cons.prems(1) sums1 act1 unfolding kv by fastforce
qed (simp add: acc_ok_def actives_def)

definition unfinished :: "Ledger \<Rightarrow> string \<Rightarrow> string set" where
  "unfinished L c = {k. \<exists>b. (k, b) \<in> set (lg_Runs L) \<and> rb_ParentRunID b \<noteq> [] \<and> k \<noteq> c \<and> k \<notin> set (lg_FinishedRuns L) \<and>
     inside L c k}"

lemma unfinished_loop_eq:
  assumes "runs_ok L" and "distinct (map fst runs)"
  shows "unfinished_loop L c runs n = Some (n + int (card {k. \<exists>b. (k, b) \<in> set runs \<and> rb_ParentRunID b \<noteq> [] \<and> k \<noteq> c \<and>
     k \<notin> set (lg_FinishedRuns L) \<and> inside L c k}))"
  using assms(2)
proof (induction runs arbitrary: n)
  case (Cons kb runs)
  obtain k b where kb: "kb = (k, b)" by fastforce
  let ?S = "\<lambda>rs. {k. \<exists>b. (k, b) \<in> set rs \<and> rb_ParentRunID b \<noteq> [] \<and> k \<noteq> c \<and> k \<notin> set (lg_FinishedRuns L) \<and> inside L c k}"
  define P where "P \<longleftrightarrow> rb_ParentRunID b \<noteq> [] \<and> k \<noteq> c \<and> k \<notin> set (lg_FinishedRuns L) \<and> inside L c k"
  have new: "k \<notin> ?S runs" using Cons.prems kb by force
  have "?S (kb # runs) = (if P then insert k (?S runs) else ?S runs)" unfolding kb P_def by auto
  moreover have fin: "finite (?S runs)" by (rule finite_subset [of _ "fst ` set runs"]) force+
  ultimately have "int (card (?S (kb # runs))) = (if P then 1 else 0) + int (card (?S runs))"
    using new by simp
  moreover have "unfinished_loop L c (kb # runs) n = unfinished_loop L c runs (if P then n + 1 else n)"
    by (auto simp: kb P_def contains_eq [OF assms(1)])
  ultimately show ?case using Cons by simp
qed simp

lemma active_loop_eq:
  assumes "runs_ok L"
  shows "active_loop L r c vs = Some (r \<in> actives L c vs)"
proof (induction vs)
  case (Cons kv vs)
  then show ?case by (cases kv) (auto simp: actives_def contains_eq [OF assms])
qed (simp add: actives_def)

definition base_inv :: "Ledger \<Rightarrow> bool" where
  "base_inv L \<longleftrightarrow> runs_ok L \<and> distinct (map fst (lg_Reservations L)) \<and>
     (\<forall>(k, v)\<in>set (lg_Reservations L). rs_ID v = k \<and> resv_ok L v) \<and>
     (\<forall>f\<in>set usage_fields. charged L [] f \<le> max_s64)"

lemma base_inv_entries: "base_inv L \<Longrightarrow> \<forall>(k, v)\<in>set (lg_Reservations L). rs_ID v = k \<and> resv_ok L v"
  by (simp add: base_inv_def)

lemma base_invD:
  assumes "base_inv L"
  shows "runs_ok L" and "distinct (map fst (lg_Reservations L))" and "\<forall>(k, v)\<in>set (lg_Reservations L). resv_ok L v"
    and "f \<in> set usage_fields \<Longrightarrow> charged L [] f \<le> max_s64" and "(k, v) \<in> set (lg_Reservations L) \<Longrightarrow> rs_ID v = k"
  using assms unfolding base_inv_def by blast+

lemma scope_charges:
  fixes c :: string
  assumes "base_inv L" and f: "f \<in> set usage_fields"
  defines "u \<equiv> scope_sum L c (used f) (lg_Reservations L)" and "h \<equiv> scope_sum L c (held f) (lg_Reservations L)"
  shows "charged L c f = u + h" and "0 \<le> u" and "0 \<le> h" and "u + h \<le> max_s64"
proof -
  have nn: "0 \<le> used f v" "0 \<le> held f v" "0 \<le> charge f v" if "(k, v) \<in> set (lg_Reservations L)" for k v
    using base_invD(3) [OF assms(1)] that field_nonneg [OF f] by auto
  show eq: "charged L c f = u + h" unfolding u_def h_def charge_def by (rule scope_sum_add)
  show "0 \<le> u" "0 \<le> h" unfolding u_def h_def using nn by (auto intro!: scope_sum_nonneg)
  have "charged L c f \<le> charged L [] f" using nn(3) by (rule scope_sum_le_root)
  then show "u + h \<le> max_s64" using base_invD(4) [OF assms(1) f] eq by linarith
qed

text \<open>A view is exact: the sums of settled and held charges, the active runs and the unfinished descendants.\<close>

lemma View_eq:
  assumes inv: "base_inv L"
  shows "\<exists>view. View L c = Some view \<and> lv_Limits view = scope_limits L c \<and>
     usage_fits (lv_Usage view) \<and> usage_fits (lv_Reserved view) \<and>
     (\<forall>f\<in>set usage_fields. f (lv_Usage view) = scope_sum L c (used f) (lg_Reservations L) \<and>
        f (lv_Reserved view) = scope_sum L c (held f) (lg_Reservations L)) \<and>
     lv_ActiveRuns view = int (card (actives L c (lg_Reservations L))) \<and>
     lv_UnfinishedDescendants view = int (card (unfinished L c)) \<and>
     lv_Remaining view = remainingUsage (scope_limits L c) (lv_Usage view) (lv_Reserved view)"
proof -
  have start: "acc_ok L c (lg_Reservations L) view_start"
    unfolding acc_ok_def
  proof (intro conjI ballI)
    fix f assume f: "f \<in> set usage_fields"
    show "f (va_Usage view_start) + scope_sum L c (used f) (lg_Reservations L) \<le> max_s64"
      "f (va_Reserved view_start) + scope_sum L c (held f) (lg_Reservations L) \<le> max_s64"
      using scope_charges [OF inv f, of c] f by (simp_all add: view_start_def)
  qed (simp_all add: view_start_def)
  obtain b where b: "cancelled L c = Some b" using cancelled_total base_invD(1) [OF inv] by blast
  note un = unfinished_loop_eq [OF base_invD(1) [OF inv] runs_okD(1) [OF base_invD(1) [OF inv]], of c 0, folded unfinished_def]
  obtain a where a: "view_loop L c (lg_Reservations L) view_start = Some a" "usage_fits (va_Usage a)" "usage_fits (va_Reserved a)"
    "\<forall>f\<in>set usage_fields. f (va_Usage a) = f (va_Usage view_start) + scope_sum L c (used f) (lg_Reservations L) \<and>
        f (va_Reserved a) = f (va_Reserved view_start) + scope_sum L c (held f) (lg_Reservations L)"
    "distinct (va_Active a)" "set (va_Active a) = set (va_Active view_start) \<union> actives L c (lg_Reservations L)"
    using view_loop_eq [OF base_invD(1,3) [OF inv] start] by blast
  have "int (length (va_Active a)) = int (card (actives L c (lg_Reservations L)))"
    using distinct_card [OF a(5)] a(6) by (simp add: view_start_def)
  moreover have "\<forall>f\<in>set usage_fields. f (va_Usage a) = scope_sum L c (used f) (lg_Reservations L) \<and>
        f (va_Reserved a) = scope_sum L c (held f) (lg_Reservations L)"
    using a(4) by (simp add: view_start_def)
  ultimately show ?thesis using a(2,3) unfolding View_def b un a(1) by simp
qed

subsection \<open>Admission\<close>

lemma AddUsage_InrD:
  assumes "usage_fits l" and "AddUsage l r = Inr u"
  shows "usage_fits r" and "u = add_fields l r" and "usage_fits u" and "f \<in> set usage_fields \<Longrightarrow> f l + f r \<le> max_s64"
proof -
  have v: "ValidUsage r" using assms(2) by (auto simp: AddUsage_def split: if_splits)
  let ?ints = "[us_LLMCalls, us_ToolCalls, us_HostedToolCalls, us_ChildRuns, us_OutputBytes, us_StateBytes]"
  let ?longs = "[us_InputTokens, us_OutputTokens, us_TotalTokens, us_CacheReadTokens, us_CacheWriteTokens, us_ReasoningTokens,
    us_CostUnits]"
  have ints: "\<not> list_ex (\<lambda>(a, b). max_s64 - b < a) (map (\<lambda>f. (f l, f r)) ?ints)"
    and longs: "\<not> list_ex (\<lambda>(a, b). isl (checkedAdd a b)) (map (\<lambda>f. (f l, f r)) ?longs)"
    using assms(2) by (simp_all only: AddUsage_def list.map split: if_splits) simp_all
  have le: "f r \<le> max_s64" if f: "f \<in> set usage_fields" for f
  proof -
    have nn: "0 \<le> f l" using ValidUsage_nonneg [OF usage_fitsD(1) [OF assms(1)] f] .
    have "f \<in> set ?ints \<or> f \<in> set ?longs" using f unfolding usage_fields_def by auto
    then have "\<not> max_s64 - f r < f l \<or> \<not> isl (checkedAdd (f l) (f r))"
      using ints longs unfolding list_ex_iff by fastforce
    then show ?thesis using nn unfolding isl_checkedAdd max_s64_def by linarith
  qed
  show r: "usage_fits r" using v le by (simp add: usage_fits_def)
  have eq: "u = add_fields l r \<and> (\<forall>f\<in>set usage_fields. f l + f r \<le> max_s64)"
    using AddUsage_eq [OF assms(1) r] assms(2) by (simp split: if_splits)
  then show "u = add_fields l r" "f \<in> set usage_fields \<Longrightarrow> f l + f r \<le> max_s64" by blast+
  show "usage_fits u" using eq usage_fits_add [OF usage_fitsD(1) [OF assms(1)] v] by blast
qed

definition admitted :: "Ledger \<Rightarrow> string \<Rightarrow> Usage \<Rightarrow> bool \<Rightarrow> string \<Rightarrow> bool" where
  "admitted L r req act c \<longleftrightarrow> usage_fits req \<and>
     (\<forall>f\<in>set usage_fields. charged L c f + f req \<le> max_s64) \<and>
     (\<forall>(g, f)\<in>set limited_fields. 0 < g (scope_limits L c) \<longrightarrow> charged L c f + f req \<le> g (scope_limits L c)) \<and>
     (act \<longrightarrow> 0 < lm_MaxConcurrentRuns (scope_limits L c) \<longrightarrow> r \<in> actives L c (lg_Reservations L) \<or>
        int (card (actives L c (lg_Reservations L))) < lm_MaxConcurrentRuns (scope_limits L c))"

lemma admit_at_eq:
  assumes inv: "base_inv L"
  shows "\<exists>d. admit_at L r req act c = Some d \<and> (d = None \<longrightarrow> admitted L r req act c)"
proof -
  obtain view where v: "View L c = Some view" "lv_Limits view = scope_limits L c" "usage_fits (lv_Usage view)"
    "usage_fits (lv_Reserved view)" "\<forall>f\<in>set usage_fields. f (lv_Usage view) = scope_sum L c (used f) (lg_Reservations L) \<and>
        f (lv_Reserved view) = scope_sum L c (held f) (lg_Reservations L)"
    "lv_ActiveRuns view = int (card (actives L c (lg_Reservations L)))"
    using View_eq [OF inv, of c] by blast
  have ch: "charged L c f = f (lv_Usage view) + f (lv_Reserved view)" if "f \<in> set usage_fields" for f
    using scope_charges(1) [OF inv that, of c] v(5) that by simp
  have "admit_at L r req act c \<noteq> None"
    unfolding admit_at_def v(1) by (auto simp: Let_def active_def active_loop_eq [OF base_invD(1) [OF inv]] split: sum.split)
  moreover have "admitted L r req act c" if none: "admit_at L r req act c = Some None"
  proof -
    from none obtain w where w: "AddUsage (lv_Usage view) req = Inr w"
      unfolding admit_at_def v(1) by (auto split: sum.splits)
    with none obtain z where z: "AddUsage w (lv_Reserved view) = Inr z"
      unfolding admit_at_def v(1) by (auto simp: Let_def split: sum.splits if_splits)
    note wd = AddUsage_InrD [OF v(3) w]
    note zd = AddUsage_InrD [OF wd(3) z]
    have zf: "f z = charged L c f + f req" if "f \<in> set usage_fields" for f
      using ch [OF that] that by (simp add: zd(2) wd(2))
    have ex: "Exceeded (scope_limits L c) z = DimensionNone"
      using none w z v(2) unfolding admit_at_def v(1) by (auto simp: Let_def split: if_splits)
    have conc: "act \<longrightarrow> 0 < lm_MaxConcurrentRuns (scope_limits L c) \<longrightarrow> r \<in> actives L c (lg_Reservations L) \<or>
        int (card (actives L c (lg_Reservations L))) < lm_MaxConcurrentRuns (scope_limits L c)"
      using none w z v(2,6) unfolding admit_at_def v(1)
      by (auto simp: Let_def active_def active_loop_eq [OF base_invD(1) [OF inv]] split: if_splits)
    have "\<forall>(g, f)\<in>set limited_fields. 0 < g (scope_limits L c) \<longrightarrow> charged L c f + f req \<le> g (scope_limits L c)"
      using ex zf limited_fields_usage unfolding Exceeded_None_iff by fastforce
    moreover have "\<forall>f\<in>set usage_fields. charged L c f + f req \<le> max_s64"
      using usage_fitsD(2) [OF zd(3)] zf by metis
    ultimately show ?thesis using wd(1) conc unfolding admitted_def by blast
  qed
  ultimately show ?thesis by fastforce
qed

lemma admit_loop_eq:
  assumes inv: "base_inv L" and "is_path L cur p"
  shows "\<exists>d. admit_loop L r req act cur = Some d \<and> (d = None \<longrightarrow> (\<forall>c\<in>insert [] (set p). admitted L r req act c))"
  using assms(2)
proof (induction p arbitrary: cur)
  case Nil
  then show ?case using admit_at_eq [OF inv, of r req act "[]"] by (auto simp: admit_loop.simps)
next
  case (Cons x p)
  obtain d where d: "admit_at L r req act cur = Some d" "d = None \<longrightarrow> admitted L r req act cur"
    using admit_at_eq [OF inv] by blast
  show ?case
  proof (cases d)
    case None
    then have "admit_loop L r req act cur = admit_loop L r req act (parent_of L cur)"
      using d(1) Cons.prems by (simp add: admit_loop.simps)
    then show ?thesis using Cons.IH [of "parent_of L cur"] Cons.prems d(2) None by auto
  qed (use d(1) in \<open>auto simp: admit_loop.simps\<close>)
qed

lemma admit_eq:
  assumes "base_inv L"
  shows "\<exists>d. admit L r req act = Some d \<and> (d = None \<longrightarrow> (\<forall>c. inside L c r \<longrightarrow> admitted L r req act c))"
proof -
  obtain p where p: "is_path L r p" using runs_okD(4) [OF base_invD(1) [OF assms]] by blast
  show ?thesis using admit_loop_eq [OF assms p, of r req act] inside_path [OF p] by (auto simp: admit_def)
qed

lemma descendants_loop_eq:
  assumes inv: "base_inv L" and "is_path L cur p"
  shows "\<exists>d. descendants_loop L cur = Some d \<and> (d = None \<longrightarrow> (\<forall>c\<in>insert [] (set p).
     0 < lm_MaxConcurrentDescendants (scope_limits L c) \<longrightarrow>
       int (card (unfinished L c)) < lm_MaxConcurrentDescendants (scope_limits L c)))"
  using assms(2)
proof (induction p arbitrary: cur)
  case Nil
  then show ?case using View_eq [OF inv, of "[]"] by (auto simp: descendants_loop.simps)
next
  case (Cons x p)
  obtain view where v: "View L cur = Some view" "lv_Limits view = scope_limits L cur"
    "lv_UnfinishedDescendants view = int (card (unfinished L cur))" using View_eq [OF inv, of cur] by blast
  let ?m = "lm_MaxConcurrentDescendants (scope_limits L cur)"
  show ?case
  proof (cases "0 < ?m \<and> ?m \<le> int (card (unfinished L cur))")
    case False
    then have "descendants_loop L cur = descendants_loop L (parent_of L cur)"
      using v Cons.prems by (auto simp: descendants_loop.simps [of L cur])
    then show ?thesis using Cons.IH [of "parent_of L cur"] Cons.prems False by auto
  qed (use v in \<open>auto simp: descendants_loop.simps [of L cur]\<close>)
qed

subsection \<open>The invariant\<close>

definition within :: "Ledger \<Rightarrow> string \<Rightarrow> bool" where
  "within L c \<longleftrightarrow>
     (\<forall>(g, f)\<in>set limited_fields. 0 < g (scope_limits L c) \<longrightarrow> charged L c f \<le> g (scope_limits L c)) \<and>
     (0 < lm_MaxConcurrentRuns (scope_limits L c) \<longrightarrow>
        int (card (actives L c (lg_Reservations L))) \<le> lm_MaxConcurrentRuns (scope_limits L c)) \<and>
     (0 < lm_MaxConcurrentDescendants (scope_limits L c) \<longrightarrow>
        int (card (unfinished L c)) \<le> lm_MaxConcurrentDescendants (scope_limits L c))"

definition ledger_inv :: "Ledger \<Rightarrow> bool" where
  "ledger_inv L \<longleftrightarrow> base_inv L \<and> (\<forall>c. within L c)"

lemma ledger_invD: "ledger_inv L \<Longrightarrow> base_inv L" "ledger_inv L \<Longrightarrow> within L c"
  by (simp_all add: ledger_inv_def)

lemma finite_actives [simp]: "finite (actives L c vs)"
  by (rule finite_subset [of _ "(\<lambda>kv. rs_RunID (snd kv)) ` set vs"]) (auto simp: actives_def image_iff, force)

lemma finite_unfinished [simp]: "finite (unfinished L c)"
  by (rule finite_subset [of _ "fst ` set (lg_Runs L)"]) (auto simp: unfinished_def image_iff, force)

lemma scope_sum_cong: "lg_Runs L' = lg_Runs L \<Longrightarrow> scope_sum L' = scope_sum L"
  using inside_cong [of L' L] by (simp add: scope_sum_def fun_eq_iff)

lemma actives_cong: "lg_Runs L' = lg_Runs L \<Longrightarrow> actives L' = actives L"
  using inside_cong [of L' L] by (simp add: actives_def fun_eq_iff)

lemma scope_limits_cong: "lg_Runs L' = lg_Runs L \<Longrightarrow> lg_Limits L' = lg_Limits L \<Longrightarrow> scope_limits L' = scope_limits L"
  using run_of_cong [of L' L] by (simp add: scope_limits_def fun_eq_iff)

lemma resv_ok_cong: "lg_Runs L' = lg_Runs L \<Longrightarrow> resv_ok L' = resv_ok L"
  by (simp add: resv_ok_def registered_def fun_eq_iff)

text \<open>A change that keeps the runs and adds no charge, active run or unfinished run keeps the invariant.\<close>

lemma shrink_inv:
  assumes inv: "ledger_inv L" and R: "lg_Runs L' = lg_Runs L" and lim: "lg_Limits L' = lg_Limits L"
    and fin: "set (lg_FinishedRuns L) \<subseteq> set (lg_FinishedRuns L')"
    and dist: "distinct (map fst (lg_Reservations L'))" and ok: "\<forall>(k, v)\<in>set (lg_Reservations L'). rs_ID v = k \<and> resv_ok L v"
    and ch: "\<And>c f. f \<in> set usage_fields \<Longrightarrow> scope_sum L c (charge f) (lg_Reservations L') \<le> charged L c f"
    and act: "\<And>c. actives L c (lg_Reservations L') \<subseteq> actives L c (lg_Reservations L)"
  shows "ledger_inv L'"
proof -
  note frame = scope_sum_cong [OF R] actives_cong [OF R] scope_limits_cong [OF R lim] resv_ok_cong [OF R] runs_ok_cong [OF R]
  have "charged L [] f \<le> max_s64" if "f \<in> set usage_fields" for f using base_invD(4) [OF ledger_invD(1) [OF inv] that] .
  then have base: "base_inv L'"
    unfolding base_inv_def frame using base_invD(1) [OF ledger_invD(1) [OF inv]] dist ok ch order_trans by blast
  moreover have "within L' c" for c
  proof -
    note w = ledger_invD(2) [OF inv, of c, unfolded within_def]
    have "unfinished L' c \<subseteq> unfinished L c" using fin R inside_cong [OF R] by (auto simp: unfinished_def)
    then have un: "card (unfinished L' c) \<le> card (unfinished L c)" by (intro card_mono) simp_all
    have ac: "card (actives L c (lg_Reservations L')) \<le> card (actives L c (lg_Reservations L))"
      using act by (intro card_mono) simp_all
    have "scope_sum L c (charge f) (lg_Reservations L') \<le> g (scope_limits L c)"
      if "(g, f) \<in> set limited_fields" "0 < g (scope_limits L c)" for g f
      using ch [OF limited_fields_usage [OF that(1)], of c] w that by fastforce
    then show ?thesis unfolding within_def frame using w un ac by fastforce
  qed
  ultimately show ?thesis by (simp add: ledger_inv_def)
qed

definition lighter :: "Ledger \<Rightarrow> Reservation \<Rightarrow> Reservation \<Rightarrow> bool" where
  "lighter L v' v \<longleftrightarrow> rs_ID v' = rs_ID v \<and> rs_RunID v' = rs_RunID v \<and> (\<forall>f\<in>set usage_fields. charge f v' \<le> charge f v) \<and>
     (rs_Active v' \<longrightarrow> rs_Active v) \<and> resv_ok L v'"

lemma in_update:
  assumes "(a, b) \<in> set (AList.update k v xs)" and "distinct (map fst xs)"
  shows "(a, b) = (k, v) \<or> (a \<noteq> k \<and> (a, b) \<in> set xs)"
  using assms by (induction xs) (force split: if_splits)+

lemma actives_update:
  assumes "distinct (map fst vs)"
  shows "actives L c (AList.update k v vs) \<subseteq>
     actives L c vs \<union> (if rs_Active v \<and> inside L c (rs_RunID v) then {rs_RunID v} else {})"
  using in_update [OF _ assms] by (fastforce simp: actives_def)

lemma resv_ok_update:
  assumes "distinct (map fst vs)" and "\<forall>(k, v)\<in>set vs. rs_ID v = k \<and> resv_ok L v" and "rs_ID v = k \<and> resv_ok L v"
  shows "\<forall>(k, v)\<in>set (AList.update k v vs). rs_ID v = k \<and> resv_ok L v"
  using in_update [OF _ assms(1)] assms(2,3) by blast

lemma distinct_update_keys [simp]: "distinct (map fst vs) \<Longrightarrow> distinct (map fst (AList.update k v vs))"
  by (simp add: distinct_update)

lemma lighter_update:
  assumes inv: "ledger_inv L" and v: "map_of (lg_Reservations L) k = Some v" and l: "lighter L v' v"
  shows "ledger_inv (L\<lparr>lg_Reservations := AList.update k v' (lg_Reservations L)\<rparr>)"
proof -
  note base = ledger_invD(1) [OF inv]
  note d = base_invD(2) [OF base]
  have ok: "\<forall>(k, v)\<in>set (AList.update k v' (lg_Reservations L)). rs_ID v = k \<and> resv_ok L v"
    using base_invD(5) [OF base map_of_SomeD [OF v]] l
    by (intro resv_ok_update [OF d base_inv_entries [OF base]]) (simp add: lighter_def)
  have ch: "scope_sum L c (charge f) (AList.update k v' (lg_Reservations L)) \<le> charged L c f" if "f \<in> set usage_fields" for c f
    using l that by (simp add: scope_sum_update v lighter_def del: map_of_eq_Some_iff)
  have "(k, v) \<in> set (lg_Reservations L)" using map_of_SomeD [OF v] .
  then have act: "actives L c (AList.update k v' (lg_Reservations L)) \<subseteq> actives L c (lg_Reservations L)" for c
  proof -
    have "rs_RunID v' \<in> actives L c (lg_Reservations L)" if "rs_Active v'" "inside L c (rs_RunID v')"
      using that l \<open>(k, v) \<in> set (lg_Reservations L)\<close> unfolding lighter_def actives_def by fastforce
    then show ?thesis using actives_update [OF d, of L c k v'] by (auto split: if_splits)
  qed
  show ?thesis by (rule shrink_inv [OF inv]) (use d ok ch act in simp_all)
qed

lemma lighter_map:
  assumes inv: "ledger_inv L" and "length vs = length (lg_Reservations L)"
    and l: "\<And>i. i < length vs \<Longrightarrow> fst (vs ! i) = fst (lg_Reservations L ! i) \<and> lighter L (snd (vs ! i)) (snd (lg_Reservations L ! i))"
    and R: "lg_Runs L' = lg_Runs L" and lim: "lg_Limits L' = lg_Limits L" and fin: "lg_FinishedRuns L' = lg_FinishedRuns L"
    and vs: "lg_Reservations L' = vs"
  shows "ledger_inv L'"
proof -
  have keys: "map fst vs = map fst (lg_Reservations L)" using assms(2) l by (simp add: list_eq_iff_nth_eq)
  have ok: "\<forall>(k, v)\<in>set vs. rs_ID v = k \<and> resv_ok L v"
  proof clarify
    fix k v assume "(k, v) \<in> set vs"
    then obtain i where i: "i < length vs" "vs ! i = (k, v)" by (auto simp: in_set_conv_nth)
    have "rs_ID (snd (lg_Reservations L ! i)) = fst (lg_Reservations L ! i)"
      using base_invD(5) [OF ledger_invD(1) [OF inv]] nth_mem [of i "lg_Reservations L"] i(1) assms(2) by (metis prod.collapse)
    then show "rs_ID v = k \<and> resv_ok L v" using l [OF i(1)] i(2) by (simp add: lighter_def)
  qed
  have ch: "scope_sum L c (charge f) vs \<le> charged L c f" if "f \<in> set usage_fields" for c f
    unfolding scope_sum_def
    by (rule sum_list_mono2) (use l that assms(2) in \<open>simp_all add: case_prod_beta lighter_def\<close>)
  have act: "actives L c vs \<subseteq> actives L c (lg_Reservations L)" for c
  proof
    fix x assume "x \<in> actives L c vs"
    then obtain i where i: "i < length vs" "x = rs_RunID (snd (vs ! i))" "rs_Active (snd (vs ! i))" "inside L c x"
      by (auto simp: actives_def in_set_conv_nth)
    then have "x = rs_RunID (snd (lg_Reservations L ! i))" "rs_Active (snd (lg_Reservations L ! i))"
      using l [OF i(1)] by (simp_all add: lighter_def)
    moreover have "lg_Reservations L ! i \<in> set (lg_Reservations L)" using i(1) assms(2) by simp
    ultimately show "x \<in> actives L c (lg_Reservations L)" using i(4) unfolding actives_def
      by (metis (mono_tags, lifting) mem_Collect_eq prod.collapse)
  qed
  show ?thesis
    by (rule shrink_inv [OF inv R lim]) (use base_invD(2) [OF ledger_invD(1) [OF inv]] keys ok ch act vs fin in simp_all)
qed

lemma delete_inv:
  assumes inv: "ledger_inv L"
  shows "ledger_inv (L\<lparr>lg_Reservations := AList.delete k (lg_Reservations L)\<rparr>)"
proof -
  note base = ledger_invD(1) [OF inv]
  note d = base_invD(2) [OF base]
  have sub: "set (AList.delete k (lg_Reservations L)) \<subseteq> set (lg_Reservations L)" by (auto simp: AList.delete_eq)
  have ch: "scope_sum L c (charge f) (AList.delete k (lg_Reservations L)) \<le> charged L c f" if f: "f \<in> set usage_fields" for c f
  proof -
    have "0 \<le> charge f o'" if "map_of (lg_Reservations L) k = Some o'" for o'
      using map_of_SomeD [OF that] base_invD(3) [OF base] field_nonneg(3) [OF f] by blast
    then show ?thesis by (simp add: scope_sum_delete [OF d] del: map_of_eq_Some_iff split: option.split)
  qed
  show ?thesis
  proof (rule shrink_inv [OF inv])
    show "distinct (map fst (lg_Reservations (L\<lparr>lg_Reservations := AList.delete k (lg_Reservations L)\<rparr>)))"
      using d by (simp add: distinct_delete)
    show "\<forall>(k, v)\<in>set (lg_Reservations (L\<lparr>lg_Reservations := AList.delete k (lg_Reservations L)\<rparr>)). rs_ID v = k \<and> resv_ok L v"
      using base_inv_entries [OF base] sub by auto
    show "actives L c (lg_Reservations (L\<lparr>lg_Reservations := AList.delete k (lg_Reservations L)\<rparr>)) \<subseteq> actives L c (lg_Reservations L)" for c
      using sub by (auto simp: actives_def)
  qed (use ch in simp_all)
qed

text \<open>Storing an admitted reservation, or one without weight, keeps the invariant.\<close>

lemma admitted_inv:
  assumes inv: "ledger_inv L" and v: "rs_ID v = k \<and> resv_ok L v"
    and ch: "\<And>f. f \<in> set usage_fields \<Longrightarrow> charge f v \<le> f req" and act: "rs_Active v \<Longrightarrow> act"
    and adm: "\<And>c. inside L c (rs_RunID v) \<Longrightarrow> admitted L (rs_RunID v) req act c"
  shows "ledger_inv (L\<lparr>lg_Reservations := AList.update k v (lg_Reservations L)\<rparr>)" (is "ledger_inv ?L")
proof -
  note base = ledger_invD(1) [OF inv]
  note d = base_invD(2) [OF base]
  note frame = scope_sum_cong [of ?L L] actives_cong [of ?L L] scope_limits_cong [of ?L L] resv_ok_cong [of ?L L] runs_ok_cong [of ?L L]
  have sum: "scope_sum L c (charge f) (AList.update k v (lg_Reservations L)) \<le>
      charged L c f + (if inside L c (rs_RunID v) then f req else 0)" if f: "f \<in> set usage_fields" for c f
  proof -
    have "0 \<le> charge f o'" if "map_of (lg_Reservations L) k = Some o'" for o'
      using map_of_SomeD [OF that] base_invD(3) [OF base] field_nonneg(3) [OF f] by blast
    then show ?thesis using ch [OF f] by (auto simp: scope_sum_update simp del: map_of_eq_Some_iff split: option.split)
  qed
  have ok: "\<forall>(k, v)\<in>set (AList.update k v (lg_Reservations L)). rs_ID v = k \<and> resv_ok L v"
    by (rule resv_ok_update [OF d base_inv_entries [OF base] v])
  have "scope_sum L [] (charge f) (AList.update k v (lg_Reservations L)) \<le> max_s64" if "f \<in> set usage_fields" for f
    using sum [OF that, of "[]"] adm [of "[]"] that by (fastforce simp: admitted_def)
  then have "base_inv ?L" using d ok base_invD(1) [OF base] by (simp add: base_inv_def frame)
  moreover have "within ?L c" for c
  proof -
    note w = ledger_invD(2) [OF inv, of c, unfolded within_def]
    have un: "unfinished ?L c = unfinished L c" using inside_cong [of ?L L] by (simp add: unfinished_def)
    have 1: "scope_sum L c (charge f) (AList.update k v (lg_Reservations L)) \<le> g (scope_limits L c)"
      if gf: "(g, f) \<in> set limited_fields" "0 < g (scope_limits L c)" for g f
    proof (cases "inside L c (rs_RunID v)")
      case True
      then show ?thesis using sum [OF limited_fields_usage [OF gf(1)], of c] adm [OF True] gf by (fastforce simp: admitted_def)
    next
      case False
      then show ?thesis using sum [OF limited_fields_usage [OF gf(1)], of c] w gf by fastforce
    qed
    have 2: "int (card (actives L c (AList.update k v (lg_Reservations L)))) \<le> lm_MaxConcurrentRuns (scope_limits L c)"
      if m: "0 < lm_MaxConcurrentRuns (scope_limits L c)"
    proof -
      let ?A = "actives L c (lg_Reservations L)"
      have sub: "actives L c (AList.update k v (lg_Reservations L)) \<subseteq>
          ?A \<union> (if rs_Active v \<and> inside L c (rs_RunID v) then {rs_RunID v} else {})" by (rule actives_update [OF d])
      show ?thesis
      proof (cases "rs_Active v \<and> inside L c (rs_RunID v) \<and> rs_RunID v \<notin> ?A")
        case True
        then have "int (card ?A) < lm_MaxConcurrentRuns (scope_limits L c)"
          using adm [of c] act m by (auto simp: admitted_def)
        moreover have "card (actives L c (AList.update k v (lg_Reservations L))) \<le> card (insert (rs_RunID v) ?A)"
          using sub True by (intro card_mono) auto
        ultimately show ?thesis using True by simp
      next
        case False
        then have "actives L c (AList.update k v (lg_Reservations L)) \<subseteq> ?A" using sub by (auto split: if_splits)
        then have "card (actives L c (AList.update k v (lg_Reservations L))) \<le> card ?A" by (intro card_mono) simp_all
        then show ?thesis using w m by linarith
      qed
    qed
    show ?thesis unfolding within_def using w 1 2 by (auto simp: frame un)
  qed
  ultimately show ?thesis by (simp add: ledger_inv_def)
qed

lemma weightless_inv:
  assumes inv: "ledger_inv L" and k: "map_of (lg_Reservations L) k = None" and v: "rs_ID v = k \<and> resv_ok L v"
    and ch: "\<And>f. f \<in> set usage_fields \<Longrightarrow> charge f v \<le> 0" and act: "\<not> rs_Active v"
  shows "ledger_inv (L\<lparr>lg_Reservations := AList.update k v (lg_Reservations L)\<rparr>)"
proof -
  note base = ledger_invD(1) [OF inv]
  note d = base_invD(2) [OF base]
  show ?thesis
  proof (rule shrink_inv [OF inv])
    show "scope_sum L c (charge f) (lg_Reservations (L\<lparr>lg_Reservations := AList.update k v (lg_Reservations L)\<rparr>)) \<le> charged L c f"
      if "f \<in> set usage_fields" for c f using ch [OF that] by (simp add: scope_sum_update k)
    show "actives L c (lg_Reservations (L\<lparr>lg_Reservations := AList.update k v (lg_Reservations L)\<rparr>)) \<subseteq> actives L c (lg_Reservations L)" for c
      using actives_update [OF d, of L c k v] act by simp
  qed (use d resv_ok_update [OF d base_inv_entries [OF base] v] in simp_all)
qed

end
