(* ===== verification/Ledger_Invariant.thy ===== *)
theory Ledger_Invariant
  imports Ledger_Facts
begin

text \<open>
  Every operation of the coordinator returns and keeps the ledger invariant. An operation is
  \<open>honest\<close> if a settlement charges at most what its reservation holds; nothing else is assumed of the
  callers.
\<close>

subsection \<open>Changes of one reservation\<close>

lemma changeReservation_inv:
  assumes inv: "ledger_inv L" and call: "changeReservation k f L = Some (Inr L')"
    and l: "\<And>v v'. map_of (lg_Reservations L) k = Some v \<Longrightarrow> resv_ok L v \<Longrightarrow> f v = Inr v' \<Longrightarrow> lighter L v' v"
  shows "ledger_inv L'"
proof -
  from call obtain v v' where v: "map_of (lg_Reservations L) k = Some v" "f v = Inr v'"
    "L' = L\<lparr>lg_Reservations := AList.update k v' (lg_Reservations L)\<rparr>"
    by (auto simp: changeReservation_def simp del: map_of_eq_Some_iff split: option.splits sum.splits)
  have "resv_ok L v" using map_of_SomeD [OF v(1)] base_invD(3) [OF ledger_invD(1) [OF inv]] by blast
  then show ?thesis unfolding v(3) by (intro lighter_update [OF inv v(1)] l [OF v(1) _ v(2)])
qed

lemma weightless: "rs_Status v \<noteq> ReservationSettled \<Longrightarrow> rs_Status v \<noteq> ReservationHeld \<Longrightarrow> charge f v = 0"
  by (simp add: charge_def used_def held_def)

lemma weightless_lighter:
  assumes "resv_ok L v" and "rs_ID w = rs_ID v" and "rs_RunID w = rs_RunID v" and "rs_Status w \<noteq> ReservationSettled" and "rs_Status w \<noteq> ReservationHeld"
    and "\<not> rs_Active w"
  shows "lighter L w v"
  using assms field_nonneg(3) [OF _ assms(1)] by (simp add: lighter_def weightless resv_ok_def)

lemma released_lighter: "resv_ok L v \<Longrightarrow> lighter L (v\<lparr>rs_Status := ReservationReleased, rs_Active := False\<rparr>) v"
  by (erule weightless_lighter) simp_all

lemma refund_lighter: "resv_ok L v \<Longrightarrow> lighter L (refund v) v"
  using released_lighter by (auto simp: refund_def lighter_def)

lemma settled_lighter:
  assumes "resv_ok L v" and "rs_Status v = ReservationHeld" and "ValidUsage u" and "\<And>f. f \<in> set usage_fields \<Longrightarrow> f u \<le> f (rs_Requested v)"
  shows "lighter L (v\<lparr>rs_Status := ReservationSettled, rs_Active := False, rs_Usage := u, rs_Receipt := r\<rparr>) v"
proof -
  have "usage_fits (rs_Requested v)" using assms(1,2) by (simp add: resv_ok_def)
  then have "usage_fits u" using assms(3,4) usage_fitsD(2) order_trans unfolding usage_fits_def by blast
  then show ?thesis using assms by (auto simp: lighter_def resv_ok_def charge_def used_def held_def)
qed

lemma dispatch_inv: "ledger_inv L \<Longrightarrow> dispatch_change k L = Some (Inr L') \<Longrightarrow> ledger_inv L'"
  unfolding dispatch_change_def
  by (erule changeReservation_inv) (auto simp: lighter_def resv_ok_def charge_def used_def held_def split: if_splits)

lemma suspend_inv: "ledger_inv L \<Longrightarrow> suspend_change k L = Some (Inr L') \<Longrightarrow> ledger_inv L'"
  unfolding suspend_change_def
  by (erule changeReservation_inv) (auto simp: lighter_def resv_ok_def charge_def used_def held_def)

lemma release_inv: "ledger_inv L \<Longrightarrow> release_change k L = Some (Inr L') \<Longrightarrow> ledger_inv L'"
  unfolding release_change_def
  by (erule changeReservation_inv) (auto intro: released_lighter split: if_splits)

lemma settle_inv:
  assumes "ledger_inv L" and "settle_change k u r L = Some (Inr L')" and "ValidUsage u"
    and "\<And>v f. map_of (lg_Reservations L) k = Some v \<Longrightarrow> rs_Status v = ReservationHeld \<Longrightarrow> f \<in> set usage_fields \<Longrightarrow> f u \<le> f (rs_Requested v)"
  shows "ledger_inv L'"
  using assms(1,2) unfolding settle_change_def
proof (rule changeReservation_inv)
  fix v v'
  assume v: "map_of (lg_Reservations L) k = Some v" "resv_ok L v"
    and f: "(if rs_Status v = ReservationSettled then if rs_Usage v \<noteq> u \<or> rs_Receipt v \<noteq> r then Inl ErrLedgerConflict else Inr v
       else if rs_Status v \<noteq> ReservationHeld then Inl ErrLedgerConflict
       else Inr (v\<lparr>rs_Status := ReservationSettled, rs_Active := False, rs_Usage := u, rs_Receipt := r\<rparr>)) = Inr v'"
  show "lighter L v' v"
  proof (cases "rs_Status v = ReservationHeld")
    case True
    then have "v' = v\<lparr>rs_Status := ReservationSettled, rs_Active := False, rs_Usage := u, rs_Receipt := r\<rparr>" using f by simp
    then show ?thesis using settled_lighter [OF v(2) True assms(3)] assms(4) [OF v(1) True] by simp
  next
    case False
    then have "v' = v" using f by (auto split: if_splits)
    then show ?thesis using v(2) by (simp add: lighter_def)
  qed
qed

lemma requeue_inv:
  assumes inv: "ledger_inv L" and "requeue_change k n L = Some (Inr L')"
  shows "ledger_inv L'"
proof -
  from assms(2) obtain v where v: "map_of (lg_Reservations L) k = Some v"
    "L' = L\<lparr>lg_Reservations := AList.update k (v\<lparr>rs_Status := ReservationWaiting, rs_Active := False, rs_Dispatched := False,
       rs_Dimension := DimensionNone\<rparr>) (lg_Reservations L)\<rparr>"
    by (auto simp: requeue_change_def simp del: map_of_eq_Some_iff split: option.splits if_splits)
  have ok: "resv_ok L v" using map_of_SomeD [OF v(1)] base_invD(3) [OF ledger_invD(1) [OF inv]] by blast
  have "lighter L (v\<lparr>rs_Status := ReservationWaiting, rs_Active := False, rs_Dispatched := False, rs_Dimension := DimensionNone\<rparr>) v"
    by (rule weightless_lighter [OF ok]) simp_all
  then show ?thesis unfolding v(2) by (rule lighter_update [OF inv v(1)])
qed

subsection \<open>Cancellation\<close>

lemma cancel_inv:
  assumes inv: "ledger_inv L" and "cancel_change L = Some (Inr L')"
  shows "ledger_inv L'"
proof -
  have ok: "resv_ok L (snd (lg_Reservations L ! i))" if "i < length (lg_Reservations L)" for i
    using base_invD(3) [OF ledger_invD(1) [OF inv]] nth_mem [OF that] by (metis (mono_tags, lifting) case_prod_beta')
  show ?thesis using assms(2)
    by (intro lighter_map [OF inv, where vs = "map (\<lambda>(k, v). (k, refund v)) (lg_Reservations L)"])
       (auto simp: cancel_change_def case_prod_beta intro!: refund_lighter ok)
qed

lemma refund_subtree_eq:
  assumes "runs_ok L"
  shows "refund_subtree L r vs = Some (map (\<lambda>(k, v). (k, if inside L r (rs_RunID v) then refund v else v)) vs)"
  by (induction vs) (auto simp: contains_eq [OF assms])

lemma cancel_run_inv:
  assumes inv: "ledger_inv L"
  shows "\<exists>L'. cancel_run_change r L = Some (Inr L') \<and> ledger_inv L'"
proof -
  let ?L = "L\<lparr>lg_CancelledRuns := List.insert r (lg_CancelledRuns L)\<rparr>"
  let ?vs = "map (\<lambda>(k, v). (k, if inside ?L r (rs_RunID v) then refund v else v)) (lg_Reservations L)"
  have ro: "runs_ok ?L" using base_invD(1) [OF ledger_invD(1) [OF inv]] runs_ok_cong [of ?L L] by simp
  have call: "cancel_run_change r L = Some (Inr (?L\<lparr>lg_Reservations := ?vs\<rparr>))"
    by (simp add: cancel_run_change_def refund_subtree_eq [OF ro] Let_def)
  have ok: "resv_ok L (snd (lg_Reservations L ! i))" if "i < length (lg_Reservations L)" for i
    using base_invD(3) [OF ledger_invD(1) [OF inv]] nth_mem [OF that] by (metis (mono_tags, lifting) case_prod_beta')
  have "lighter L v v" if "resv_ok L v" for v using that by (simp add: lighter_def)
  then have "ledger_inv (?L\<lparr>lg_Reservations := ?vs\<rparr>)"
    by (intro lighter_map [OF inv, where vs = ?vs]) (auto simp: case_prod_beta intro!: refund_lighter ok)
  then show ?thesis using call by blast
qed

lemma finish_inv:
  assumes inv: "ledger_inv L" and "finish_change ids L = Some (Inr L')"
  shows "ledger_inv L'"
proof -
  note base = ledger_invD(1) [OF inv]
  have "set (fold List.insert ids xs) = set ids \<union> set xs" for xs :: "string list"
    by (induction ids arbitrary: xs) auto
  then show ?thesis using assms(2) base_invD(2) [OF base] base_inv_entries [OF base]
    by (intro shrink_inv [OF inv]) (auto simp: finish_change_def split: if_splits)
qed

subsection \<open>Reservation\<close>

lemma delete_fresh [simp]: "map_of (AList.delete k vs) k = None"
  by (simp add: AList.delete_conv')

lemma reserve_inv:
  assumes inv: "ledger_inv L"
  shows "\<exists>c' r. reserve_change act c L = Some (c', r) \<and> (\<forall>L'. r = Inr L' \<longrightarrow> ledger_inv L')"
proof -
  define request where "request = fst c"
  define found where "found = map_of (lg_Reservations L) (rs_ID request)"
  define req where "req = (case found of None \<Rightarrow> request | Some ex \<Rightarrow> ex)"
  define k where "k = rs_ID req"
  define L1 where "L1 = L\<lparr>lg_Reservations := AList.delete k (lg_Reservations L)\<rparr>"
  define store where "store = (\<lambda>v. L1\<lparr>lg_Reservations := AList.update k v (lg_Reservations L1)\<rparr>)"
  note base = ledger_invD(1) [OF inv]
  have inv1: "ledger_inv L1" unfolding L1_def by (rule delete_inv [OF inv])
  have fresh: "map_of (lg_Reservations L1) k = None" by (simp add: L1_def)
  have ok1: "resv_ok L1 = resv_ok L" by (rule resv_ok_cong) (simp add: L1_def)
  obtain stopped where st: "cancelled L (rs_RunID req) = Some stopped" using cancelled_total [OF base_invD(1) [OF base]] by blast
  obtain denied where d: "admit L1 (rs_RunID req) (rs_Requested req) act = Some denied"
    "denied = None \<longrightarrow> (\<forall>c. inside L1 c (rs_RunID req) \<longrightarrow> admitted L1 (rs_RunID req) (rs_Requested req) act c)"
    using admit_eq [OF ledger_invD(1) [OF inv1]] by blast
  have held_inv: "ledger_inv (store (req\<lparr>rs_Status := ReservationHeld, rs_Active := act, rs_Dimension := DimensionNone\<rparr>))"
    if "denied = None" "registered L (rs_RunID req)"
  proof -
    have adm: "admitted L1 (rs_RunID req) (rs_Requested req) act c" if "inside L1 c (rs_RunID req)" for c
      using d(2) \<open>denied = None\<close> that by blast
    show ?thesis unfolding store_def
      by (rule admitted_inv [OF inv1, where req = "rs_Requested req" and act = act])
        (use adm [of "[]"] adm that in \<open>auto simp: ok1 resv_ok_def charge_def used_def held_def admitted_def k_def\<close>)
  qed
  have wait_inv: "ledger_inv (store (req\<lparr>rs_Status := ReservationWaiting, rs_Active := False, rs_Dimension := e\<rparr>))"
    if "registered L (rs_RunID req)" for e
    unfolding store_def using that
    by (intro weightless_inv [OF inv1 fresh]) (simp_all add: ok1 resv_ok_def weightless k_def)
  have keep_inv: "ledger_inv (store req)" if f: "found = Some req"
  proof -
    have "(rs_ID request, req) \<in> set (lg_Reservations L)" using f unfolding found_def by (rule map_of_SomeD)
    then have m: "map_of (lg_Reservations L) k = Some req"
      using f base_invD(5) [OF base] unfolding found_def k_def by metis
    have entry: "rs_ID req = k \<and> resv_ok L req"
      using base_inv_entries [OF base] map_of_SomeD [OF m] by blast
    note dist = base_invD(2) [OF base]
    have sub: "set (AList.update k req (AList.delete k (lg_Reservations L))) \<subseteq> set (lg_Reservations L)"
      using map_of_SomeD [OF m] in_update [of _ _ k req "AList.delete k (lg_Reservations L)"] distinct_delete [OF dist]
      by (auto simp: AList.delete_eq)
    show ?thesis
    proof (rule shrink_inv [OF inv])
      show "scope_sum L c (charge f) (lg_Reservations (store req)) \<le> charged L c f" for c f
        by (simp add: store_def L1_def scope_sum_update scope_sum_delete [OF dist] m del: map_of_eq_Some_iff)
      show "actives L c (lg_Reservations (store req)) \<subseteq> actives L c (lg_Reservations L)" for c
        using sub by (auto simp: store_def L1_def actives_def)
    qed (use dist entry base_inv_entries [OF base] sub in \<open>auto simp: store_def L1_def distinct_delete\<close>)
  qed
  have reg: "registered L (rs_RunID req)" if "map_of (lg_Runs L) (rs_RunID request) \<noteq> None"
    "found \<noteq> None \<Longrightarrow> rs_RunID (the found) = rs_RunID request"
    using that by (cases found) (auto simp: req_def registered_def)
  have call: "reserve_change act c L =
     (if map_of (lg_Runs L) (rs_RunID request) = None then Some ((request, None), Inl ErrLedgerConflict)
      else if (case found of None \<Rightarrow> False | Some ex \<Rightarrow>
                 rs_RunID ex \<noteq> rs_RunID request \<or> rs_RequestHash ex \<noteq> rs_RequestHash request)
      then Some ((request, None), Inl ErrLedgerConflict)
      else if (case found of None \<Rightarrow> False | Some ex \<Rightarrow> rs_Status ex = ReservationSettled) then Some ((request, None), Inr L)
      else if (case found of None \<Rightarrow> False | Some ex \<Rightarrow> rs_Status ex = ReservationReleased)
      then Some ((request, None), Inl ErrLedgerConflict)
      else if stopped then Some ((req, None), Inl ErrExhausted)
      else case denied of
         None \<Rightarrow> let h = req\<lparr>rs_Status := ReservationHeld, rs_Active := act, rs_Dimension := DimensionNone\<rparr>
            in Some ((h, None), Inr (store h))
       | Some (dimension, e) \<Rightarrow>
           if (case found of None \<Rightarrow> False | Some ex \<Rightarrow> rs_Status ex = ReservationHeld) then Some ((req, Some e), Inr (store req))
           else if \<not> is_error ErrWaiting e then Some ((req, None), Inl e)
           else let w = req\<lparr>rs_Status := ReservationWaiting, rs_Active := False, rs_Dimension := dimension\<rparr>
                in Some ((w, Some e), Inr (store w)))"
    using st d(1) unfolding reserve_change_def Let_def request_def [symmetric] found_def [symmetric] req_def [symmetric]
      k_def [symmetric] L1_def [symmetric] store_def by simp
  show ?thesis
  proof (cases "map_of (lg_Runs L) (rs_RunID request) = None \<or>
      (found \<noteq> None \<and> (rs_RunID (the found) \<noteq> rs_RunID request \<or> rs_RequestHash (the found) \<noteq> rs_RequestHash request))")
    case True
    then show ?thesis unfolding call by (auto split: option.splits)
  next
    case False
    then have r: "registered L (rs_RunID req)" using reg by blast
    show ?thesis unfolding call Let_def using inv held_inv [OF _ r] wait_inv [OF r] keep_inv
      by (cases found; cases denied) (auto simp: req_def)
  qed
qed

subsection \<open>Registration\<close>

lemma child_charge_fits [simp]: "usage_fits child_charge"
  by (simp add: usage_fits_def ValidUsage_iff usage_fields_def child_charge_def zero_usage_def max_s64_def)

text \<open>A new run below \<open>parent\<close>: the charges of the other scopes are those of the reservations, the new
  scope is empty.\<close>

lemma register_scopes:
  assumes inv: "ledger_inv L" and new: "\<not> registered L run" "run \<noteq> []" "run \<noteq> rb_ParentRunID b"
    and par: "rb_ParentRunID b = [] \<or> registered L (rb_ParentRunID b)"
    and R: "lg_Runs L' = AList.update run b (lg_Runs L)" and lim: "lg_Limits L' = lg_Limits L"
    and fin: "lg_FinishedRuns L' = lg_FinishedRuns L" and vs: "\<forall>(k, v)\<in>set vs. registered L (rs_RunID v)"
  shows "c \<noteq> run \<Longrightarrow> scope_sum L' c w vs = scope_sum L c w vs" and "scope_sum L' run w vs = 0"
    and "c \<noteq> run \<Longrightarrow> actives L' c vs = actives L c vs" and "actives L' run vs = {}"
    and "c \<noteq> run \<Longrightarrow> scope_limits L' c = scope_limits L c"
    and "unfinished L' run = {}"
    and "c \<noteq> run \<Longrightarrow> unfinished L' c \<subseteq> unfinished L c \<union>
       (if rb_ParentRunID b \<noteq> [] \<and> inside L c (rb_ParentRunID b) then {run} else {})"
proof -
  note ro = base_invD(1) [OF ledger_invD(1) [OF inv]]
  note reg = register_runs_ok [OF ro new par R]
  have other: "rs_RunID v \<noteq> run" if "(k, v) \<in> set vs" for k v using vs that new(1) by auto
  have not_under: "\<not> inside L' run r" if "r \<noteq> run" for r
  proof -
    obtain p where "is_path L r p" using runs_okD(4) [OF ro] by blast
    then show ?thesis using reg(2) [OF that] fresh_not_in_path [OF ro new(1) _ that] inside_path new(2) by metis
  qed
  have in_vs: "inside L' c (rs_RunID v) = inside L c (rs_RunID v)" if "(k, v) \<in> set vs" for c k v
    by (rule reg(2) [OF other [OF that]])
  show "scope_sum L' c w vs = scope_sum L c w vs"
    unfolding scope_sum_def using in_vs by (intro arg_cong [where f = sum_list] map_cong) auto
  have "(case kv of (k, v) \<Rightarrow> if inside L' run (rs_RunID v) then w v else 0) = 0" if "kv \<in> set vs" for kv
    using that other not_under by - (cases kv, auto)
  then show "scope_sum L' run w vs = 0" unfolding scope_sum_def by (metis (no_types, lifting) map_cong sum_list_0)
  show "actives L' c vs = actives L c vs" using in_vs by (fastforce simp: actives_def)
  show "actives L' run vs = {}" using other not_under by (auto simp: actives_def)
  show "scope_limits L' c = scope_limits L c" if "c \<noteq> run"
    using that lim by (simp add: scope_limits_def register_run_of [OF R])
  show "unfinished L' run = {}" using not_under by (auto simp: unfinished_def)
  show "unfinished L' c \<subseteq> unfinished L c \<union>
       (if rb_ParentRunID b \<noteq> [] \<and> inside L c (rb_ParentRunID b) then {run} else {})" if "c \<noteq> run"
  proof
    fix k assume "k \<in> unfinished L' c"
    then obtain x where x: "(k, x) \<in> set (AList.update run b (lg_Runs L))" "rb_ParentRunID x \<noteq> []" "k \<noteq> c"
      "k \<notin> set (lg_FinishedRuns L)" "inside L' c k" by (auto simp: unfinished_def R fin)
    show "k \<in> unfinished L c \<union> (if rb_ParentRunID b \<noteq> [] \<and> inside L c (rb_ParentRunID b) then {run} else {})"
    proof (cases "k = run")
      case True
      then have "x = b" using in_update [OF x(1) runs_okD(1) [OF ro]] by simp
      then show ?thesis using True x reg(3) that by auto
    next
      case False
      then have "(k, x) \<in> set (lg_Runs L)" using in_update [OF x(1) runs_okD(1) [OF ro]] by simp
      then show ?thesis using x reg(2) [OF False] by (auto simp: unfinished_def)
    qed
  qed
qed

lemma registered_inv:
  assumes inv: "ledger_inv L" and new: "\<not> registered L run" "run \<noteq> []" "run \<noteq> rb_ParentRunID b"
    and par: "rb_ParentRunID b = [] \<or> registered L (rb_ParentRunID b)"
    and room: "\<And>c. rb_ParentRunID b \<noteq> [] \<Longrightarrow> inside L c (rb_ParentRunID b) \<Longrightarrow>
      0 < lm_MaxConcurrentDescendants (scope_limits L c) \<Longrightarrow>
      int (card (unfinished L c)) < lm_MaxConcurrentDescendants (scope_limits L c)"
  shows "ledger_inv (L\<lparr>lg_Runs := AList.update run b (lg_Runs L)\<rparr>)" (is "ledger_inv ?L")
proof -
  note base = ledger_invD(1) [OF inv]
  note ro = base_invD(1) [OF base]
  have regs: "\<forall>(k, v)\<in>set (lg_Reservations L). registered L (rs_RunID v)" using base_invD(3) [OF base] by (auto simp: resv_ok_def)
  have R: "lg_Runs ?L = AList.update run b (lg_Runs L)" by simp
  note sc = register_scopes [OF inv new par R _ _ regs, simplified]
  have "resv_ok ?L v" if "resv_ok L v" for v using that register_run_of(2) [OF R] by (auto simp: resv_ok_def)
  then have "\<forall>(k, v)\<in>set (lg_Reservations ?L). rs_ID v = k \<and> resv_ok ?L v"
    using base_inv_entries [OF base] by auto
  moreover have "charged ?L [] f \<le> max_s64" if "f \<in> set usage_fields" for f
    using sc(1) [of "[]"] base_invD(4) [OF base that] new(2) by simp
  ultimately have "base_inv ?L"
    using register_runs_ok(1) [OF ro new par R] base_invD(2) [OF base] by (simp add: base_inv_def)
  moreover have "within ?L c" for c
  proof (cases "c = run")
    case True
    then show ?thesis using sc(2,4,6) by (auto simp: within_def)
  next
    case False
    note w = ledger_invD(2) [OF inv, of c, unfolded within_def]
    have "int (card (unfinished ?L c)) \<le> lm_MaxConcurrentDescendants (scope_limits L c)"
      if m: "0 < lm_MaxConcurrentDescendants (scope_limits L c)"
    proof (cases "rb_ParentRunID b \<noteq> [] \<and> inside L c (rb_ParentRunID b)")
      case True
      then have "card (unfinished ?L c) \<le> card (insert run (unfinished L c))"
        using sc(7) [OF False] by (intro card_mono) auto
      then have "card (unfinished ?L c) \<le> Suc (card (unfinished L c))" using card_insert_le_m1 by (metis card_insert_if finite_unfinished le_SucI)
      then show ?thesis using room [of c] True m by linarith
    next
      case not: False
      then have "card (unfinished ?L c) \<le> card (unfinished L c)" using sc(7) [OF False] by (intro card_mono) auto
      then show ?thesis using w m by linarith
    qed
    then show ?thesis using w False unfolding within_def by (simp add: sc(1,3,5))
  qed
  ultimately show ?thesis by (simp add: ledger_inv_def)
qed

lemma register_inv:
  assumes inv: "ledger_inv L" and pre: "run \<noteq> []" "run \<noteq> rb_ParentRunID b"
  shows "\<exists>r. register_change run b L = Some r \<and> (\<forall>L'. r = Inr L' \<longrightarrow> ledger_inv L')"
proof (cases "registered L run")
  case True
  then show ?thesis using inv by (auto simp: register_change_def registered_def simp del: map_of_eq_Some_iff)
next
  case new: False
  note base = ledger_invD(1) [OF inv]
  note ro = base_invD(1) [OF base]
  let ?p = "rb_ParentRunID b"
  obtain c1 where c1: "cancelled L run = Some c1" using cancelled_total [OF ro] by blast
  obtain c2 where c2: "cancelled L ?p = Some c2" using cancelled_total [OF ro] by blast
  show ?thesis
  proof (cases "?p = []")
    case True
    then show ?thesis using registered_inv [OF inv new pre] new c1 c2 by (auto simp: register_change_def registered_def Let_def)
  next
    case False
    obtain p where p: "is_path L ?p p" using runs_okD(4) [OF ro] by blast
    obtain w where w: "descendants_loop L ?p = Some w" "w = None \<longrightarrow> (\<forall>c\<in>insert [] (set p).
        0 < lm_MaxConcurrentDescendants (scope_limits L c) \<longrightarrow> int (card (unfinished L c)) < lm_MaxConcurrentDescendants (scope_limits L c))"
      using descendants_loop_eq [OF base p] by blast
    obtain d where d: "admit L ?p child_charge False = Some d"
      "d = None \<longrightarrow> (\<forall>c. inside L c ?p \<longrightarrow> admitted L ?p child_charge False c)" using admit_eq [OF base] by blast
    let ?k = "''child:'' @ run"
    let ?L1 = "L\<lparr>lg_Reservations := AList.update ?k (child_reservation run ?p) (lg_Reservations L)\<rparr>"
    let ?L2 = "?L1\<lparr>lg_Runs := AList.update run b (lg_Runs ?L1)\<rparr>"
    have goal: "ledger_inv ?L2" if ok: "w = None" "d = None" "registered L ?p"
    proof -
      have inv1: "ledger_inv ?L1"
        by (rule admitted_inv [OF inv, where req = child_charge and act = False])
           (use ok d(2) in \<open>auto simp: child_reservation_def resv_ok_def charge_def used_def held_def\<close>)
      have frame: "unfinished ?L1 = unfinished L" "scope_limits ?L1 = scope_limits L" "inside ?L1 = inside L"
        using inside_cong [of ?L1 L] scope_limits_cong [of ?L1 L] by (simp_all add: unfinished_def fun_eq_iff)
      show ?thesis
      proof (rule registered_inv [OF inv1 _ pre])
        show "int (card (unfinished ?L1 c)) < lm_MaxConcurrentDescendants (scope_limits ?L1 c)"
          if "inside ?L1 c ?p" "0 < lm_MaxConcurrentDescendants (scope_limits ?L1 c)" for c
          using that w(2) ok(1) inside_path [OF p] unfolding frame by blast
      qed (use new ok(3) in \<open>simp_all add: registered_def\<close>)
    qed
    have eq: "?L2 = L\<lparr>lg_Runs := AList.update run b (lg_Runs L),
        lg_Reservations := AList.update ?k (child_reservation run ?p) (lg_Reservations L)\<rparr>"
      by simp
    show ?thesis using new c1 c2 w(1) d(1) False goal [unfolded eq]
      by (cases w; cases d) (auto simp: register_change_def registered_def Let_def simp del: map_of_eq_Some_iff)
  qed
qed

subsection \<open>Settlement with receipts\<close>

abbreviation related_sum :: "(Usage \<Rightarrow> int) \<Rightarrow> Reservation list \<Rightarrow> int" where
  "related_sum f related \<equiv> (\<Sum>nx\<leftarrow>related. f (rs_Requested nx))"

lemma related_loop_valid:
  "related_loop run seen related vs = Inr vs' \<Longrightarrow> nx \<in> set related \<Longrightarrow> ValidUsage (rs_Requested nx)"
  by (induction run seen related vs rule: related_loop.induct)
     (auto simp: Let_def related_ok_def split: if_splits option.splits)

definition resvs_ok :: "Ledger \<Rightarrow> (string \<times> Reservation) list \<Rightarrow> bool" where
  "resvs_ok L vs \<longleftrightarrow> distinct (map fst vs) \<and> (\<forall>(k, v)\<in>set vs. rs_ID v = k \<and> resv_ok L v)"

lemma store_related:
  assumes ok: "resvs_ok L vs" and nx: "related_ok run seen nx" "usage_fits (rs_Requested nx)" "registered L run"
    and prev: "\<And>v. map_of vs (rs_ID nx) = Some v \<Longrightarrow> rs_RunID v = run \<and> rs_Requested v = rs_Requested nx \<and> rs_Status v = ReservationHeld"
  shows "resvs_ok L (AList.update (rs_ID nx) nx vs)"
    and "f \<in> set usage_fields \<Longrightarrow> scope_sum L c (charge f) (AList.update (rs_ID nx) nx vs) \<le>
       scope_sum L c (charge f) vs + (if inside L c run then f (rs_Requested nx) else 0)"
    and "actives L c (AList.update (rs_ID nx) nx vs) \<subseteq> actives L c vs"
proof -
  have rok: "resv_ok L nx" using nx by (auto simp: related_ok_def resv_ok_def)
  have d: "distinct (map fst vs)" and e: "\<forall>(k, v)\<in>set vs. rs_ID v = k \<and> resv_ok L v" using ok by (simp_all add: resvs_ok_def)
  show "resvs_ok L (AList.update (rs_ID nx) nx vs)"
    unfolding resvs_ok_def using resv_ok_update [OF d e, of nx "rs_ID nx"] rok d by simp
  show "scope_sum L c (charge f) (AList.update (rs_ID nx) nx vs) \<le>
       scope_sum L c (charge f) vs + (if inside L c run then f (rs_Requested nx) else 0)" if f: "f \<in> set usage_fields"
  proof -
    have nn: "0 \<le> f (rs_Requested nx)" using usage_fitsD(1) [OF nx(2)] f by (rule ValidUsage_nonneg)
    have z: "rs_Usage nx = zero_usage" "rs_RunID nx = run" using nx(1) by (auto simp: related_ok_def)
    have "charge f nx \<le> f (rs_Requested nx)" using nn f z by (simp add: charge_def used_def held_def)
    moreover have "0 \<le> charge f v" if "map_of vs (rs_ID nx) = Some v" for v
      using map_of_SomeD [OF that] e field_nonneg(3) [OF f] by blast
    ultimately show ?thesis using z by (auto simp: scope_sum_update simp del: map_of_eq_Some_iff split: option.split)
  qed
  show "actives L c (AList.update (rs_ID nx) nx vs) \<subseteq> actives L c vs"
    using actives_update [OF d, of L c "rs_ID nx" nx] nx(1) by (simp add: related_ok_def)
qed

definition related_effect :: "Ledger \<Rightarrow> string \<Rightarrow> string list \<Rightarrow> Reservation list \<Rightarrow> (string \<times> Reservation) list \<Rightarrow>
  (string \<times> Reservation) list \<Rightarrow> bool" where
  "related_effect L run seen related vs vs' \<longleftrightarrow> resvs_ok L vs' \<and> (\<forall>x\<in>set seen. map_of vs' x = map_of vs x) \<and>
    (\<forall>c. \<forall>f\<in>set usage_fields. scope_sum L c (charge f) vs' \<le>
       scope_sum L c (charge f) vs + (if inside L c run then related_sum f related else 0)) \<and>
    (\<forall>c. actives L c vs' \<subseteq> actives L c vs)"

lemma related_loop_inv:
  assumes "related_loop run seen related vs = Inr vs'" and "resvs_ok L vs" and "registered L run"
    and "\<forall>nx\<in>set related. usage_fits (rs_Requested nx)"
  shows "related_effect L run seen related vs vs'"
  using assms
proof (induction related arbitrary: seen vs)
  case Nil
  then show ?case by (simp add: related_effect_def)
next
  case (Cons nx related)
  have nx: "related_ok run seen nx" "usage_fits (rs_Requested nx)" using Cons.prems(1,4) by (auto split: if_splits)
  have run: "rs_RunID nx = run" "rs_ID nx \<notin> set seen" using nx(1) by (auto simp: related_ok_def)
  define seen' where "seen' = rs_ID nx # seen"
  have fits: "\<forall>nx\<in>set related. usage_fits (rs_Requested nx)" using Cons.prems(4) by simp
  have split: "related_loop run seen' related vs = Inr vs' \<or>
      ((\<forall>v. map_of vs (rs_ID nx) = Some v \<longrightarrow> rs_RunID v = run \<and> rs_Requested v = rs_Requested nx \<and> rs_Status v = ReservationHeld) \<and>
       related_loop run seen' related (AList.update (rs_ID nx) nx vs) = Inr vs')"
    using Cons.prems(1) nx(1) run unfolding seen'_def
    by (auto simp: Let_def simp del: map_of_eq_Some_iff split: option.splits if_splits)
  then show ?case
  proof
    assume "related_loop run seen' related vs = Inr vs'"
    from Cons.IH [OF this Cons.prems(2,3) fits] have "related_effect L run seen' related vs vs'" .
    then have eff: "resvs_ok L vs'" "\<forall>x\<in>set seen. map_of vs' x = map_of vs x" "\<forall>c. actives L c vs' \<subseteq> actives L c vs"
      "\<And>c f. f \<in> set usage_fields \<Longrightarrow> scope_sum L c (charge f) vs' \<le>
         scope_sum L c (charge f) vs + (if inside L c run then related_sum f related else 0)"
      unfolding related_effect_def seen'_def by auto
    have "scope_sum L c (charge f) vs' \<le> scope_sum L c (charge f) vs + (if inside L c run then related_sum f (nx # related) else 0)"
      if "f \<in> set usage_fields" for c f
      using eff(4) [OF that, of c] ValidUsage_nonneg [OF usage_fitsD(1) [OF nx(2)] that] by (auto split: if_splits)
    then show ?thesis unfolding related_effect_def using eff(1-3) by blast
  next
    assume *: "(\<forall>v. map_of vs (rs_ID nx) = Some v \<longrightarrow> rs_RunID v = run \<and> rs_Requested v = rs_Requested nx \<and> rs_Status v = ReservationHeld) \<and>
       related_loop run seen' related (AList.update (rs_ID nx) nx vs) = Inr vs'"
    note st = store_related [OF Cons.prems(2) nx Cons.prems(3)]
    have prev: "rs_RunID v = run \<and> rs_Requested v = rs_Requested nx \<and> rs_Status v = ReservationHeld"
      if "map_of vs (rs_ID nx) = Some v" for v using * that by blast
    have "related_effect L run seen' related (AList.update (rs_ID nx) nx vs) vs'"
      using Cons.IH [OF conjunct2 [OF *] st(1) [OF prev] Cons.prems(3) fits] .
    then have eff: "resvs_ok L vs'" "\<forall>x\<in>set seen. map_of vs' x = map_of (AList.update (rs_ID nx) nx vs) x"
      "\<And>c. actives L c vs' \<subseteq> actives L c (AList.update (rs_ID nx) nx vs)"
      "\<And>c f. f \<in> set usage_fields \<Longrightarrow> scope_sum L c (charge f) vs' \<le>
         scope_sum L c (charge f) (AList.update (rs_ID nx) nx vs) + (if inside L c run then related_sum f related else 0)"
      unfolding related_effect_def seen'_def by auto
    have "scope_sum L c (charge f) vs' \<le> scope_sum L c (charge f) vs + (if inside L c run then related_sum f (nx # related) else 0)"
      if "f \<in> set usage_fields" for c f
      using eff(4) [OF that, of c] st(2) [OF prev that, of c] by (auto split: if_splits)
    moreover have "\<forall>x\<in>set seen. map_of vs' x = map_of vs x"
      using eff(2) run(2) by (auto simp: update_conv')
    moreover have "actives L c vs' \<subseteq> actives L c vs" for c using eff(3) st(3) [OF prev] by (rule subset_trans)
    ultimately show ?thesis unfolding related_effect_def using eff(1) by blast
  qed
qed

lemma receipts_inv:
  assumes inv: "ledger_inv L" and call: "receipts_change k u r related L = Some (Inr L')" and valid: "ValidUsage u"
    and honest: "\<And>v f. map_of (lg_Reservations L) k = Some v \<Longrightarrow> rs_Status v = ReservationHeld \<Longrightarrow> f \<in> set usage_fields \<Longrightarrow>
      f u + related_sum f related \<le> f (rs_Requested v)"
  shows "ledger_inv L'"
proof (cases "L' = L")
  case False
  note base = ledger_invD(1) [OF inv]
  let ?new = "\<lambda>v. v\<lparr>rs_Status := ReservationSettled, rs_Active := False, rs_Usage := u, rs_Receipt := r\<rparr>"
  from call False obtain v vs where v: "map_of (lg_Reservations L) k = Some v" "rs_Status v = ReservationHeld"
    and loop: "related_loop (rs_RunID v) [k] related (lg_Reservations L) = Inr vs"
    and L': "L' = L\<lparr>lg_Reservations := AList.update k (?new v) vs\<rparr>"
    by (auto simp: receipts_change_def simp del: map_of_eq_Some_iff split: option.splits if_splits sum.splits)
  have entry: "rs_ID v = k" "resv_ok L v" using base_inv_entries [OF base] map_of_SomeD [OF v(1)] by blast+
  have fv: "usage_fits (rs_Requested v)" "registered L (rs_RunID v)" using entry(2) v(2) by (simp_all add: resv_ok_def)
  have nn: "0 \<le> f u" "0 \<le> related_sum f related" if f: "f \<in> set usage_fields" for f
    using ValidUsage_nonneg [OF valid f] related_loop_valid [OF loop] ValidUsage_nonneg [OF _ f]
    by (auto intro!: sum_list_nonneg)
  have rel: "\<forall>nx\<in>set related. usage_fits (rs_Requested nx)"
  proof
    fix nx assume nx: "nx \<in> set related"
    have "f (rs_Requested nx) \<le> max_s64" if f: "f \<in> set usage_fields" for f
    proof -
      have "f (rs_Requested nx) \<le> related_sum f related"
        using nx related_loop_valid [OF loop] ValidUsage_nonneg [OF _ f]
        by (intro member_le_sum_list) (auto simp: image_iff)
      then show ?thesis using honest [OF v f] nn(1) [OF f] usage_fitsD(2) [OF fv(1) f] by linarith
    qed
    then show "usage_fits (rs_Requested nx)" using related_loop_valid [OF loop nx] by (simp add: usage_fits_def)
  qed
  have eff: "related_effect L (rs_RunID v) [k] related (lg_Reservations L) vs"
    by (rule related_loop_inv [OF loop _ fv(2) rel]) (use base_invD(2) [OF base] base_inv_entries [OF base] in \<open>simp add: resvs_ok_def\<close>)
  have d: "distinct (map fst vs)" and e: "\<forall>(k, v)\<in>set vs. rs_ID v = k \<and> resv_ok L v" and k: "map_of vs k = Some v"
    using eff v(1) by (simp_all add: related_effect_def resvs_ok_def del: map_of_eq_Some_iff)
  have light: "lighter L (?new v) v"
    using honest [OF v] nn(2) by (intro settled_lighter [OF entry(2) v(2) valid]) fastforce
  have "resvs_ok L (AList.update k (?new v) vs)"
    unfolding resvs_ok_def using resv_ok_update [OF d e, of "?new v" k] light entry(1) d by (simp add: lighter_def)
  moreover have "scope_sum L c (charge f) (AList.update k (?new v) vs) \<le> charged L c f" if f: "f \<in> set usage_fields" for c f
  proof -
    have "scope_sum L c (charge f) vs \<le> charged L c f + (if inside L c (rs_RunID v) then related_sum f related else 0)"
      using eff f unfolding related_effect_def by blast
    moreover have "charge f (?new v) = f u" "charge f v = f (rs_Requested v)" using v(2) by (simp_all add: charge_def used_def held_def)
    ultimately show ?thesis using honest [OF v f] by (simp add: scope_sum_update k del: map_of_eq_Some_iff split: if_splits)
  qed
  moreover have "actives L c (AList.update k (?new v) vs) \<subseteq> actives L c (lg_Reservations L)" for c
  proof -
    have "actives L c (AList.update k (?new v) vs) \<subseteq> actives L c vs" using actives_update [OF d, of L c k "?new v"] by simp
    also have "\<dots> \<subseteq> actives L c (lg_Reservations L)" using eff unfolding related_effect_def by blast
    finally show ?thesis .
  qed
  ultimately show ?thesis unfolding L' by (intro shrink_inv [OF inv]) (simp_all add: resvs_ok_def)
qed (simp add: inv)

end
