(* ===== verification/Ledger_Store.thy ===== *)
theory Ledger_Store
  imports Ledger_Facts
begin

text \<open>
  The compare-and-swap loop of the coordinator over any store that honours the contract of
  \<open>LedgerStore\<close>: a successful save replaces exactly one ledger and only if its revision is still the one that
  was loaded, a failed save changes nothing, and there is no spurious conflict. The in-memory store
  interprets the contract. Two facts are proved of the loop: what it commits is the change applied to
  the ledger stored at the moment of the commit, and it returns as soon as one round is undisturbed.
\<close>

subsection \<open>Operations\<close>

datatype ledger_op =
    OpRegister string RunBudget | OpFinish "string list" | OpReserve Reservation bool | OpDispatch string
  | OpRequeue string u64 | OpSuspend string | OpSettle string Usage string | OpRelease string | OpCancel
  | OpCancelRun string | OpReceipts string Usage string "Reservation list"

text \<open>The guards of the methods before \<open>update\<close>.\<close>

fun op_pre :: "ledger_op \<Rightarrow> bool" where
  "op_pre (OpRegister run b) \<longleftrightarrow> run \<noteq> [] \<and> run \<noteq> rb_ParentRunID b \<and> ValidLimits (rb_Limits b)"
| "op_pre (OpReserve v act) \<longleftrightarrow> rs_ID v \<noteq> [] \<and> rs_RunID v \<noteq> [] \<and> rs_RequestHash v \<noteq> [] \<and> ValidUsage (rs_Requested v)"
| "op_pre (OpRequeue k n) \<longleftrightarrow> n \<noteq> 0 \<and> take 6 k = ''model:'' \<and> 6 < length k"
| "op_pre (OpSettle k u r) \<longleftrightarrow> ValidUsage u \<and> (r = [] \<or> json_valid r)"
| "op_pre (OpCancelRun r) \<longleftrightarrow> \<not> blank r"
| "op_pre (OpReceipts k u r related) \<longleftrightarrow> ValidUsage u \<and> json_valid r"
| "op_pre _ \<longleftrightarrow> True"

fun op_change :: "ledger_op \<Rightarrow> change" where
  "op_change (OpRegister run b) L = register_change run b L"
| "op_change (OpFinish ids) L = finish_change ids L"
| "op_change (OpReserve v act) L = map_option snd (reserve_change act (v, None) L)"
| "op_change (OpDispatch k) L = dispatch_change k L"
| "op_change (OpRequeue k n) L = requeue_change k n L"
| "op_change (OpSuspend k) L = suspend_change k L"
| "op_change (OpSettle k u r) L = settle_change k u r L"
| "op_change (OpRelease k) L = release_change k L"
| "op_change OpCancel L = cancel_change L"
| "op_change (OpCancelRun r) L = cancel_run_change r L"
| "op_change (OpReceipts k u r related) L = receipts_change k u r related L"

subsection \<open>Totality\<close>

text \<open>Where the ancestry is a forest every loop ends, whatever the reservations are.\<close>

lemma view_loop_total: "runs_ok L \<Longrightarrow> \<exists>a'. view_loop L c vs a = Some a'"
  by (induction vs arbitrary: a) (auto simp: contains_eq)

lemma View_total:
  assumes "runs_ok L"
  shows "\<exists>v. View L c = Some v"
proof -
  obtain b where b: "cancelled L c = Some b" using cancelled_total [OF assms] by blast
  obtain a where a: "view_loop L c (lg_Reservations L) view_start = Some a" using view_loop_total [OF assms] by blast
  show ?thesis unfolding View_def b a unfinished_loop_eq [OF assms runs_okD(1) [OF assms]] by simp
qed

lemma admit_at_total:
  assumes "runs_ok L"
  shows "\<exists>d. admit_at L r req act c = Some d"
proof -
  obtain v where v: "View L c = Some v" using View_total [OF assms] by blast
  show ?thesis unfolding admit_at_def v by (auto simp: Let_def active_def active_loop_eq [OF assms] split: sum.split)
qed

lemma admit_loop_total:
  assumes "runs_ok L" and "is_path L cur p"
  shows "\<exists>d. admit_loop L r req act cur = Some d"
  using assms(2)
proof (induction p arbitrary: cur)
  case (Cons x p)
  obtain d where "admit_at L r req act cur = Some d" using admit_at_total [OF assms(1)] by blast
  then show ?case using Cons by (cases d) (auto simp: admit_loop.simps [of L r req act cur])
next
  case Nil
  obtain d where "admit_at L r req act [] = Some d" using admit_at_total [OF assms(1)] by blast
  then show ?case using Nil by (cases d) (auto simp: admit_loop.simps [of L r req act "[]"])
qed

lemma admit_total: "runs_ok L \<Longrightarrow> \<exists>d. admit L r req act = Some d"
  using admit_loop_total runs_okD(4) unfolding admit_def by blast

lemma descendants_total:
  assumes "runs_ok L" and "is_path L cur p"
  shows "\<exists>d. descendants_loop L cur = Some d"
  using assms(2)
proof (induction p arbitrary: cur)
  case (Cons x p)
  obtain v where "View L cur = Some v" using View_total [OF assms(1)] by blast
  then show ?case using Cons by (auto simp: descendants_loop.simps [of L cur])
next
  case Nil
  obtain v where "View L [] = Some v" using View_total [OF assms(1)] by blast
  then show ?case using Nil by (auto simp: descendants_loop.simps [of L "[]"])
qed

definition well_changed :: "Ledger \<Rightarrow> ledger_error + Ledger \<Rightarrow> bool" where
  "well_changed L r \<longleftrightarrow> (\<forall>L'. r = Inr L' \<longrightarrow>
     runs_ok L' \<and> lg_ID L' = lg_ID L \<and> lg_Revision L' = lg_Revision L \<and> lg_Limits L' = lg_Limits L)"

lemma well_changed_same_runs:
  assumes "runs_ok L" and "\<And>L'. r = Inr L' \<Longrightarrow>
    lg_Runs L' = lg_Runs L \<and> lg_ID L' = lg_ID L \<and> lg_Revision L' = lg_Revision L \<and> lg_Limits L' = lg_Limits L"
  shows "well_changed L r"
  using assms runs_ok_cong unfolding well_changed_def by blast

lemma reserve_total:
  assumes "runs_ok L"
  shows "\<exists>c' r. reserve_change act c L = Some (c', r) \<and> well_changed L r"
proof -
  define req where "req = (case map_of (lg_Reservations L) (rs_ID (fst c)) of None \<Rightarrow> fst c | Some ex \<Rightarrow> ex)"
  let ?L1 = "L\<lparr>lg_Reservations := AList.delete (rs_ID req) (lg_Reservations L)\<rparr>"
  obtain s where s: "cancelled L (rs_RunID req) = Some s" using cancelled_total [OF assms] by blast
  have "runs_ok ?L1" using assms runs_ok_cong [of ?L1 L] by simp
  then obtain d where d: "admit ?L1 (rs_RunID req) (rs_Requested req) act = Some d" using admit_total by blast
  have "\<exists>c' r. reserve_change act c L = Some (c', r) \<and> (\<forall>L'. r = Inr L' \<longrightarrow>
    lg_Runs L' = lg_Runs L \<and> lg_ID L' = lg_ID L \<and> lg_Revision L' = lg_Revision L \<and> lg_Limits L' = lg_Limits L)"
    using s d unfolding reserve_change_def Let_def req_def [symmetric] by (auto split: option.split)
  then show ?thesis using well_changed_same_runs [OF assms] by metis
qed

lemma register_total:
  assumes ok: "runs_ok L" and pre: "run \<noteq> []" "run \<noteq> rb_ParentRunID b"
  shows "\<exists>r. register_change run b L = Some r \<and> well_changed L r"
proof (cases "registered L run")
  case True
  then show ?thesis using ok by (auto simp: register_change_def registered_def well_changed_def simp del: map_of_eq_Some_iff)
next
  case new: False
  obtain c1 where c1: "cancelled L run = Some c1" using cancelled_total [OF ok] by blast
  obtain c2 where c2: "cancelled L (rb_ParentRunID b) = Some c2" using cancelled_total [OF ok] by blast
  obtain w where w: "descendants_loop L (rb_ParentRunID b) = Some w" using descendants_total [OF ok] runs_okD(4) [OF ok] by blast
  obtain d where d: "admit L (rb_ParentRunID b) child_charge False = Some d" using admit_total [OF ok] by blast
  have changed: "well_changed L (Inr (L\<lparr>lg_Runs := AList.update run b (lg_Runs L), lg_Reservations := vs\<rparr>))"
    if "rb_ParentRunID b = [] \<or> registered L (rb_ParentRunID b)" for vs
    using register_runs_ok(1) [OF ok new pre that] by (simp add: well_changed_def)
  have changed': "well_changed L (Inr (L\<lparr>lg_Runs := AList.update run b (lg_Runs L)\<rparr>))" if "rb_ParentRunID b = []"
    using register_runs_ok(1) [OF ok new pre] that by (simp add: well_changed_def)
  have fail: "well_changed L (Inl e)" for e by (simp add: well_changed_def)
  let ?stop = "c1 \<or> c2" and ?p = "rb_ParentRunID b"
  have call: "register_change run b L = Some
     (if ?stop then Inl ErrExhausted
      else if ?p = [] then Inr (L\<lparr>lg_Runs := AList.update run b (lg_Runs L)\<rparr>)
      else if \<not> registered L ?p then Inl ErrLedgerConflict
      else if ?p \<in> set (lg_FinishedRuns L) then Inl ErrExhausted
      else case w of Some e \<Rightarrow> Inl e | None \<Rightarrow> (case d of Some (x, e) \<Rightarrow> Inl e
        | None \<Rightarrow> Inr (L\<lparr>lg_Runs := AList.update run b (lg_Runs L), lg_Reservations :=
            AList.update (''child:'' @ run) (child_reservation run ?p) (lg_Reservations L)\<rparr>)))"
    using new c1 c2 w d unfolding register_change_def registered_def Let_def
    by (cases c1) (simp_all split: option.split)
  show ?thesis unfolding call using changed changed' fail by (auto split: option.split)
qed

lemma changeReservation_total:
  assumes "runs_ok L"
  shows "\<exists>r. changeReservation k f L = Some r \<and> well_changed L r"
  by (auto simp: changeReservation_def intro!: well_changed_same_runs [OF assms] split: option.splits sum.splits)

lemma op_total:
  assumes "runs_ok L" and "op_pre op"
  shows "\<exists>r. op_change op L = Some r \<and> well_changed L r"
proof (cases op)
  case (OpReserve v act)
  then show ?thesis using reserve_total [OF assms(1), of act "(v, None)"] by auto
next
  case (OpCancelRun r)
  let ?L = "L\<lparr>lg_CancelledRuns := List.insert r (lg_CancelledRuns L)\<rparr>"
  have "runs_ok ?L" using assms(1) runs_ok_cong [of ?L L] by simp
  then have "\<exists>vs. refund_subtree ?L r us = Some vs" for us by (induction us) (auto simp: contains_eq)
  then obtain vs where vs: "refund_subtree ?L r (lg_Reservations L) = Some vs" by blast
  have "op_change op L = Some (Inr (?L\<lparr>lg_Reservations := vs\<rparr>))" by (simp add: OpCancelRun cancel_run_change_def Let_def vs)
  moreover have "well_changed L (Inr (?L\<lparr>lg_Reservations := vs\<rparr>))" by (rule well_changed_same_runs [OF assms(1)]) auto
  ultimately show ?thesis by blast
qed (use assms register_total [OF assms(1)] changeReservation_total [OF assms(1)] in
  \<open>auto simp: finish_change_def dispatch_change_def requeue_change_def suspend_change_def settle_change_def
     release_change_def cancel_change_def receipts_change_def intro!: well_changed_same_runs split: option.splits sum.splits if_splits\<close>)

subsection \<open>The contract of a ledger store\<close>

definition ledger_good :: "Ledger \<Rightarrow> bool" where
  "ledger_good L \<longleftrightarrow> runs_ok L \<and> ValidLimits (lg_Limits L) \<and> lg_ID L \<noteq> []"

locale ledger_store =
  fixes port :: "'s ledger_port" and ok :: "'s \<Rightarrow> bool"
  assumes load_good: "ok st \<Longrightarrow> lp_LoadBudget port k st = Inr L \<Longrightarrow> ledger_good L \<and> lg_ID L = k"
    and save_ok: "ok st \<Longrightarrow> ledger_good L \<Longrightarrow> lp_SaveBudget port L r st = (st', None) \<Longrightarrow> ok st' \<and>
      lp_LoadBudget port (lg_ID L) st' = Inr L \<and> (\<forall>k. k \<noteq> lg_ID L \<longrightarrow> lp_LoadBudget port k st' = lp_LoadBudget port k st)"
    and save_fresh: "ok st \<Longrightarrow> lp_SaveBudget port L r st = (st', None) \<Longrightarrow> lp_LoadBudget port (lg_ID L) st = Inr L0 \<Longrightarrow>
      lg_Revision L0 = r"
    and save_err: "lp_SaveBudget port L r st = (st', Some e) \<Longrightarrow> st' = st"
    and save_progress: "ok st \<Longrightarrow> ledger_good L \<Longrightarrow> lp_LoadBudget port (lg_ID L) st = Inr L0 \<Longrightarrow>
      lg_Revision L = lg_Revision L0 + 1 \<Longrightarrow> snd (lp_SaveBudget port L (lg_Revision L0) st) = None"
begin

text \<open>What the other workers may do between a load and a save: keep the store well formed, never remove a
  ledger, and change one only together with its revision.\<close>

definition rely :: "(nat \<Rightarrow> 's \<Rightarrow> 's) \<Rightarrow> bool" where
  "rely env \<longleftrightarrow> (\<forall>k st. ok st \<longrightarrow> ok (env k st) \<and> (\<forall>s L. lp_LoadBudget port s st = Inr L \<longrightarrow>
     (\<exists>L'. lp_LoadBudget port s (env k st) = Inr L' \<and> (lg_Revision L' = lg_Revision L \<longrightarrow> L' = L))))"

definition total_change :: "('c \<Rightarrow> Ledger \<Rightarrow> ('c \<times> (ledger_error + Ledger)) option) \<Rightarrow> bool" where
  "total_change change \<longleftrightarrow> (\<forall>c L. runs_ok L \<longrightarrow> (\<exists>c' r. change c L = Some (c', r) \<and> well_changed L r))"

text \<open>What the captured variables of a closure keep from one round to the next, in relation to the store: the other
  workers keep it, and so does the closure whenever the loop may go on after it.\<close>

definition captures :: "('c \<Rightarrow> 's \<Rightarrow> bool) \<Rightarrow> (nat \<Rightarrow> 's \<Rightarrow> 's) \<Rightarrow> ('c \<Rightarrow> Ledger \<Rightarrow> ('c \<times> (ledger_error + Ledger)) option) \<Rightarrow> string \<Rightarrow> bool" where
  "captures Q env change s \<longleftrightarrow> (\<forall>k c st. ok st \<longrightarrow> Q c st \<longrightarrow> Q c (env k st)) \<and>
     (\<forall>c c' st L nx. ok st \<longrightarrow> Q c st \<longrightarrow> lp_LoadBudget port s st = Inr L \<longrightarrow> change c L = Some (c', Inr nx) \<longrightarrow> Q c' st)"

lemma captures_nothing [simp]: "captures (\<lambda>_ _. True) env change s"
  by (simp add: captures_def)

lemma bumped_good:
  assumes "ledger_good L" and "well_changed L (Inr nx)"
  shows "ledger_good (nx\<lparr>lg_Revision := n\<rparr>)"
proof -
  have "runs_ok (nx\<lparr>lg_Revision := n\<rparr>) = runs_ok nx" by (rule runs_ok_cong) simp
  then show ?thesis using assms by (simp add: ledger_good_def well_changed_def)
qed

text \<open>What a call amounts to: the other workers do some of their steps and reach \<open>st0\<close>; there the call applies its
  change to the stored ledger at once, or, when it fails, it writes nothing.\<close>

definition reach :: "(nat \<Rightarrow> 's \<Rightarrow> 's) \<Rightarrow> nat \<Rightarrow> 's \<Rightarrow> 's \<Rightarrow> bool" where
  "reach env k st st0 \<longleftrightarrow> (\<exists>n\<ge>k. st0 = fold env [k..<n] st)"

definition linearized :: "('c \<Rightarrow> 's \<Rightarrow> bool) \<Rightarrow> (nat \<Rightarrow> 's \<Rightarrow> 's) \<Rightarrow> ('c \<Rightarrow> Ledger \<Rightarrow> ('c \<times> (ledger_error + Ledger)) option) \<Rightarrow> string \<Rightarrow> nat \<Rightarrow> 's \<Rightarrow>
  's \<Rightarrow> 'c \<Rightarrow> Ledger \<Rightarrow> ledger_error option \<Rightarrow> bool" where
  "linearized Q env change s k st st' c' L' err \<longleftrightarrow> (case err of Some e \<Rightarrow> reach env k st st' | None \<Rightarrow>
     (\<exists>st0 c L0 nx. reach env k st st0 \<and> ok st0 \<and> Q c st0 \<and> lp_LoadBudget port s st0 = Inr L0 \<and> change c L0 = Some (c', Inr nx) \<and>
      (if same_ledger L0 nx then L' = L0 \<and> st' = st0
       else L' = nx\<lparr>lg_Revision := lg_Revision L0 + 1\<rparr> \<and> lp_SaveBudget port L' (lg_Revision L0) st0 = (st', None))))"

lemma reach_here [simp]: "reach env k st st"
  unfolding reach_def by (rule exI [of _ k]) simp

lemma reach_step:
  assumes "reach env (Suc k) (env k st) st0"
  shows "reach env k st st0"
proof -
  from assms obtain n where n: "Suc k \<le> n" "st0 = fold env [Suc k..<n] (env k st)" unfolding reach_def by blast
  then show ?thesis unfolding reach_def by (intro exI [of _ n]) (simp add: upt_conv_Cons [of k n])
qed

lemma reach_next [simp]: "reach env k st (env k st)"
  by (rule reach_step) simp

lemma linearized_step: "linearized Q env change s (Suc k) (env k st) st' c' L' err \<Longrightarrow> linearized Q env change s k st st' c' L' err"
  unfolding linearized_def using reach_step by (auto split: option.splits) fastforce

text \<open>One round: the loop returns, or another worker's save intervened and the next round starts.\<close>

lemma round:
  assumes "rely env" and "total_change change" and "ok st" and Q: "captures Q env change s" "Q c st"
  shows "\<exists>out. update_round port cxs env s change k c st = Some out \<and>
     (case out of Inl (st', c', L', err) \<Rightarrow> linearized Q env change s k st st' c' L' err
      | Inr (c', st') \<Rightarrow> st' = env k st \<and> ok st' \<and> Q c' st' \<and> cxs k = None \<and> lp_LoadBudget port s st' \<noteq> lp_LoadBudget port s st)"
proof (cases "cxs k = None \<and> \<not> isl (lp_LoadBudget port s st)")
  case False
  then show ?thesis
    by (cases "cxs k"; cases "lp_LoadBudget port s st") (simp_all add: update_round_def linearized_def)
next
  case True
  then obtain L where L: "lp_LoadBudget port s st = Inr L" "cxs k = None"
    by (cases "lp_LoadBudget port s st") simp_all
  have good: "ledger_good L" "lg_ID L = s" using load_good [OF assms(3) L(1)] by blast+
  obtain c' r where ch: "change c L = Some (c', r)" "well_changed L r"
    using assms(2) good(1) unfolding total_change_def ledger_good_def by blast
  show ?thesis
  proof (cases "isl r \<or> same_ledger L (projr r)")
    case True
    then show ?thesis
    proof (cases r)
      case (Inl e)
      then show ?thesis using ch(1) L by (simp add: update_round_def linearized_def)
    next
      case (Inr nx)
      then have same: "same_ledger L nx" using True by simp
      have "linearized Q env change s k st st c' L None"
        unfolding linearized_def option.case using ch(1) L(1) assms(3) Q(2) Inr same
        by (intro exI [of _ st] exI [of _ c] exI [of _ L] exI [of _ nx]) simp
      then show ?thesis using ch(1) L Inr same by (simp add: update_round_def)
    qed
  next
    case False
    then obtain nx where nx: "r = Inr nx" "\<not> same_ledger L nx" by (cases r) auto
    then have fr: "lg_ID nx = s" "lg_Revision nx = lg_Revision L" using ch(2) good(2) by (auto simp: well_changed_def)
    let ?nx = "nx\<lparr>lg_Revision := lg_Revision L + 1\<rparr>"
    obtain st' err where sv: "lp_SaveBudget port ?nx (lg_Revision L) (env k st) = (st', err)" by fastforce
    have Q': "Q c (env k st)" "Q c' (env k st)"
      using Q ch(1) nx(1) L(1) assms(3) unfolding captures_def by blast+
    have ok': "ok (env k st)" using assms(1,3) by (auto simp: rely_def)
    obtain L' where L': "lp_LoadBudget port s (env k st) = Inr L'" "lg_Revision L' = lg_Revision L \<longrightarrow> L' = L"
      using assms(1,3) L(1) unfolding rely_def by blast
    have call: "update_round port cxs env s change k c st =
        Some (if is_conflict err then Inr (c', st') else Inl (st', c', ?nx, err))"
      using L ch(1) nx sv fr(2) by (simp add: update_round_def)
    show ?thesis
    proof (cases err)
      case None
      then have "lg_Revision L' = lg_Revision L" using save_fresh [OF ok', of ?nx "lg_Revision L" st' L'] sv fr(1) L'(1) by simp
      then have "lp_LoadBudget port s (env k st) = Inr L" using L' by simp
      then have "linearized Q env change s k st st' c' ?nx err"
        unfolding linearized_def None option.case using None sv ok' Q'(1) ch(1) nx
        by (intro exI [of _ "env k st"] exI [of _ c] exI [of _ L] exI [of _ nx]) simp
      then show ?thesis unfolding call using None by (simp add: is_conflict_def)
    next
      case (Some e)
      then have st': "st' = env k st" using save_err sv by blast
      have "L' \<noteq> L" if "is_conflict err"
      proof
        assume "L' = L"
        then have "err = None" using save_progress [OF ok', of ?nx L] bumped_good [OF good(1)] ch(2) nx(1) fr(1) sv L'(1) by simp
        then show False using that by (simp add: is_conflict_def)
      qed
      then show ?thesis unfolding call using Some st' ok' Q'(2) L L'(1) by (simp add: linearized_def)
    qed
  qed
qed

theorem loop_linearized:
  fixes change :: "'c \<Rightarrow> Ledger \<Rightarrow> ('c \<times> (ledger_error + Ledger)) option"
  assumes env: "rely env" and ch: "total_change change" and "ok st" and Q: "captures Q env change s" and "Q c st"
    and ret: "update_loop port cxs env s change k c st = Some (st', c', L', err)"
  shows "linearized Q env change s k st st' c' L' err"
proof -
  define P where "P = (\<lambda>p cx e s' f (k :: nat) (c :: 'c) st out. p = port \<longrightarrow> cx = cxs \<longrightarrow> e = env \<longrightarrow> s' = s \<longrightarrow> f = change \<longrightarrow> ok st \<longrightarrow> Q c st \<longrightarrow>
    (case out of (st', c', L', err) \<Rightarrow> linearized Q env change s k st st' c' L' err))"
  have "P port cxs env s change k c st (st', c', L', err)"
  proof (rule update_loop.raw_induct [of P, OF _ ret])
    fix loop p cx e s' f k c st out
    assume IH: "\<And>p cx e s' f k c st y. loop p cx e s' f k c st = Some y \<Longrightarrow> P p cx e s' f k c st y"
      and body: "Option.bind (update_round p cx e s' f k c st)
        (\<lambda>out. case out of Inl result \<Rightarrow> Some result | Inr (c', st') \<Rightarrow> loop p cx e s' f (Suc k) c' st') = Some out"
    show "P p cx e s' f k c st out"
      unfolding P_def
    proof (intro impI)
      assume eq: "p = port" "cx = cxs" "e = env" "s' = s" "f = change" and st: "ok st" "Q c st"
      from round [OF env ch st(1) Q st(2), of cxs k] obtain r where r: "update_round port cxs env s change k c st = Some r"
        "case r of Inl (st', c', L', err) \<Rightarrow> linearized Q env change s k st st' c' L' err
         | Inr (c', st') \<Rightarrow> st' = env k st \<and> ok st' \<and> Q c' st' \<and> cxs k = None \<and> lp_LoadBudget port s st' \<noteq> lp_LoadBudget port s st" by blast
      show "case out of (st', c', L', err) \<Rightarrow> linearized Q env change s k st st' c' L' err"
      proof (cases r)
        case (Inl a)
        then show ?thesis using r body unfolding eq by simp
      next
        case (Inr b)
        then have "loop port cxs env s change (Suc k) (fst b) (snd b) = Some out" "ok (snd b)" "Q (fst b) (snd b)"
          using r body unfolding eq by (auto simp: case_prod_beta)
        then have "case out of (st', c', L', err) \<Rightarrow> linearized Q env change s (Suc k) (snd b) st' c' L' err"
          using IH unfolding P_def by blast
        moreover have "snd b = env k st" using r Inr by (auto split: prod.splits)
        ultimately show ?thesis using linearized_step by (auto split: prod.splits)
      qed
    qed
  qed
  then show ?thesis using assms(3,5) by (simp add: P_def)
qed

theorem loop_returns:
  assumes env: "rely env" and ch: "total_change change" and "ok st"
    and quiet: "\<And>st. ok st \<Longrightarrow> lp_LoadBudget port s (env n st) = lp_LoadBudget port s st" and "k \<le> n"
  shows "\<exists>r. update_loop port cxs env s change k c st = Some r"
  using assms(3,5)
proof (induction "n - k" arbitrary: k c st rule: less_induct)
  case less
  from round [OF env ch less.prems(1) captures_nothing TrueI, of cxs s k c] obtain r where r: "update_round port cxs env s change k c st = Some r"
    "case r of Inl (st', c', L', err) \<Rightarrow> linearized (\<lambda>_ _. True) env change s k st st' c' L' err
     | Inr (c', st') \<Rightarrow> st' = env k st \<and> ok st' \<and> True \<and> cxs k = None \<and> lp_LoadBudget port s st' \<noteq> lp_LoadBudget port s st" by blast
  show ?case
  proof (cases r)
    case (Inl a)
    then have "update_loop port cxs env s change k c st = Some a" using r by (simp add: update_loop.simps [of port cxs env s change k c st])
    then show ?thesis by blast
  next
    case (Inr b)
    then have b: "snd b = env k st" "ok (snd b)" "lp_LoadBudget port s (snd b) \<noteq> lp_LoadBudget port s st" using r by auto
    then have "k \<noteq> n" using quiet [OF less.prems(1)] by auto
    then have "\<exists>r. update_loop port cxs env s change (Suc k) (fst b) (snd b) = Some r"
      using less.hyps [of "Suc k" "snd b" "fst b"] less.prems(2) b(2) by simp
    moreover have "update_loop port cxs env s change k c st = update_loop port cxs env s change (Suc k) (fst b) (snd b)"
      using r(1) Inr by (simp add: update_loop.simps [of port cxs env s change k c st] case_prod_beta)
    ultimately show ?thesis by (simp only:)
  qed
qed

end

subsection \<open>The in-memory store\<close>

definition store_good :: "MemoryLedgerStore \<Rightarrow> bool" where
  "store_good st \<longleftrightarrow> (\<forall>k L. st k = Some L \<longrightarrow> ledger_good L \<and> lg_ID L = k)"

interpretation mem_ledger: ledger_store memory_ledger store_good
proof
  fix st k L
  assume "store_good st" "lp_LoadBudget memory_ledger k st = Inr L"
  then show "ledger_good L \<and> lg_ID L = k" by (auto simp: memory_ledger_def LoadBudget_def store_good_def split: option.splits)
next
  fix st L r st'
  assume "store_good st" "ledger_good L" "lp_SaveBudget memory_ledger L r st = (st', None)"
  then show "store_good st' \<and> lp_LoadBudget memory_ledger (lg_ID L) st' = Inr L \<and>
      (\<forall>k. k \<noteq> lg_ID L \<longrightarrow> lp_LoadBudget memory_ledger k st' = lp_LoadBudget memory_ledger k st)"
    by (auto simp: memory_ledger_def LoadBudget_def SaveBudget_def store_good_def split: if_splits)
next
  fix st L r st' L0
  assume "store_good st" "lp_SaveBudget memory_ledger L r st = (st', None)" "lp_LoadBudget memory_ledger (lg_ID L) st = Inr L0"
  then show "lg_Revision L0 = r"
    by (auto simp: memory_ledger_def LoadBudget_def SaveBudget_def split: if_splits option.splits)
next
  fix L r st st' e
  assume "lp_SaveBudget memory_ledger L r st = (st', Some e)"
  then show "st' = st" by (auto simp: memory_ledger_def SaveBudget_def split: if_splits)
next
  fix st L L0
  assume "store_good st" "ledger_good L" "lp_LoadBudget memory_ledger (lg_ID L) st = Inr L0" "lg_Revision L = lg_Revision L0 + 1"
  then show "snd (lp_SaveBudget memory_ledger L (lg_Revision L0) st) = None"
    by (auto simp: memory_ledger_def LoadBudget_def SaveBudget_def ledger_good_def split: option.splits)
qed

end
