(* ===== verification/Ledger_Properties.thy ===== *)
theory Ledger_Properties
  imports Ledger_Invariant Ledger_Store
begin

text \<open>
  Properties of the budget and of the shared ledger: limits can only be tightened, no scope is ever
  overspent, dispatched work keeps its charge, and the coordinator's compare-and-swap loop is
  atomic and returns.
\<close>

subsection \<open>Limits\<close>

lemma tightenInt_bounds:
  assumes "0 \<le> h" and "0 \<le> r"
  shows "0 < h \<Longrightarrow> 0 < tightenInt h r \<and> tightenInt h r \<le> h" and "0 < r \<Longrightarrow> 0 < tightenInt h r \<and> tightenInt h r \<le> r"
  using assms by (auto simp: tightenInt_def)

lemma ValidLimits_field: "ValidLimits l \<Longrightarrow> (g, f) \<in> set limited_fields \<Longrightarrow> 0 \<le> g l"
  by (auto simp: ValidLimits_def limited_fields_def)

lemma TightenLimits_field:
  "TightenLimits h r = Inr l \<Longrightarrow> (g, f) \<in> set limited_fields \<Longrightarrow> g l = tightenInt (g h) (g r)"
  by (auto simp: TightenLimits_def limited_fields_def split: if_splits)

text \<open>C34: Tightening never widens: a usage that stays within the tightened limits stays within the hard limits and within
  the requested ones, in every dimension, and the same holds of the two concurrency limits.\<close>

theorem TightenLimits_never_widens:
  assumes "TightenLimits hard requested = Inr l"
  shows "(Exceeded l u = DimensionNone \<longrightarrow> Exceeded hard u = DimensionNone \<and> Exceeded requested u = DimensionNone) \<and>
     (0 < lm_MaxConcurrentRuns hard \<longrightarrow> 0 < lm_MaxConcurrentRuns l \<and> lm_MaxConcurrentRuns l \<le> lm_MaxConcurrentRuns hard) \<and>
     (0 < lm_MaxConcurrentDescendants hard \<longrightarrow>
        0 < lm_MaxConcurrentDescendants l \<and> lm_MaxConcurrentDescendants l \<le> lm_MaxConcurrentDescendants hard)"
proof -
  have valid: "ValidLimits hard" "ValidLimits requested" using assms by (auto simp: TightenLimits_def split: if_splits)
  have bounds: "(0 < g hard \<longrightarrow> 0 < g l \<and> g l \<le> g hard) \<and> (0 < g requested \<longrightarrow> 0 < g l \<and> g l \<le> g requested)"
    if "(g, f) \<in> set limited_fields" for g f
    using tightenInt_bounds [OF ValidLimits_field [OF valid(1) that] ValidLimits_field [OF valid(2) that]]
      TightenLimits_field [OF assms that] by simp
  have "Exceeded hard u = DimensionNone \<and> Exceeded requested u = DimensionNone" if l: "Exceeded l u = DimensionNone"
    unfolding Exceeded_None_iff using l bounds unfolding Exceeded_None_iff by fastforce
  moreover have "0 \<le> lm_MaxConcurrentRuns hard" "0 \<le> lm_MaxConcurrentRuns requested"
    "0 \<le> lm_MaxConcurrentDescendants hard" "0 \<le> lm_MaxConcurrentDescendants requested" using valid by (auto simp: ValidLimits_def)
  moreover have "lm_MaxConcurrentRuns l = tightenInt (lm_MaxConcurrentRuns hard) (lm_MaxConcurrentRuns requested)"
    "lm_MaxConcurrentDescendants l = tightenInt (lm_MaxConcurrentDescendants hard) (lm_MaxConcurrentDescendants requested)"
    using assms by (auto simp: TightenLimits_def split: if_splits)
  ultimately show ?thesis using tightenInt_bounds(1) by presburger
qed

theorem TightenLimits_never_widens_witness:
  "\<exists>l. TightenLimits (zero_limits\<lparr>lm_MaxLLMCalls := 5\<rparr>) (zero_limits\<lparr>lm_MaxLLMCalls := 9\<rparr>) = Inr l \<and> lm_MaxLLMCalls l = 5 \<and>
     Exceeded l (zero_usage\<lparr>us_LLMCalls := 5\<rparr>) = DimensionNone \<and>
     Exceeded (zero_limits\<lparr>lm_MaxLLMCalls := 5\<rparr>) (zero_usage\<lparr>us_LLMCalls := 5\<rparr>) = DimensionNone"
proof -
  let ?h = "zero_limits\<lparr>lm_MaxLLMCalls := 5\<rparr>" and ?r = "zero_limits\<lparr>lm_MaxLLMCalls := 9\<rparr>" and ?u = "zero_usage\<lparr>us_LLMCalls := 5\<rparr>"
  have t: "TightenLimits ?h ?r = Inr ?h"
    by (simp add: TightenLimits_def ValidLimits_def zero_limits_def tightenInt_def)
  have e: "Exceeded ?h ?u = DimensionNone" by (simp add: Exceeded_def zero_limits_def zero_usage_def)
  show ?thesis using TightenLimits_never_widens [OF t, of ?u] t e by (intro exI [of _ ?h]) simp
qed

subsection \<open>Runs of operations on a ledger\<close>

definition new_ledger :: "string \<Rightarrow> Limits \<Rightarrow> Ledger" where
  "new_ledger scopeID limits = zero_ledger\<lparr>lg_ID := scopeID, lg_Revision := 1, lg_Limits := limits\<rparr>"

text \<open>An operation that fails its guard or its change leaves the ledger as it is.\<close>

definition run_op :: "ledger_op \<Rightarrow> Ledger \<Rightarrow> Ledger option" where
  "run_op op L =
     (if \<not> op_pre op then Some L
      else case op_change op L of None \<Rightarrow> None
      | Some (Inl e) \<Rightarrow> Some L
      | Some (Inr L') \<Rightarrow> Some (if same_ledger L L' then L else L'\<lparr>lg_Revision := lg_Revision L' + 1\<rparr>))"

fun run_ops :: "ledger_op list \<Rightarrow> Ledger \<Rightarrow> Ledger option" where
  "run_ops [] L = Some L"
| "run_ops (op # ops) L = do { L' \<leftarrow> run_op op L; run_ops ops L' }"

text \<open>A settlement charges at most what its reservation holds.\<close>

fun honest :: "ledger_op \<Rightarrow> Ledger \<Rightarrow> bool" where
  "honest (OpSettle k u r) L \<longleftrightarrow> (case map_of (lg_Reservations L) k of None \<Rightarrow> True
     | Some v \<Rightarrow> rs_Status v = ReservationHeld \<longrightarrow> list_all (\<lambda>f. f u \<le> f (rs_Requested v)) usage_fields)"
| "honest (OpReceipts k u r related) L \<longleftrightarrow> (case map_of (lg_Reservations L) k of None \<Rightarrow> True
     | Some v \<Rightarrow> rs_Status v = ReservationHeld \<longrightarrow> list_all (\<lambda>f. f u + related_sum f related \<le> f (rs_Requested v)) usage_fields)"
| "honest _ L \<longleftrightarrow> True"

fun honest_run :: "ledger_op list \<Rightarrow> Ledger \<Rightarrow> bool" where
  "honest_run [] L \<longleftrightarrow> True"
| "honest_run (op # ops) L \<longleftrightarrow> honest op L \<and> (case run_op op L of None \<Rightarrow> True | Some L' \<Rightarrow> honest_run ops L')"

lemma op_inv:
  assumes inv: "ledger_inv L" and "op_pre op" and "honest op L"
  shows "\<exists>r. op_change op L = Some r \<and> (\<forall>L'. r = Inr L' \<longrightarrow> ledger_inv L')"
proof -
  obtain r where r: "op_change op L = Some r" using op_total [OF base_invD(1) [OF ledger_invD(1) [OF inv]] assms(2)] by blast
  have "ledger_inv L'" if L': "r = Inr L'" for L'
  proof (cases op)
    case (OpRegister run b)
    then show ?thesis using register_inv [OF inv, of run b] assms(2) r L' by auto
  next
    case (OpReserve v act)
    then show ?thesis using reserve_inv [OF inv, of act "(v, None)"] r L' by auto
  next
    case (OpSettle k u rc)
    show ?thesis
    proof (rule settle_inv [OF inv])
      show "settle_change k u rc L = Some (Inr L')" "ValidUsage u" using OpSettle r L' assms(2) by simp_all
      show "f u \<le> f (rs_Requested v)" if "map_of (lg_Reservations L) k = Some v" "rs_Status v = ReservationHeld" "f \<in> set usage_fields" for v f
        using assms(3) that OpSettle by (simp add: list_all_iff del: map_of_eq_Some_iff)
    qed
  next
    case (OpReceipts k u rc related)
    show ?thesis
    proof (rule receipts_inv [OF inv])
      show "receipts_change k u rc related L = Some (Inr L')" "ValidUsage u" using OpReceipts r L' assms(2) by simp_all
      show "f u + related_sum f related \<le> f (rs_Requested v)"
        if "map_of (lg_Reservations L) k = Some v" "rs_Status v = ReservationHeld" "f \<in> set usage_fields" for v f
        using assms(3) that OpReceipts by (simp add: list_all_iff del: map_of_eq_Some_iff)
    qed
  next
    case (OpCancelRun x)
    then show ?thesis using cancel_run_inv [OF inv, of x] r L' by auto
  qed (use inv r L' in \<open>auto intro: finish_inv dispatch_inv requeue_inv suspend_inv release_inv cancel_inv\<close>)
  then show ?thesis using r by blast
qed

lemma revision_inv:
  assumes inv: "ledger_inv L"
  shows "ledger_inv (L\<lparr>lg_Revision := n\<rparr>)"
proof (rule shrink_inv [OF inv])
  show "distinct (map fst (lg_Reservations (L\<lparr>lg_Revision := n\<rparr>)))"
    using base_invD(2) [OF ledger_invD(1) [OF inv]] by simp
  show "\<forall>(k, v)\<in>set (lg_Reservations (L\<lparr>lg_Revision := n\<rparr>)). rs_ID v = k \<and> resv_ok L v"
    using base_inv_entries [OF ledger_invD(1) [OF inv]] by simp
qed simp_all

lemma run_op_inv:
  assumes "ledger_inv L" and "honest op L"
  shows "\<exists>L'. run_op op L = Some L' \<and> ledger_inv L'"
proof (cases "op_pre op")
  case True
  from op_inv [OF assms(1) True assms(2)] obtain r where "op_change op L = Some r" "\<forall>L'. r = Inr L' \<longrightarrow> ledger_inv L'" by blast
  then show ?thesis using True assms(1) revision_inv by (cases r) (auto simp: run_op_def)
qed (use assms(1) in \<open>simp add: run_op_def\<close>)

lemma run_ops_inv: "ledger_inv L \<Longrightarrow> honest_run ops L \<Longrightarrow> \<exists>L'. run_ops ops L = Some L' \<and> ledger_inv L'"
proof (induction ops arbitrary: L)
  case (Cons op ops)
  from run_op_inv [OF Cons.prems(1)] Cons.prems(2) obtain L1 where "run_op op L = Some L1" "ledger_inv L1" by auto
  then show ?case using Cons by simp
qed simp

lemma new_ledger_inv: "ledger_inv (new_ledger scopeID limits)"
proof -
  let ?L = "new_ledger scopeID limits"
  have p: "parent_of ?L r = []" for r by (simp add: new_ledger_def run_of_def zero_ledger_def)
  have "\<exists>p. is_path ?L r p" for r
    by (cases "r = []") (rule exI [of _ "[]"], simp, rule exI [of _ "[r]"], simp add: p)
  then have "runs_ok ?L" by (simp add: runs_ok_def p) (simp add: new_ledger_def zero_ledger_def registered_def)
  then show ?thesis
    by (auto simp: ledger_inv_def base_inv_def within_def new_ledger_def zero_ledger_def max_s64_def actives_def unfinished_def)
qed

text \<open>C30: From a new ledger, after any sequence of operations in which a settlement charges at most what its reservation
  holds, every operation has returned, and at the root and in every run's subtree the settled and the reserved usage
  together exceed no limit of the scope, nor do its active runs and its unfinished descendants.\<close>

theorem budget_is_never_overspent:
  assumes "honest_run ops (new_ledger scopeID limits)"
  shows "\<exists>L. run_ops ops (new_ledger scopeID limits) = Some L \<and> (\<forall>c. \<exists>view. View L c = Some view \<and>
     Exceeded (lv_Limits view) (add_fields (lv_Usage view) (lv_Reserved view)) = DimensionNone \<and>
     (0 < lm_MaxConcurrentRuns (lv_Limits view) \<longrightarrow> lv_ActiveRuns view \<le> lm_MaxConcurrentRuns (lv_Limits view)) \<and>
     (0 < lm_MaxConcurrentDescendants (lv_Limits view) \<longrightarrow>
        lv_UnfinishedDescendants view \<le> lm_MaxConcurrentDescendants (lv_Limits view)))"
proof -
  obtain L where L: "run_ops ops (new_ledger scopeID limits) = Some L" "ledger_inv L"
    using run_ops_inv [OF new_ledger_inv assms] by blast
  have "\<exists>view. View L c = Some view \<and>
     Exceeded (lv_Limits view) (add_fields (lv_Usage view) (lv_Reserved view)) = DimensionNone \<and>
     (0 < lm_MaxConcurrentRuns (lv_Limits view) \<longrightarrow> lv_ActiveRuns view \<le> lm_MaxConcurrentRuns (lv_Limits view)) \<and>
     (0 < lm_MaxConcurrentDescendants (lv_Limits view) \<longrightarrow>
        lv_UnfinishedDescendants view \<le> lm_MaxConcurrentDescendants (lv_Limits view))" for c
  proof -
    note base = ledger_invD(1) [OF L(2)] and w = ledger_invD(2) [OF L(2), of c, unfolded within_def]
    obtain view where v: "View L c = Some view" "lv_Limits view = scope_limits L c"
      "\<forall>f\<in>set usage_fields. f (lv_Usage view) = scope_sum L c (used f) (lg_Reservations L) \<and>
        f (lv_Reserved view) = scope_sum L c (held f) (lg_Reservations L)"
      "lv_ActiveRuns view = int (card (actives L c (lg_Reservations L)))"
      "lv_UnfinishedDescendants view = int (card (unfinished L c))" using View_eq [OF base, of c] by blast
    have "f (add_fields (lv_Usage view) (lv_Reserved view)) = charged L c f" if "f \<in> set usage_fields" for f
      using scope_charges(1) [OF base that, of c] v(3) that by simp
    then have "Exceeded (scope_limits L c) (add_fields (lv_Usage view) (lv_Reserved view)) = DimensionNone"
      unfolding Exceeded_None_iff using conjunct1 [OF w] limited_fields_usage by fastforce
    then show ?thesis using v w by auto
  qed
  then show ?thesis using L(1) by blast
qed

declare contains_loop.simps [code] and cancelled_loop.simps [code] and admit_loop.simps [code] and descendants_loop.simps [code]

definition lx_limits :: Limits where
  "lx_limits = zero_limits\<lparr>lm_MaxLLMCalls := 3, lm_MaxConcurrentRuns := 1, lm_MaxConcurrentDescendants := 1\<rparr>"

definition lx_request :: "string \<Rightarrow> string \<Rightarrow> int \<Rightarrow> Reservation" where
  "lx_request k run n = \<lparr>rs_ID = k, rs_RunID = run, rs_RequestHash = ''h'', rs_Requested = zero_usage\<lparr>us_LLMCalls := n\<rparr>,
     rs_Usage = zero_usage, rs_Status = ReservationOther [], rs_Active = False, rs_Dispatched = False, rs_Receipt = [],
     rs_Dimension = DimensionNone\<rparr>"

definition lx_ops :: "ledger_op list" where
  "lx_ops = [OpRegister ''a'' \<lparr>rb_ParentRunID = [], rb_Limits = zero_limits\<rparr>,
     OpRegister ''b'' \<lparr>rb_ParentRunID = ''a'', rb_Limits = zero_limits\<rparr>,
     OpReserve (lx_request ''model:1'' ''b'' 2) True, OpDispatch ''model:1'',
     OpReserve (lx_request ''model:2'' ''a'' 2) True]"

theorem budget_is_never_overspent_witness:
  "honest_run lx_ops (new_ledger ''turn'' lx_limits) \<and> (\<exists>L. run_ops lx_ops (new_ledger ''turn'' lx_limits) = Some L \<and>
     (\<exists>view. View L [] = Some view \<and> Exceeded (lv_Limits view) (add_fields (lv_Usage view) (lv_Reserved view)) = DimensionNone))"
proof -
  have h: "honest_run lx_ops (new_ledger ''turn'' lx_limits)" by code_simp
  show ?thesis using budget_is_never_overspent [OF h] h by blast
qed

subsection \<open>Dispatched work\<close>

definition keyed :: "(string \<times> Reservation) list \<Rightarrow> bool" where
  "keyed vs \<longleftrightarrow> (\<forall>k v. map_of vs k = Some v \<longrightarrow> rs_ID v = k)"

definition in_flight :: "string \<Rightarrow> string \<Rightarrow> Usage \<Rightarrow> (string \<times> Reservation) list \<Rightarrow> bool" where
  "in_flight k run q vs \<longleftrightarrow> (case map_of vs k of None \<Rightarrow> False
     | Some v \<Rightarrow> rs_Status v = ReservationHeld \<and> rs_Dispatched v \<and> rs_RunID v = run \<and> rs_Requested v = q)"

text \<open>The operations that may end a dispatched reservation: its settlement, its proven-unsent requeue, the settlement of
  another reservation that carries a receipt for it (\<open>SettleWithReceipts\<close> stores the receipt in its place), and a
  registration whose child receipt has the same key.\<close>

fun settles :: "string \<Rightarrow> ledger_op \<Rightarrow> bool" where
  "settles k (OpSettle k' u r) \<longleftrightarrow> k' = k"
| "settles k (OpReceipts k' u r related) \<longleftrightarrow> k' = k \<or> k \<in> rs_ID ` set related"
| "settles k (OpRequeue k' n) \<longleftrightarrow> k' = k"
| "settles k (OpRegister run b) \<longleftrightarrow> k = ''child:'' @ run"
| "settles k _ \<longleftrightarrow> False"

definition flight_kept :: "ledger_op \<Rightarrow> (string \<times> Reservation) list \<Rightarrow> (string \<times> Reservation) list \<Rightarrow> bool" where
  "flight_kept op vs vs' \<longleftrightarrow> keyed vs' \<and> dom (map_of vs) \<subseteq> dom (map_of vs') \<and>
     (\<forall>k run q. \<not> settles k op \<longrightarrow> in_flight k run q vs \<longrightarrow> in_flight k run q vs')"

lemma keyed_update: "keyed vs \<Longrightarrow> rs_ID v = k \<Longrightarrow> keyed (AList.update k v vs)"
  unfolding keyed_def update_conv' by (auto simp del: map_of_eq_Some_iff split: if_splits)

lemma flight_update:
  assumes "keyed vs" and "rs_ID v' = k'"
    and "\<And>run q. \<not> settles k' op \<Longrightarrow> in_flight k' run q vs \<Longrightarrow>
      rs_Status v' = ReservationHeld \<and> rs_Dispatched v' \<and> rs_RunID v' = run \<and> rs_Requested v' = q"
  shows "flight_kept op vs (AList.update k' v' vs)"
  unfolding flight_kept_def
proof (intro conjI allI impI)
  show "keyed (AList.update k' v' vs)" using assms(1,2) by (rule keyed_update)
  show "dom (map_of vs) \<subseteq> dom (map_of (AList.update k' v' vs))" by (auto simp: update_conv' simp del: map_of_eq_Some_iff)
  fix k run q
  assume "\<not> settles k op" "in_flight k run q vs"
  then show "in_flight k run q (AList.update k' v' vs)"
    using assms(3) by (cases "k = k'") (auto simp: in_flight_def update_conv')
qed

lemma flight_change:
  assumes "keyed (lg_Reservations L)" and "changeReservation k' f L = Some (Inr L')"
    and "\<And>v v'. f v = Inr v' \<Longrightarrow> rs_ID v' = rs_ID v \<and> (\<not> settles k' op \<longrightarrow> rs_Status v = ReservationHeld \<longrightarrow> rs_Dispatched v \<longrightarrow>
      rs_Status v' = ReservationHeld \<and> rs_Dispatched v' \<and> rs_RunID v' = rs_RunID v \<and> rs_Requested v' = rs_Requested v)"
  shows "flight_kept op (lg_Reservations L) (lg_Reservations L')"
proof -
  from assms(2) obtain v v' where v: "map_of (lg_Reservations L) k' = Some v" "f v = Inr v'"
    "lg_Reservations L' = AList.update k' v' (lg_Reservations L)"
    by (auto simp: changeReservation_def simp del: map_of_eq_Some_iff split: option.splits sum.splits)
  have "rs_ID v' = k'" using assms(1,3) v(1,2) unfolding keyed_def by metis
  then show ?thesis unfolding v(3)
    using assms(3) [OF v(2)] v(1) by (intro flight_update [OF assms(1)]) (auto simp: in_flight_def)
qed

lemma flight_map:
  assumes "keyed vs" and "\<And>v. g v = v \<or> (g v = refund v)"
  shows "flight_kept op vs (map (\<lambda>(k, v). (k, g v)) vs)"
proof -
  have m: "map_of (map (\<lambda>(k, v). (k, g v)) vs) k = map_option g (map_of vs k)" for k by (induction vs) auto
  have ID: "rs_ID (g v) = rs_ID v" for v using assms(2) [of v] by (auto simp: refund_def)
  have same: "g v = v" if "rs_Dispatched v" for v using assms(2) [of v] that by (auto simp: refund_def)
  have "dom (map_of (map (\<lambda>(k, v). (k, g v)) vs)) = dom (map_of vs)" by (auto simp: m dom_def)
  then show ?thesis using assms(1) ID same
    by (auto simp: flight_kept_def keyed_def in_flight_def m simp del: map_of_eq_Some_iff split: option.splits)
qed

lemma flight_reserve:
  assumes k: "keyed (lg_Reservations L)" and call: "reserve_change act c L = Some (c', Inr L')"
  shows "flight_kept (OpReserve v b) (lg_Reservations L) (lg_Reservations L')"
proof -
  define found where "found = map_of (lg_Reservations L) (rs_ID (fst c))"
  define req where "req = (case found of None \<Rightarrow> fst c | Some ex \<Rightarrow> ex)"
  have ID: "rs_ID req = rs_ID (fst c)" using k by (auto simp: req_def found_def keyed_def simp del: map_of_eq_Some_iff split: option.split)
  have kd: "keyed (AList.delete (rs_ID req) (lg_Reservations L))" using k by (simp add: keyed_def AList.delete_conv')
  let ?upd = "\<lambda>w. AList.update (rs_ID req) w (AList.delete (rs_ID req) (lg_Reservations L))"
  have "lg_Reservations L' = lg_Reservations L \<or>
      lg_Reservations L' = ?upd (req\<lparr>rs_Status := ReservationHeld, rs_Active := act, rs_Dimension := DimensionNone\<rparr>) \<or>
      lg_Reservations L' = ?upd req \<or>
      ((found = None \<or> rs_Status (the found) \<noteq> ReservationHeld) \<and>
       (\<exists>e. lg_Reservations L' = ?upd (req\<lparr>rs_Status := ReservationWaiting, rs_Active := False, rs_Dimension := e\<rparr>)))"
  proof (cases "admit (L\<lparr>lg_Reservations := AList.delete (rs_ID req) (lg_Reservations L)\<rparr>) (rs_RunID req) (rs_Requested req) act")
    case None
    show ?thesis using call unfolding reserve_change_def Let_def found_def [symmetric] req_def [symmetric] None
      by (auto simp: Option.bind_eq_Some_conv split: if_splits)
  next
    case (Some denied)
    show ?thesis
    proof (cases denied)
      case None
      show ?thesis using call unfolding reserve_change_def Let_def found_def [symmetric] req_def [symmetric] Some None
        by (auto simp: Option.bind_eq_Some_conv split: if_splits)
    next
      case (Some p)
      note denied = \<open>admit _ _ _ _ = Some denied\<close> [unfolded Some]
      obtain d e where p: "p = (d, e)" by force
      show ?thesis using call
        unfolding reserve_change_def Let_def found_def [symmetric] req_def [symmetric] denied p bind.bind_lunit option.case prod.case
        by (cases found) (auto simp: Option.bind_eq_Some_conv split: if_splits)
    qed
  qed
  then have "lg_Reservations L' = lg_Reservations L \<or> (\<exists>w. rs_ID w = rs_ID req \<and> lg_Reservations L' = ?upd w \<and>
      (found \<noteq> None \<longrightarrow> rs_Status (the found) = ReservationHeld \<longrightarrow>
         rs_Status w = ReservationHeld \<and> rs_Dispatched w = rs_Dispatched req \<and> rs_RunID w = rs_RunID req \<and> rs_Requested w = rs_Requested req))"
  proof (elim disjE conjE exE)
    assume "lg_Reservations L' = ?upd req"
    moreover have "found \<noteq> None \<Longrightarrow> req = the found" by (auto simp: req_def)
    ultimately show ?thesis by (intro disjI2 exI [of _ req]) auto
  qed (erule disjI1 | (rule disjI2, rule exI, rule conjI [rotated], rule conjI, assumption, simp, simp))+
  then show ?thesis
  proof
    assume "\<exists>w. rs_ID w = rs_ID req \<and>
      lg_Reservations L' = AList.update (rs_ID req) w (AList.delete (rs_ID req) (lg_Reservations L)) \<and>
      (found \<noteq> None \<longrightarrow> rs_Status (the found) = ReservationHeld \<longrightarrow>
         rs_Status w = ReservationHeld \<and> rs_Dispatched w = rs_Dispatched req \<and> rs_RunID w = rs_RunID req \<and> rs_Requested w = rs_Requested req)"
    then obtain w where w: "rs_ID w = rs_ID req"
      "lg_Reservations L' = AList.update (rs_ID req) w (AList.delete (rs_ID req) (lg_Reservations L))"
      "found \<noteq> None \<longrightarrow> rs_Status (the found) = ReservationHeld \<longrightarrow>
         rs_Status w = ReservationHeld \<and> rs_Dispatched w = rs_Dispatched req \<and> rs_RunID w = rs_RunID req \<and> rs_Requested w = rs_Requested req"
      by blast
    have "keyed (lg_Reservations L')" unfolding w(2) by (rule keyed_update [OF kd w(1)])
    moreover have "dom (map_of (lg_Reservations L)) \<subseteq> dom (map_of (lg_Reservations L'))"
      unfolding w(2) update_conv' AList.delete_conv' by auto
    moreover have "in_flight j run q (lg_Reservations L')" if "in_flight j run q (lg_Reservations L)" for j run q
    proof (cases "j = rs_ID req")
      case True
      then have "found = Some req" "rs_Status req = ReservationHeld" "rs_Dispatched req" "rs_RunID req = run" "rs_Requested req = q"
        using that ID by (auto simp: in_flight_def found_def req_def simp del: map_of_eq_Some_iff split: option.splits)
      then show ?thesis using w True by (simp add: in_flight_def update_conv')
    next
      case False
      then show ?thesis using that w(2) by (simp add: in_flight_def update_conv' AList.delete_conv')
    qed
    ultimately show ?thesis by (simp add: flight_kept_def)
  qed (simp add: flight_kept_def k)
qed

lemma flight_related:
  assumes "related_loop run seen related vs = Inr vs'" and "keyed vs"
  shows "keyed vs' \<and> dom (map_of vs) \<subseteq> dom (map_of vs') \<and> (\<forall>k. k \<notin> rs_ID ` set related \<longrightarrow> map_of vs' k = map_of vs k)"
  using assms
proof (induction related arbitrary: seen vs)
  case (Cons nx related)
  let ?u = "AList.update (rs_ID nx) nx vs"
  have ku: "keyed ?u" using Cons.prems(2) by (simp add: keyed_update)
  from Cons.prems(1) consider "related_loop run (rs_ID nx # seen) related vs = Inr vs'"
    | "related_loop run (rs_ID nx # seen) related ?u = Inr vs'"
    by (auto simp: Let_def simp del: map_of_eq_Some_iff split: option.splits if_splits)
  then show ?case
  proof cases
    case 1
    then show ?thesis using Cons.IH [OF 1 Cons.prems(2)] by simp
  next
    case 2
    note IH = Cons.IH [OF 2 ku]
    have "dom (map_of vs) \<subseteq> dom (map_of ?u)" unfolding update_conv' by auto
    also have "\<dots> \<subseteq> dom (map_of vs')" using IH by blast
    finally show ?thesis using IH by (simp add: update_conv')
  qed
qed simp

lemma flight_op:
  assumes k: "keyed (lg_Reservations L)" and "runs_ok L" and call: "op_change op L = Some (Inr L')"
  shows "flight_kept op (lg_Reservations L) (lg_Reservations L')"
proof (cases op)
  case (OpRegister run b)
  then have "lg_Reservations L' = lg_Reservations L \<or> (lg_Reservations L' =
      AList.update (''child:'' @ run) (child_reservation run (rb_ParentRunID b)) (lg_Reservations L))"
    using call by (auto simp: register_change_def Let_def bind_eq_Some_conv case_prod_beta split: option.splits if_splits)
  then show ?thesis
  proof
    assume "lg_Reservations L' = AList.update (''child:'' @ run) (child_reservation run (rb_ParentRunID b)) (lg_Reservations L)"
    moreover have "rs_ID (child_reservation run (rb_ParentRunID b)) = ''child:'' @ run" by (simp add: child_reservation_def)
    moreover have "settles (''child:'' @ run) op" by (simp add: OpRegister)
    ultimately show ?thesis using flight_update [OF k] by metis
  qed (simp add: flight_kept_def k)
next
  case (OpReserve v act)
  then show ?thesis using call flight_reserve [OF k] by auto
next
  case (OpRequeue k' n)
  then obtain v where "map_of (lg_Reservations L) k' = Some v" "lg_Reservations L' = AList.update k' (v\<lparr>rs_Status := ReservationWaiting,
      rs_Active := False, rs_Dispatched := False, rs_Dimension := DimensionNone\<rparr>) (lg_Reservations L)"
    using call by (auto simp: requeue_change_def simp del: map_of_eq_Some_iff split: option.splits if_splits)
  then show ?thesis using OpRequeue k by (auto simp: keyed_def simp del: map_of_eq_Some_iff intro!: flight_update)
next
  case (OpCancelRun r)
  let ?L = "L\<lparr>lg_CancelledRuns := List.insert r (lg_CancelledRuns L)\<rparr>"
  have "runs_ok ?L" using assms(2) runs_ok_cong [of ?L L] by simp
  then have "lg_Reservations L' = map (\<lambda>(k, v). (k, if inside ?L r (rs_RunID v) then refund v else v)) (lg_Reservations L)"
    using call OpCancelRun by (auto simp: cancel_run_change_def Let_def refund_subtree_eq)
  then show ?thesis using flight_map [OF k, of "\<lambda>v. if inside ?L r (rs_RunID v) then refund v else v"] by simp
next
  case (OpReceipts k' u r related)
  show ?thesis
  proof (cases "L' = L")
    case False
    with call OpReceipts obtain v vs where v: "map_of (lg_Reservations L) k' = Some v"
      "related_loop (rs_RunID v) [k'] related (lg_Reservations L) = Inr vs"
      "lg_Reservations L' = AList.update k' (v\<lparr>rs_Status := ReservationSettled, rs_Active := False, rs_Usage := u, rs_Receipt := r\<rparr>) vs"
      by (auto simp: receipts_change_def simp del: map_of_eq_Some_iff split: option.splits if_splits sum.splits)
    have "rs_ID v = k'" using k v(1) by (simp add: keyed_def)
    then have "keyed (lg_Reservations L')" using flight_related [OF v(2) k] v(3) by (simp add: keyed_update)
    moreover have "dom (map_of (lg_Reservations L)) \<subseteq> dom (map_of (lg_Reservations L'))"
      using flight_related [OF v(2) k] unfolding v(3) update_conv' by auto
    ultimately show ?thesis using flight_related [OF v(2) k] unfolding OpReceipts flight_kept_def v(3)
      by (auto simp: in_flight_def update_conv')
  qed (simp add: flight_kept_def k)
next
  case (OpDispatch x)
  show ?thesis by (rule flight_change [OF k call [unfolded OpDispatch op_change.simps dispatch_change_def]])
    (auto simp: OpDispatch split: if_splits)
next
  case (OpSuspend x)
  show ?thesis by (rule flight_change [OF k call [unfolded OpSuspend op_change.simps suspend_change_def]])
    (auto simp: OpSuspend split: if_splits)
next
  case (OpSettle x u r)
  show ?thesis by (rule flight_change [OF k call [unfolded OpSettle op_change.simps settle_change_def]])
    (auto simp: OpSettle split: if_splits)
next
  case (OpRelease x)
  show ?thesis by (rule flight_change [OF k call [unfolded OpRelease op_change.simps release_change_def]])
    (auto simp: OpRelease split: if_splits)
next
  case (OpFinish x)
  then show ?thesis using call k by (auto simp: finish_change_def flight_kept_def split: if_splits)
next
  case OpCancel
  then show ?thesis using call flight_map [OF k, of refund] by (auto simp: cancel_change_def)
qed

lemma flight_run_op:
  assumes "runs_ok L" and "keyed (lg_Reservations L)"
  shows "\<exists>L'. run_op op L = Some L' \<and> runs_ok L' \<and> flight_kept op (lg_Reservations L) (lg_Reservations L')"
proof (cases "op_pre op")
  case True
  obtain r where r: "op_change op L = Some r" "well_changed L r" using op_total [OF assms(1) True] by blast
  show ?thesis
  proof (cases r)
    case (Inl e)
    then show ?thesis using r True assms by (simp add: run_op_def flight_kept_def)
  next
    case (Inr L')
    have "runs_ok (L'\<lparr>lg_Revision := lg_Revision L' + 1\<rparr>)"
      using r(2) Inr runs_ok_cong [of "L'\<lparr>lg_Revision := lg_Revision L' + 1\<rparr>" L'] by (simp add: well_changed_def)
    moreover have "flight_kept op (lg_Reservations L) (lg_Reservations L')" using flight_op [OF assms(2,1)] r(1) Inr by simp
    ultimately show ?thesis using r True Inr assms by (simp add: run_op_def) (simp add: flight_kept_def)
  qed
qed (use assms in \<open>simp add: run_op_def flight_kept_def\<close>)

lemma flight_run_ops:
  assumes "runs_ok L" and "keyed (lg_Reservations L)"
  shows "\<exists>L'. run_ops ops L = Some L' \<and> runs_ok L' \<and> keyed (lg_Reservations L') \<and>
    (\<forall>k run q. list_all (\<lambda>op. \<not> settles k op) ops \<longrightarrow> in_flight k run q (lg_Reservations L) \<longrightarrow> in_flight k run q (lg_Reservations L'))"
  using assms
proof (induction ops arbitrary: L)
  case (Cons op ops)
  obtain L1 where L1: "run_op op L = Some L1" "runs_ok L1" "flight_kept op (lg_Reservations L) (lg_Reservations L1)"
    using flight_run_op [OF Cons.prems] by blast
  then have "keyed (lg_Reservations L1)" by (simp add: flight_kept_def)
  from Cons.IH [OF L1(2) this] L1 show ?case by (auto simp: flight_kept_def)
qed simp

lemma run_ops_append: "run_ops (ops @ ops') L = Option.bind (run_ops ops L) (run_ops ops')"
  by (induction ops arbitrary: L) (auto split: bind_splits)

text \<open>C31: Once a reservation has been dispatched, it stays held for the same run with the same usage through releases,
  suspensions, cancellations of the budget or of its run and operations on other reservations. It may end only by its own
  settlement, by its proven-unsent requeue, by a \<open>SettleWithReceipts\<close> of another reservation that lists it among the
  related receipts, or by the registration of a child run whose receipt \<open>child:\<close> followed by its ID has the same
  key.\<close>

theorem dispatched_charge_is_kept:
  assumes "run_ops ops (new_ledger scopeID limits) = Some L" and "in_flight k run q (lg_Reservations L)"
    and "\<forall>op\<in>set ops'. \<not> settles k op"
  shows "\<exists>L'. run_ops (ops @ ops') (new_ledger scopeID limits) = Some L' \<and> in_flight k run q (lg_Reservations L')"
proof -
  have "runs_ok (new_ledger scopeID limits)" using base_invD(1) [OF ledger_invD(1) [OF new_ledger_inv]] .
  moreover have "keyed (lg_Reservations (new_ledger scopeID limits))" by (simp add: keyed_def new_ledger_def zero_ledger_def)
  ultimately have "runs_ok L" "keyed (lg_Reservations L)" using flight_run_ops [of "new_ledger scopeID limits" ops] assms(1) by auto
  then show ?thesis using flight_run_ops [of L ops'] assms by (auto simp: run_ops_append list_all_iff)
qed

theorem dispatched_charge_is_kept_witness:
  "(case run_ops lx_ops (new_ledger ''turn'' lx_limits) of None \<Rightarrow> False
    | Some L \<Rightarrow> in_flight ''model:1'' ''b'' (zero_usage\<lparr>us_LLMCalls := 2\<rparr>) (lg_Reservations L)) \<and>
   (\<exists>L'. run_ops (lx_ops @ [OpCancel, OpRelease ''model:1'', OpCancelRun ''a'']) (new_ledger ''turn'' lx_limits) = Some L' \<and>
     in_flight ''model:1'' ''b'' (zero_usage\<lparr>us_LLMCalls := 2\<rparr>) (lg_Reservations L'))"
proof -
  have c: "case run_ops lx_ops (new_ledger ''turn'' lx_limits) of None \<Rightarrow> False
    | Some L \<Rightarrow> in_flight ''model:1'' ''b'' (zero_usage\<lparr>us_LLMCalls := 2\<rparr>) (lg_Reservations L)" by code_simp
  then obtain L where "run_ops lx_ops (new_ledger ''turn'' lx_limits) = Some L"
    "in_flight ''model:1'' ''b'' (zero_usage\<lparr>us_LLMCalls := 2\<rparr>) (lg_Reservations L)" by (auto split: option.splits)
  from dispatched_charge_is_kept [OF this, of "[OpCancel, OpRelease ''model:1'', OpCancelRun ''a'']"] c show ?thesis by simp
qed

subsection \<open>Concurrent workers\<close>

text \<open>The method of \<open>Coordinator\<close> for an operation. Of the errors that \<open>Reserve\<close> joins the first is kept.\<close>

fun co_call :: "ledger_op \<Rightarrow> 's ledger_port option \<Rightarrow> (nat \<Rightarrow> context_error option) \<Rightarrow> (nat \<Rightarrow> 's \<Rightarrow> 's) \<Rightarrow> string \<Rightarrow> 's \<Rightarrow>
  's ledger_call" where
  "co_call (OpRegister run b) store cxs env s st = co_RegisterRun store cxs env s run b st"
| "co_call (OpFinish ids) store cxs env s st = co_FinishRuns store cxs env s ids st"
| "co_call (OpReserve v act) store cxs env s st =
     map_option (\<lambda>(st', L, es). (st', L, case es of [] \<Rightarrow> None | e # _ \<Rightarrow> Some e)) (co_Reserve store cxs env s v act st)"
| "co_call (OpDispatch k) store cxs env s st = co_Dispatch store cxs env s k st"
| "co_call (OpRequeue k n) store cxs env s st = co_RequeueProvenUnsent store cxs env s k n st"
| "co_call (OpSuspend k) store cxs env s st = co_Suspend store cxs env s k st"
| "co_call (OpSettle k u r) store cxs env s st = co_Settle store cxs env s k u r st"
| "co_call (OpRelease k) store cxs env s st = co_Release store cxs env s k st"
| "co_call OpCancel store cxs env s st = co_Cancel store cxs env s st"
| "co_call (OpCancelRun r) store cxs env s st = co_CancelRun store cxs env s r st"
| "co_call (OpReceipts k u r related) store cxs env s st = co_SettleWithReceipts store cxs env s k u r related st"

fun is_reserve :: "ledger_op \<Rightarrow> bool" where
  "is_reserve (OpReserve v act) \<longleftrightarrow> True"
| "is_reserve _ \<longleftrightarrow> False"

lemma op_change_funs:
  "op_change (OpRegister run b) = register_change run b" "op_change (OpFinish ids) = finish_change ids"
  "op_change (OpDispatch k) = dispatch_change k" "op_change (OpRequeue k n) = requeue_change k n"
  "op_change (OpSuspend k) = suspend_change k" "op_change (OpSettle k u r) = settle_change k u r"
  "op_change (OpRelease k) = release_change k" "op_change OpCancel = cancel_change"
  "op_change (OpCancelRun r) = cancel_run_change r" "op_change (OpReceipts k u r related) = receipts_change k u r related"
  by (rule ext, simp)+

lemmas co_defs = co_RegisterRun_def co_FinishRuns_def co_Dispatch_def co_RequeueProvenUnsent_def co_Suspend_def
  co_Settle_def co_Release_def co_Cancel_def co_CancelRun_def co_SettleWithReceipts_def

lemma co_call_update:
  "\<not> is_reserve op \<Longrightarrow> op_pre op \<Longrightarrow> co_call op store cxs env s st = update store cxs env s (op_change op) st"
  by (cases op) (auto simp: co_defs op_change_funs)

lemma co_call_refused:
  "\<not> is_reserve op \<Longrightarrow> \<not> op_pre op \<Longrightarrow> \<exists>e. co_call op store cxs env s st = Some (st, zero_ledger, Some e)"
  by (cases op) (auto simp: co_defs)

text \<open>What the other workers may do to the in-memory store between the steps of a call: they keep the ledgers well
  formed, they remove none, and they change one only together with its revision.\<close>

definition interference :: "(nat \<Rightarrow> MemoryLedgerStore \<Rightarrow> MemoryLedgerStore) \<Rightarrow> bool" where
  "interference env \<longleftrightarrow> (\<forall>k st. store_good st \<longrightarrow> store_good (env k st) \<and>
     (\<forall>s L. st s = Some L \<longrightarrow> (\<exists>L'. env k st s = Some L' \<and> (lg_Revision L' = lg_Revision L \<longrightarrow> L' = L))))"

lemma memory_ledger_calls: "lp_LoadBudget memory_ledger = LoadBudget" "lp_SaveBudget memory_ledger = SaveBudget"
  by (simp_all add: memory_ledger_def)

lemma interference_rely: "interference env \<Longrightarrow> mem_ledger.rely env"
  unfolding interference_def mem_ledger.rely_def by (fastforce simp: memory_ledger_calls LoadBudget_def split: option.splits)

lemma op_total_change: "op_pre op \<Longrightarrow> mem_ledger.total_change (\<lambda>c L. map_option (\<lambda>r. ((), r)) (op_change op L))"
  unfolding mem_ledger.total_change_def using op_total by fastforce

text \<open>In addition, no reservation is removed (a released or settled one stays in the ledger), reservations stay under their
  IDs, and the revision counter does not wrap to 0.\<close>

definition keyed_store :: "MemoryLedgerStore \<Rightarrow> bool" where
  "keyed_store st \<longleftrightarrow> (\<forall>s L. st s = Some L \<longrightarrow> keyed (lg_Reservations L) \<and> lg_Revision L \<noteq> 0)"

definition keeps_reservations :: "(nat \<Rightarrow> MemoryLedgerStore \<Rightarrow> MemoryLedgerStore) \<Rightarrow> bool" where
  "keeps_reservations env \<longleftrightarrow> (\<forall>k st. store_good st \<longrightarrow> keyed_store st \<longrightarrow> keyed_store (env k st) \<and>
     (\<forall>s L L'. st s = Some L \<longrightarrow> env k st s = Some L' \<longrightarrow> dom (map_of (lg_Reservations L)) \<subseteq> dom (map_of (lg_Reservations L'))))"

text \<open>The operations of the coordinator are such steps: in each step some worker does one operation on the ledger of some
  scope, whose revision counter is not exhausted.\<close>

definition worker_steps :: "(nat \<Rightarrow> string \<times> ledger_op) \<Rightarrow> nat \<Rightarrow> MemoryLedgerStore \<Rightarrow> MemoryLedgerStore" where
  "worker_steps ws k st = (case ws k of (s, op) \<Rightarrow> case st s of None \<Rightarrow> st
     | Some L \<Rightarrow> if lg_Revision L = - 1 then st else case run_op op L of None \<Rightarrow> st | Some L' \<Rightarrow> st(s \<mapsto> L'))"

lemma run_op_frame:
  assumes "ledger_good L" and "run_op op L = Some L'"
  shows "ledger_good L' \<and> lg_ID L' = lg_ID L \<and> (L' = L \<or> lg_Revision L' = lg_Revision L + 1)"
proof (cases "op_pre op")
  case True
  obtain r where r: "op_change op L = Some r" "well_changed L r"
    using op_total [of L op] True assms(1) by (auto simp: ledger_good_def)
  show ?thesis
  proof (cases r)
    case (Inr nx)
    then have "ledger_good (nx\<lparr>lg_Revision := lg_Revision nx + 1\<rparr>)"
      using mem_ledger.bumped_good [OF assms(1)] r(2) by simp
    then show ?thesis using assms r Inr True by (auto simp: run_op_def well_changed_def split: if_splits)
  qed (use assms r True in \<open>simp add: run_op_def\<close>)
qed (use assms in \<open>simp add: run_op_def\<close>)

lemma worker_steps_interfere: "interference (worker_steps ws)" "keeps_reservations (worker_steps ws)"
proof -
  have step: "worker_steps ws k st = st \<or> (\<exists>s L L' op. st s = Some L \<and> lg_Revision L \<noteq> - 1 \<and> run_op op L = Some L' \<and>
      worker_steps ws k st = st(s \<mapsto> L'))" for k st
    by (auto simp: worker_steps_def split: option.splits prod.splits)
  have ne: "r + 1 \<noteq> r" for r :: u64 by simp
  show "interference (worker_steps ws)"
    unfolding interference_def
  proof (intro allI impI)
    fix k and st :: MemoryLedgerStore
    assume g: "store_good st"
    show "store_good (worker_steps ws k st) \<and> (\<forall>s L. st s = Some L \<longrightarrow>
      (\<exists>L'. worker_steps ws k st s = Some L' \<and> (lg_Revision L' = lg_Revision L \<longrightarrow> L' = L)))"
      using step [of k st]
    proof (elim disjE exE conjE)
      fix s L L' op
      assume a: "st s = Some L" "run_op op L = Some L'" "worker_steps ws k st = st(s \<mapsto> L')"
      with g have "ledger_good L' \<and> lg_ID L' = s \<and> (L' = L \<or> lg_Revision L' = lg_Revision L + 1)"
        using run_op_frame [of L op L'] by (auto simp: store_good_def)
      then show ?thesis using g a ne by (auto simp: store_good_def)
    qed (use g in simp)
  qed
  show "keeps_reservations (worker_steps ws)"
    unfolding keeps_reservations_def
  proof (intro allI impI)
    fix k and st :: MemoryLedgerStore
    assume g: "store_good st" and ky: "keyed_store st"
    show "keyed_store (worker_steps ws k st) \<and> (\<forall>s L L'. st s = Some L \<longrightarrow> worker_steps ws k st s = Some L' \<longrightarrow>
      dom (map_of (lg_Reservations L)) \<subseteq> dom (map_of (lg_Reservations L')))"
      using step [of k st]
    proof (elim disjE exE conjE)
      fix s L L' op
      assume a: "st s = Some L" "lg_Revision L \<noteq> - 1" "run_op op L = Some L'" "worker_steps ws k st = st(s \<mapsto> L')"
      have L: "ledger_good L" "keyed (lg_Reservations L)" "lg_Revision L \<noteq> 0" using g ky a(1) by (auto simp: store_good_def keyed_store_def)
      have "flight_kept op (lg_Reservations L) (lg_Reservations L')"
        using flight_run_op [of L op] L a(3) by (auto simp: ledger_good_def)
      moreover have "lg_Revision L' \<noteq> 0" using run_op_frame [OF L(1) a(3)] L(3) a(2) by (auto simp: add_eq_0_iff2)
      ultimately show ?thesis using ky a by (auto simp: flight_kept_def keyed_store_def simp del: map_of_eq_Some_iff split: if_splits)
    qed (use ky in auto)
  qed
qed

text \<open>The captured request of \<open>Reserve\<close> in a later round: it still is the caller's request up to the fields the closure
  assigns, or the reservation is already in the ledger and takes its place.\<close>

definition unassigned :: "Reservation \<Rightarrow> Reservation" where
  "unassigned v = v\<lparr>rs_Status := ReservationHeld, rs_Active := False, rs_Dimension := DimensionNone\<rparr>"

definition recaptured :: "Reservation \<Rightarrow> string \<Rightarrow> Reservation \<times> ledger_error option \<Rightarrow> MemoryLedgerStore \<Rightarrow> bool" where
  "recaptured v s c st \<longleftrightarrow> keyed_store st \<and> rs_ID (fst c) = rs_ID v \<and> rs_RunID (fst c) = rs_RunID v \<and>
     rs_RequestHash (fst c) = rs_RequestHash v \<and>
     ((\<exists>L. st s = Some L \<and> map_of (lg_Reservations L) (rs_ID v) \<noteq> None) \<or> unassigned (fst c) = unassigned v)"

lemma unassigned_fields:
  assumes "unassigned w = unassigned v"
  shows "w\<lparr>rs_Status := x, rs_Active := b, rs_Dimension := d\<rparr> = v\<lparr>rs_Status := x, rs_Active := b, rs_Dimension := d\<rparr>"
    "rs_Requested w = rs_Requested v" "rs_ID w = rs_ID v" "rs_RunID w = rs_RunID v" "rs_RequestHash w = rs_RequestHash v"
  using assms by (cases w; cases v; simp add: unassigned_def)+

lemma reserve_same:
  assumes "recaptured v s c st" and "st s = Some L"
  shows "map_option (\<lambda>(c', r). (snd c', r)) (reserve_change act c L) = map_option (\<lambda>(c', r). (snd c', r)) (reserve_change act (v, None) L)"
proof (cases "map_of (lg_Reservations L) (rs_ID v)")
  case None
  then have "unassigned (fst c) = unassigned v" using assms by (auto simp: recaptured_def)
  note u = unassigned_fields [OF this]
  show ?thesis using assms(1) None
    by (simp add: reserve_change_def Let_def recaptured_def u map_option_bind comp_def if_distrib [of "map_option _"] cong: if_cong)
      (auto simp: u split: option.split bind_split)
next
  case (Some ex)
  then show ?thesis using assms(1)
    by (auto simp: reserve_change_def Let_def recaptured_def simp del: map_of_eq_Some_iff split: option.split bind_split)
qed

lemma reserve_recaptures:
  assumes "recaptured v s c st" and "st s = Some L" and call: "reserve_change act c L = Some (c', Inr nx)"
  shows "recaptured v s c' st"
proof -
  define found where "found = map_of (lg_Reservations L) (rs_ID (fst c))"
  define req where "req = (case found of None \<Rightarrow> fst c | Some ex \<Rightarrow> ex)"
  have "fst c' = fst c \<or> unassigned (fst c') = unassigned req \<and> (case found of None \<Rightarrow> True | Some ex \<Rightarrow>
      rs_RunID ex = rs_RunID (fst c) \<and> rs_RequestHash ex = rs_RequestHash (fst c))"
    using call unfolding reserve_change_def Let_def found_def [symmetric] req_def [symmetric]
    by (auto simp: unassigned_def split: if_splits option.splits bind_splits)
  then show ?thesis
  proof
    assume "fst c' = fst c"
    then show ?thesis using assms(1) by (simp add: recaptured_def)
  next
    assume a: "unassigned (fst c') = unassigned req \<and> (case found of None \<Rightarrow> True | Some ex \<Rightarrow>
      rs_RunID ex = rs_RunID (fst c) \<and> rs_RequestHash ex = rs_RequestHash (fst c))"
    then have e: "rs_ID (fst c') = rs_ID req" "rs_RunID (fst c') = rs_RunID req" "rs_RequestHash (fst c') = rs_RequestHash req"
      using unassigned_fields [OF conjunct1 [OF a]] by simp_all
    show ?thesis
    proof (cases found)
      case None
      then show ?thesis using assms(1) a e by (auto simp: recaptured_def req_def)
    next
      case (Some ex)
      then have "rs_ID ex = rs_ID v" using assms(1,2) by (auto simp: found_def recaptured_def keyed_store_def keyed_def)
      then show ?thesis using assms(1,2) a e Some by (auto simp: recaptured_def req_def found_def)
    qed
  qed
qed

lemma reserve_captures:
  assumes "interference env" and "keeps_reservations env"
  shows "mem_ledger.captures (recaptured v s) env (reserve_change act) s"
  unfolding mem_ledger.captures_def memory_ledger_calls
proof (intro conjI allI impI)
  fix k c st
  assume st: "store_good st" "recaptured v s c st"
  then have ky: "keyed_store st" by (simp add: recaptured_def)
  have "keyed_store (env k st)" using assms(2) st(1) ky unfolding keeps_reservations_def by blast
  moreover have "\<exists>L'. env k st s = Some L' \<and> map_of (lg_Reservations L') (rs_ID v) \<noteq> None"
    if "st s = Some L" "map_of (lg_Reservations L) (rs_ID v) \<noteq> None" for L
  proof -
    note pre = that
    obtain L' where L': "env k st s = Some L'" using assms(1) st(1) pre(1) unfolding interference_def by blast
    then have "dom (map_of (lg_Reservations L)) \<subseteq> dom (map_of (lg_Reservations L'))"
      using assms(2) st(1) ky that(1) unfolding keeps_reservations_def by blast
    then show ?thesis using L' that(2) by blast
  qed
  ultimately show "recaptured v s c (env k st)" using st(2) unfolding recaptured_def by blast
next
  fix c c' st L nx
  assume "recaptured v s c st" "LoadBudget s st = Inr L" "reserve_change act c L = Some (c', Inr nx)"
  then show "recaptured v s c' st" by (auto simp: LoadBudget_def intro: reserve_recaptures split: option.splits)
qed

text \<open>The error that a call returns although it has changed the ledger: \<open>Reserve\<close> records a waiting reservation and reports
  why it waits.\<close>

fun op_error :: "ledger_op \<Rightarrow> Ledger \<Rightarrow> ledger_error option" where
  "op_error (OpReserve v act) L = (case reserve_change act (v, None) L of None \<Rightarrow> None | Some (c, r) \<Rightarrow> snd c)"
| "op_error _ L = None"

text \<open>At the instant where a linearised call writes.\<close>

lemma linearized_write:
  assumes lin: "mem_ledger.linearized Q env change s 0 st st' c' L' None" and "op_pre op"
    and same: "\<And>c c' L nx st. store_good st \<Longrightarrow> st s = Some L \<Longrightarrow> Q c st \<Longrightarrow> change c L = Some (c', Inr nx) \<Longrightarrow>
      op_change op L = Some (Inr nx) \<and> P c' L"
  shows "\<exists>n L0. fold env [0..<n] st s = Some L0 \<and> run_op op L0 = Some L' \<and> st' = (fold env [0..<n] st)(s \<mapsto> L') \<and> P c' L0"
proof -
  from lin obtain n st0 c L0 nx where n: "st0 = fold env [0..<n] st" "store_good st0" "st0 s = Some L0" "Q c st0"
      "change c L0 = Some (c', Inr nx)" and
    eff: "if same_ledger L0 nx then L' = L0 \<and> st' = st0
     else L' = nx\<lparr>lg_Revision := lg_Revision L0 + 1\<rparr> \<and> SaveBudget L' (lg_Revision L0) st0 = (st', None)"
    unfolding mem_ledger.linearized_def mem_ledger.reach_def memory_ledger_calls
    by (auto simp: LoadBudget_def split: option.splits)
  have op: "op_change op L0 = Some (Inr nx)" "P c' L0" using same [OF n(2-5)] by auto
  have g: "ledger_good L0" "lg_ID L0 = s" using n(2,3) by (auto simp: store_good_def)
  then have w: "lg_ID nx = s" "lg_Revision nx = lg_Revision L0"
    using op_total [of L0 op] assms(2) op(1) by (auto simp: ledger_good_def well_changed_def)
  have "run_op op L0 = Some L'" using eff assms(2) op(1) w by (auto simp: run_op_def split: if_splits)
  moreover have "st' = st0(s \<mapsto> L')" using eff n(3) w by (auto simp: SaveBudget_def fun_upd_idem split: if_splits)
  ultimately show ?thesis using n(1,3) op(2) by auto
qed

lemma call_atomic:
  assumes "\<not> is_reserve op" and "store_good st" and "interference env"
    and "co_call op (Some memory_ledger) cxs env s st = Some (st', L', err)"
  shows "\<exists>n. err \<noteq> None \<and> st' = fold env [0..<n] st \<or>
    (\<exists>L0. fold env [0..<n] st s = Some L0 \<and> run_op op L0 = Some L' \<and> st' = (fold env [0..<n] st)(s \<mapsto> L') \<and> err = op_error op L0)"
proof (cases "op_pre op")
  case False
  then show ?thesis using co_call_refused [OF assms(1) False, of "Some memory_ledger" cxs env s st] assms(4)
    by (auto intro: exI [of _ 0])
next
  case True
  let ?ch = "\<lambda>c L. map_option (\<lambda>r. ((), r)) (op_change op L)"
  from assms(4) obtain c where "update_loop memory_ledger cxs env s ?ch 0 () st = Some (st', c, L', err)"
    by (auto simp: co_call_update [OF assms(1) True] update_def)
  from mem_ledger.loop_linearized [OF interference_rely [OF assms(3)] op_total_change [OF True] assms(2) mem_ledger.captures_nothing TrueI this]
  have lin: "mem_ledger.linearized (\<lambda>_ _. True) env ?ch s 0 st st' c L' err" .
  have none: "op_error op L = None" for L using assms(1) by (cases op) auto
  show ?thesis
  proof (cases err)
    case None
    from linearized_write [OF lin [unfolded None] True, where P = "\<lambda>_ _. True"] show ?thesis using None none by auto
  next
    case (Some e)
    then show ?thesis using lin unfolding mem_ledger.linearized_def mem_ledger.reach_def by auto
  qed
qed

lemma reserve_atomic:
  assumes "store_good st" and "keyed_store st" and env: "interference env" "keeps_reservations env"
    and "co_call (OpReserve v act) (Some memory_ledger) cxs env s st = Some (st', L', err)"
  shows "\<exists>n. err \<noteq> None \<and> st' = fold env [0..<n] st \<or>
    (\<exists>L0. fold env [0..<n] st s = Some L0 \<and> run_op (OpReserve v act) L0 = Some L' \<and> st' = (fold env [0..<n] st)(s \<mapsto> L') \<and>
      err = op_error (OpReserve v act) L0)"
proof (cases "op_pre (OpReserve v act)")
  case False
  then show ?thesis using assms(5) by (auto simp: co_Reserve_def intro: exI [of _ 0])
next
  case True
  from assms(5) True obtain c e where lp: "update_loop memory_ledger cxs env s (reserve_change act) 0 (v, None) st = Some (st', c, L', e)"
    and err: "err = (case e of None \<Rightarrow> snd c | Some x \<Rightarrow> Some x)"
    by (auto simp: co_Reserve_def split: option.splits)
  have tot: "mem_ledger.total_change (reserve_change act)" unfolding mem_ledger.total_change_def using reserve_total by fastforce
  have "recaptured v s (v, None) st" using assms(2) by (simp add: recaptured_def)
  from mem_ledger.loop_linearized [OF interference_rely [OF env(1)] tot assms(1) reserve_captures [OF env] this lp]
  have lin: "mem_ledger.linearized (recaptured v s) env (reserve_change act) s 0 st st' c L' e" .
  show ?thesis
  proof (cases e)
    case None
    have same: "op_change (OpReserve v act) L = Some (Inr nx) \<and> snd c' = op_error (OpReserve v act) L"
      if "store_good st" "st s = Some L" "recaptured v s c st" "reserve_change act c L = Some (c', Inr nx)" for c c' L nx st
      using reserve_same [OF that(3,2), of act] that(4) by (cases "reserve_change act (v, None) L") auto
    have "\<exists>n L0. fold env [0..<n] st s = Some L0 \<and> run_op (OpReserve v act) L0 = Some L' \<and> st' = (fold env [0..<n] st)(s \<mapsto> L') \<and>
        snd c = op_error (OpReserve v act) L0"
      by (rule linearized_write [where P = "\<lambda>c' L. snd c' = op_error (OpReserve v act) L", OF lin [unfolded None] True]) (rule same)
    then show ?thesis using None err by auto
  next
    case (Some x)
    then show ?thesis using lin err unfolding mem_ledger.linearized_def mem_ledger.reach_def by auto
  qed
qed

lemma ensure_atomic:
  fixes env :: "nat \<Rightarrow> MemoryLedgerStore \<Rightarrow> MemoryLedgerStore"
  assumes good: "store_good st" "keyed_store st" and env: "interference env" "keeps_reservations env"
    and ret: "ensure_loop memory_ledger env s limits k st = Some (st', L', err)"
  shows "\<exists>st0. mem_ledger.reach env k st st0 \<and> (err \<noteq> None \<and> st' = st0 \<or>
    err = None \<and> (st0 s = Some L' \<and> lg_Limits L' = limits \<and> st' = st0 \<or>
      st0 s = None \<and> L' = new_ledger s limits \<and> st' = st0(s \<mapsto> L')))"
proof -
  define P where "P = (\<lambda>p e s' l (k :: nat) st (out :: _ \<times> _ \<times> ledger_error option). p = memory_ledger \<longrightarrow> e = env \<longrightarrow> s' = s \<longrightarrow> l = limits \<longrightarrow> store_good st \<longrightarrow> keyed_store st \<longrightarrow>
    (case out of (st', L', err) \<Rightarrow> \<exists>st0. mem_ledger.reach env k st st0 \<and> (err \<noteq> None \<and> st' = st0 \<or>
      err = None \<and> (st0 s = Some L' \<and> lg_Limits L' = limits \<and> st' = st0 \<or>
        st0 s = None \<and> L' = new_ledger s limits \<and> st' = st0(s \<mapsto> L')))))"
  have "P memory_ledger env s limits k st (st', L', err)"
  proof (rule ensure_loop.raw_induct [of P, OF _ ret])
    fix loop p e s' l k st out
    assume IH: "\<And>p e s' l k st y. loop p e s' l k st = Some y \<Longrightarrow> P p e s' l k st y"
      and body: "(case lp_LoadBudget p s' st of
        Inl err \<Rightarrow> if \<not> is_error ErrLedgerNotFound err then Some (st, zero_ledger, Some err)
          else let ledger = zero_ledger\<lparr>lg_ID := s', lg_Revision := 1, lg_Limits := l\<rparr>; saved = lp_SaveBudget p ledger 0 (e k st) in
            if is_conflict (snd saved) then loop p e s' l (Suc k) (fst saved) else Some (fst saved, ledger, snd saved)
        | Inr ledger \<Rightarrow> if lg_Limits ledger \<noteq> l then Some (st, zero_ledger, Some ErrLedgerConflict) else Some (st, ledger, None)) = Some out"
    show "P p e s' l k st out"
      unfolding P_def
    proof (intro impI)
      assume eq: "p = memory_ledger" "e = env" "s' = s" "l = limits" and g: "store_good st" "keyed_store st"
      have g': "store_good (env k st)" "keyed_store (env k st)"
        using env g unfolding interference_def keeps_reservations_def by blast+
      show "case out of (st', L', err) \<Rightarrow> \<exists>st0. mem_ledger.reach env k st st0 \<and> (err \<noteq> None \<and> st' = st0 \<or>
        err = None \<and> (st0 s = Some L' \<and> lg_Limits L' = limits \<and> st' = st0 \<or>
          st0 s = None \<and> L' = new_ledger s limits \<and> st' = st0(s \<mapsto> L')))"
      proof (cases "st s")
        case (Some L)
        then show ?thesis using body unfolding eq memory_ledger_calls
          by (auto simp: LoadBudget_def intro!: exI [of _ st] split: if_splits)
      next
        case None
        let ?L = "new_ledger s limits"
        obtain st1 e1 where sv: "SaveBudget ?L 0 (env k st) = (st1, e1)" by fastforce
        have body': "(if is_conflict e1 then loop memory_ledger env s limits (Suc k) st1 else Some (st1, ?L, e1)) = Some out"
          using body None unfolding eq memory_ledger_calls new_ledger_def [of s limits, symmetric] by (simp add: LoadBudget_def Let_def sv split: if_splits)
        have free: "env k st s = None \<and> st1 = (env k st)(s \<mapsto> ?L)" if "e1 = None"
          using sv that g'(2) by (auto simp: SaveBudget_def keyed_store_def new_ledger_def split: if_splits option.splits)
        have kept: "st1 = env k st" if "e1 \<noteq> None" using sv that by (auto simp: SaveBudget_def split: if_splits)
        show ?thesis
        proof (cases "is_conflict e1")
          case True
          then have "st1 = env k st" using kept by (cases e1) (simp_all add: is_conflict_def)
          then have "P memory_ledger env s limits (Suc k) (env k st) out" using IH body' True by simp
          then show ?thesis using g' mem_ledger.reach_step [of env k st] unfolding P_def by (auto split: prod.splits)
        next
          case False
          then have o: "out = (st1, ?L, e1)" using body' by simp
          show ?thesis unfolding o prod.case using free kept by (intro exI [of _ "env k st"], cases e1) simp_all
        qed
      qed
    qed
  qed
  then show ?thesis using good by (simp add: P_def)
qed

text \<open>\<open>Ensure\<close> returns once a round is undisturbed.\<close>

lemma ensure_returns:
  assumes "\<forall>st. env n st = st" and "k \<le> n"
  shows "\<exists>r. ensure_loop memory_ledger env s limits k st = Some r"
  using assms(2)
proof (induction "n - k" arbitrary: k st rule: less_induct)
  case less
  note step = ensure_loop.simps [of memory_ledger env s limits k st, unfolded memory_ledger_calls]
  show ?case
  proof (cases "st s = None \<and> is_conflict (snd (SaveBudget (new_ledger s limits) 0 (env k st)))")
    case True
    then have "k \<noteq> n" using assms(1) by (auto simp: SaveBudget_def new_ledger_def is_conflict_def split: if_splits)
    then have "\<exists>r. ensure_loop memory_ledger env s limits (Suc k) (fst (SaveBudget (new_ledger s limits) 0 (env k st))) = Some r"
      using less by simp
    then show ?thesis using True unfolding step new_ledger_def [symmetric] by (simp add: LoadBudget_def Let_def)
  next
    case False
    then show ?thesis unfolding step new_ledger_def [symmetric] by (auto simp: LoadBudget_def Let_def split: option.splits)
  qed
qed

text \<open>C32: Every call of the coordinator that changes the in-memory store is atomic although other workers write between its
  load and its save, in each of its rounds. Such a call of any of its methods on a ledger, \<open>Reserve\<close> with the request
  that its closure carries from round to round included, either fails and writes nothing, or there is an instant
  between the steps of the other workers where it changes the stored ledger of its scope to exactly what the operation
  on the caller's arguments makes of that ledger, and touches no other scope; the error it then returns is the one that
  operation reports at that instant (only \<open>Reserve\<close> has one, when it records a waiting reservation). \<open>Ensure\<close> either fails
  and writes nothing, or finds at one instant the ledger of its scope with the same limits, or finds none and creates the
  empty one.\<close>

theorem coordinator_call_is_atomic:
  assumes "store_good st" and "keyed_store st" and "interference env" and "keeps_reservations env"
  shows "(co_call op (Some memory_ledger) cxs env scopeID st = Some (st', L', err) \<longrightarrow>
      (\<exists>n. err \<noteq> None \<and> st' = fold env [0..<n] st \<or>
        (\<exists>L0. fold env [0..<n] st scopeID = Some L0 \<and> run_op op L0 = Some L' \<and> st' = (fold env [0..<n] st)(scopeID \<mapsto> L') \<and>
          err = op_error op L0))) \<and>
    (co_Ensure (Some memory_ledger) env scopeID limits st = Some (st', L', err) \<longrightarrow>
      (\<exists>n. let st0 = fold env [0..<n] st in err \<noteq> None \<and> st' = st0 \<or>
        err = None \<and> (st0 scopeID = Some L' \<and> lg_Limits L' = limits \<and> st' = st0 \<or>
          st0 scopeID = None \<and> L' = new_ledger scopeID limits \<and> st' = st0(scopeID \<mapsto> L'))))"
proof (intro conjI impI)
  assume call: "co_call op (Some memory_ledger) cxs env scopeID st = Some (st', L', err)"
  show "\<exists>n. err \<noteq> None \<and> st' = fold env [0..<n] st \<or>
      (\<exists>L0. fold env [0..<n] st scopeID = Some L0 \<and> run_op op L0 = Some L' \<and> st' = (fold env [0..<n] st)(scopeID \<mapsto> L') \<and>
        err = op_error op L0)"
  proof (cases "is_reserve op")
    case True
    then obtain v act where "op = OpReserve v act" by (cases op) auto
    then show ?thesis using reserve_atomic [OF assms] call by blast
  qed (rule call_atomic [OF _ assms(1,3) call])
next
  assume "co_Ensure (Some memory_ledger) env scopeID limits st = Some (st', L', err)"
  then consider "err \<noteq> None" "st' = st" | "ensure_loop memory_ledger env scopeID limits 0 st = Some (st', L', err)"
    by (auto simp: co_Ensure_def split: if_splits)
  then show "\<exists>n. let st0 = fold env [0..<n] st in err \<noteq> None \<and> st' = st0 \<or>
      err = None \<and> (st0 scopeID = Some L' \<and> lg_Limits L' = limits \<and> st' = st0 \<or>
        st0 scopeID = None \<and> L' = new_ledger scopeID limits \<and> st' = st0(scopeID \<mapsto> L'))"
  proof cases
    case 1
    then show ?thesis by (intro exI [of _ 0]) simp
  next
    case 2
    then show ?thesis using ensure_atomic [OF assms 2] unfolding mem_ledger.reach_def Let_def by blast
  qed
qed

declare update_loop.simps [code]

definition lx_other :: "nat \<Rightarrow> MemoryLedgerStore \<Rightarrow> MemoryLedgerStore" where
  "lx_other k st = (case st ''turn'' of None \<Rightarrow> st
     | Some L \<Rightarrow> if k = 0 then st(''turn'' \<mapsto> L\<lparr>lg_CancelledRuns := [''other''], lg_Revision := lg_Revision L + 1\<rparr>) else st)"

lemma lx_other_interference: "interference lx_other"
proof -
  have "runs_ok (L\<lparr>lg_CancelledRuns := [''other''], lg_Revision := n\<rparr>) = runs_ok L" for L n by (rule runs_ok_cong) simp
  then show ?thesis by (auto simp: interference_def lx_other_def store_good_def ledger_good_def split: option.splits)
qed

lemma lx_store_good: "store_good [''turn'' \<mapsto> new_ledger ''turn'' lx_limits]"
proof -
  have "runs_ok (new_ledger ''turn'' lx_limits)" using base_invD(1) [OF ledger_invD(1) [OF new_ledger_inv]] .
  moreover have "ValidLimits lx_limits" by code_simp
  ultimately show ?thesis by (simp add: store_good_def ledger_good_def) (simp add: new_ledger_def)
qed

declare ensure_loop.simps [code]

abbreviation lx_register :: ledger_op where
  "lx_register \<equiv> OpRegister ''a'' \<lparr>rb_ParentRunID = [], rb_Limits = zero_limits\<rparr>"

definition lx_store :: MemoryLedgerStore where
  "lx_store = (case run_op lx_register (new_ledger ''turn'' lx_limits) of None \<Rightarrow> Map.empty | Some L \<Rightarrow> [''turn'' \<mapsto> L])"

definition lx_workers :: "nat \<Rightarrow> MemoryLedgerStore \<Rightarrow> MemoryLedgerStore" where
  "lx_workers = worker_steps (\<lambda>k. (''turn'', if k = 0 then OpCancelRun ''other'' else OpDispatch ''none''))"

lemma lx_workers_interfere: "interference lx_workers" "keeps_reservations lx_workers"
  unfolding lx_workers_def by (rule worker_steps_interfere)+

lemma lx_store_ok: "store_good lx_store" "keyed_store lx_store"
proof -
  let ?L = "new_ledger ''turn'' lx_limits"
  have g: "ledger_good ?L" "lg_ID ?L = ''turn''" using lx_store_good by (auto simp: store_good_def)
  have k: "keyed (lg_Reservations ?L)" by (simp add: keyed_def new_ledger_def zero_ledger_def)
  obtain L where L: "run_op lx_register ?L = Some L" "flight_kept lx_register (lg_Reservations ?L) (lg_Reservations L)"
    using flight_run_op [of ?L lx_register] g(1) k by (auto simp: ledger_good_def)
  have "case run_op lx_register ?L of None \<Rightarrow> False | Some L \<Rightarrow> lg_Revision L \<noteq> 0" by code_simp
  then have "lg_Revision L \<noteq> 0" using L(1) by simp
  then show "store_good lx_store" "keyed_store lx_store"
    using L run_op_frame [OF g(1) L(1)] g(2) by (auto simp: lx_store_def store_good_def keyed_store_def flight_kept_def)
qed

theorem coordinator_call_is_atomic_witness:
  "(\<exists>st' L' n L0. co_call (OpReserve (lx_request ''model:1'' ''a'' 2) True) (Some memory_ledger) (\<lambda>_. None) lx_workers ''turn'' lx_store =
      Some (st', L', None) \<and> lg_Revision L' = 4 \<and> fold lx_workers [0..<n] lx_store ''turn'' = Some L0 \<and>
      run_op (OpReserve (lx_request ''model:1'' ''a'' 2) True) L0 = Some L' \<and> st' = (fold lx_workers [0..<n] lx_store)(''turn'' \<mapsto> L')) \<and>
   (\<exists>st' L' n. co_Ensure (Some memory_ledger) lx_workers ''turn'' lx_limits lx_store = Some (st', L', None) \<and>
      st' = fold lx_workers [0..<n] lx_store \<and> st' ''turn'' = Some L' \<and> lg_Limits L' = lx_limits)"
proof
  note atomic = coordinator_call_is_atomic [OF lx_store_ok lx_workers_interfere]
  let ?op = "OpReserve (lx_request ''model:1'' ''a'' 2) True"
  let ?call = "co_call ?op (Some memory_ledger) (\<lambda>_. None) lx_workers ''turn'' lx_store"
  have "case ?call of Some (st', L', None) \<Rightarrow> lg_Revision L' = 4 | _ \<Rightarrow> False" by code_simp
  then obtain st' L' where call: "?call = Some (st', L', None)" "lg_Revision L' = 4" by (auto split: option.splits)
  from mp [OF conjunct1 [OF atomic] call(1)] call show "\<exists>st' L' n L0. ?call = Some (st', L', None) \<and> lg_Revision L' = 4 \<and>
      fold lx_workers [0..<n] lx_store ''turn'' = Some L0 \<and> run_op ?op L0 = Some L' \<and> st' = (fold lx_workers [0..<n] lx_store)(''turn'' \<mapsto> L')"
    by blast
  let ?ensure = "co_Ensure (Some memory_ledger) lx_workers ''turn'' lx_limits lx_store"
  have "case ?ensure of Some (st', L', None) \<Rightarrow> lg_Revision L' = 2 | _ \<Rightarrow> False" by code_simp
  then obtain st2 L2 where e: "?ensure = Some (st2, L2, None)" "lg_Revision L2 = 2" by (auto split: option.splits)
  then have "L2 \<noteq> new_ledger ''turn'' lx_limits" by (auto simp: new_ledger_def)
  with mp [OF conjunct2 [OF atomic] e(1)] e show "\<exists>st' L' n. ?ensure = Some (st', L', None) \<and>
      st' = fold lx_workers [0..<n] lx_store \<and> st' ''turn'' = Some L' \<and> lg_Limits L' = lx_limits"
    unfolding Let_def by blast
qed

text \<open>C33: A call of the coordinator on the in-memory store, \<open>Reserve\<close> included, ends as soon as in one round no other
  worker writes between its load and its save: the retry loop has then returned.\<close>

theorem coordinator_call_returns:
  assumes "store_good st" and "interference env" and "\<forall>st. env n st = st"
  shows "\<exists>r. co_call op (Some memory_ledger) cxs env scopeID st = Some r"
proof (cases "is_reserve op")
  case True
  then obtain v act where op: "op = OpReserve v act" by (cases op) auto
  have "mem_ledger.total_change (reserve_change act)"
    unfolding mem_ledger.total_change_def using reserve_total by fastforce
  from mem_ledger.loop_returns [OF interference_rely [OF assms(2)] this assms(1), of scopeID n 0 cxs "(v, None)"] assms(3)
  obtain r where r: "update_loop memory_ledger cxs env scopeID (reserve_change act) 0 (v, None) st = Some r" by auto
  then show ?thesis by (cases r) (simp add: op co_Reserve_def)
next
  case False
  show ?thesis
  proof (cases "op_pre op")
    case pre: True
    from mem_ledger.loop_returns [OF interference_rely [OF assms(2)] op_total_change [OF pre] assms(1), of scopeID n 0 cxs "()"] assms(3)
    show ?thesis by (auto simp: co_call_update [OF False pre] update_def)
  qed (use co_call_refused [OF False, of "Some memory_ledger"] in fastforce)
qed

theorem coordinator_call_returns_witness:
  "\<exists>r. co_call (OpReserve (lx_request ''model:1'' ''a'' 2) True) (Some memory_ledger) (\<lambda>_. None) lx_other ''turn''
     [''turn'' \<mapsto> new_ledger ''turn'' lx_limits] = Some r"
proof -
  have "\<forall>st. lx_other 1 st = st" by (simp add: lx_other_def split: option.splits)
  from coordinator_call_returns [OF lx_store_good lx_other_interference this] show ?thesis .
qed

end
