(* ===== verification/Run_Relation.thy ===== *)
theory Run_Relation
  imports Go_Util "HOL-Library.Product_Lexorder"
begin

text \<open>
  Ownership of child runs: \<open>runrelation/runrelation.go\<close> (normalisation, the deterministic order and
  the registry over an arbitrary store) and the in-memory store of \<open>memory/runrelation.go\<close> with
  its index of child IDs for bounded recovery scans.

  The Go map \<open>byChild\<close>, which the code iterates over, is an association list with distinct keys
  whose order stands for the unspecified iteration order; the maps it only looks up are partial
  maps. Every method holds the mutex, so it is one function of the store. Methods are modelled on
  non-nil receivers; the zero time is 0.
\<close>

datatype relation_error = RErrInvalidInput | RErrConflict | RErrNotFound | RErrStore string

record Draft =
  dr_ParentRunID :: string
  dr_ChildRunID :: string
  dr_Kind :: string
  dr_OwnerNodeID :: string

record Relation =
  rl_ParentRunID :: string
  rl_ChildRunID :: string
  rl_Kind :: string
  rl_OwnerNodeID :: string
  rl_CreatedAt :: time

record ReconciliationCandidate =
  rc_Relation :: Relation
  rc_LastParentRevision :: u64
  rc_LastChildRevision :: u64

record ReconciliationPage =
  rp_Candidates :: "ReconciliationCandidate list"
  rp_NextCursor :: string
  rp_HasMore :: bool

subsection \<open>Relations\<close>

definition validKind :: "string \<Rightarrow> bool" where
  "validKind kind \<longleftrightarrow> kind = ''team_member'' \<or> kind = ''group_chat_speaker'' \<or> kind = ''workflow_effect'' \<or>
     kind = ''delegation'' \<or> kind = ''capability''"

definition Prepare :: "Relation \<Rightarrow> relation_error + Relation" where
  "Prepare relation =
     (let r = relation\<lparr>rl_ParentRunID := trim_space (rl_ParentRunID relation), rl_ChildRunID := trim_space (rl_ChildRunID relation),
                rl_Kind := trim_space (rl_Kind relation), rl_OwnerNodeID := trim_space (rl_OwnerNodeID relation)\<rparr>
      in if rl_ParentRunID r = [] \<or> rl_ChildRunID r = [] \<or> rl_ParentRunID r = rl_ChildRunID r \<or>
            rl_OwnerNodeID r = [] \<or> rl_CreatedAt r = 0 \<or> \<not> validKind (rl_Kind r)
         then Inl RErrInvalidInput else Inr r)"

definition EqualIdentity :: "Relation \<Rightarrow> Relation \<Rightarrow> bool" where
  "EqualIdentity left right \<longleftrightarrow>
     rl_ParentRunID left = rl_ParentRunID right \<and> rl_ChildRunID left = rl_ChildRunID right \<and>
     rl_Kind left = rl_Kind right \<and> rl_OwnerNodeID left = rl_OwnerNodeID right"

text \<open>The order of \<open>Sort\<close>: the time of creation, then the kind, the owner node and the child.\<close>

definition relation_key :: "Relation \<Rightarrow> time \<times> string \<times> string \<times> string" where
  "relation_key r = (rl_CreatedAt r, rl_Kind r, rl_OwnerNodeID r, rl_ChildRunID r)"

definition Sort :: "Relation list \<Rightarrow> Relation list" where
  "Sort items = sort_key relation_key items"

subsection \<open>The registry\<close>

record 's relation_port =
  pt_Put :: "Relation \<Rightarrow> 's \<Rightarrow> 's \<times> (relation_error + Relation \<times> bool)"
  pt_GetByChild :: "string \<Rightarrow> 's \<Rightarrow> relation_error + Relation"
  pt_ListChildren :: "string \<Rightarrow> 's \<Rightarrow> relation_error + Relation list"
  pt_ListAll :: "'s \<Rightarrow> relation_error + Relation list"

definition reg_Ensure :: "'s relation_port \<Rightarrow> time \<Rightarrow> Draft \<Rightarrow> 's \<Rightarrow> 's \<times> (relation_error + Relation)" where
  "reg_Ensure port now draft st =
     (case Prepare \<lparr>rl_ParentRunID = dr_ParentRunID draft, rl_ChildRunID = dr_ChildRunID draft, rl_Kind = dr_Kind draft,
                    rl_OwnerNodeID = dr_OwnerNodeID draft, rl_CreatedAt = now\<rparr> of
        Inl e \<Rightarrow> (st, Inl e)
      | Inr relation \<Rightarrow> map_prod (\<lambda>s. s) (map_sum (\<lambda>e. e) fst) (pt_Put port relation st))"

definition reg_GetByChild :: "'s relation_port \<Rightarrow> string \<Rightarrow> 's \<Rightarrow> relation_error + Relation" where
  "reg_GetByChild port childRunID st = pt_GetByChild port (trim_space childRunID) st"

definition reg_ListChildren :: "'s relation_port \<Rightarrow> string \<Rightarrow> 's \<Rightarrow> relation_error + Relation list" where
  "reg_ListChildren port parentRunID st = map_sum (\<lambda>e. e) Sort (pt_ListChildren port (trim_space parentRunID) st)"

definition reg_ListAll :: "'s relation_port \<Rightarrow> 's \<Rightarrow> relation_error + Relation list" where
  "reg_ListAll port st = map_sum (\<lambda>e. e) Sort (pt_ListAll port st)"

subsection \<open>Binary search\<close>

text \<open>\<open>sort.Search\<close>: the loop over \<open>i\<close> and \<open>j\<close>.\<close>

function search_loop :: "(nat \<Rightarrow> bool) \<Rightarrow> nat \<Rightarrow> nat \<Rightarrow> nat" where
  "search_loop f i j =
     (if i < j then let h = (i + j) div 2 in if \<not> f h then search_loop f (h + 1) j else search_loop f i h else i)"
  by pat_completeness auto
termination
  by (relation "measure (\<lambda>(f, i, j). j - i)") auto

declare search_loop.simps [simp del]

definition go_Search :: "nat \<Rightarrow> (nat \<Rightarrow> bool) \<Rightarrow> nat" where
  "go_Search n f = search_loop f 0 n"

definition SearchStrings :: "string list \<Rightarrow> string \<Rightarrow> nat" where
  "SearchStrings a x = go_Search (length a) (\<lambda>i. x \<le> a ! i)"

subsection \<open>The in-memory store\<close>

record reconciliationProgress =
  pg_parentRevision :: u64
  pg_childRevision :: u64

record RunRelationStore =
  rr_byChild :: "(string \<times> Relation) list"
  rr_byOwner :: "string \<rightharpoonup> string"
  rr_childIDs :: "string list"
  rr_reconciled :: "string \<rightharpoonup> reconciliationProgress"

definition NewRunRelationStore :: RunRelationStore where
  "NewRunRelationStore = \<lparr>rr_byChild = [], rr_byOwner = Map.empty, rr_childIDs = [], rr_reconciled = Map.empty\<rparr>"

text \<open>The zero values a Go map yields for a missing key.\<close>

definition zero_relation :: Relation where
  "zero_relation = \<lparr>rl_ParentRunID = [], rl_ChildRunID = [], rl_Kind = [], rl_OwnerNodeID = [], rl_CreatedAt = 0\<rparr>"

definition child_of :: "RunRelationStore \<Rightarrow> string \<Rightarrow> Relation" where
  "child_of store k = (case map_of (rr_byChild store) k of None \<Rightarrow> zero_relation | Some r \<Rightarrow> r)"

definition progress_of :: "RunRelationStore \<Rightarrow> string \<Rightarrow> reconciliationProgress" where
  "progress_of store k = (case rr_reconciled store k of None \<Rightarrow> \<lparr>pg_parentRevision = 0, pg_childRevision = 0\<rparr> | Some p \<Rightarrow> p)"

definition runRelationOwnerKey :: "Relation \<Rightarrow> string" where
  "runRelationOwnerKey r = rl_ParentRunID r @ [CHR 0x00] @ rl_Kind r @ [CHR 0x00] @ rl_OwnerNodeID r"

text \<open>\<open>append\<close>, \<open>copy\<close> and the assignment at \<open>index\<close> insert the new ID there.\<close>

definition Put :: "Relation \<Rightarrow> RunRelationStore \<Rightarrow> RunRelationStore \<times> (relation_error + Relation \<times> bool)" where
  "Put relation0 store =
     (case Prepare relation0 of
        Inl e \<Rightarrow> (store, Inl RErrInvalidInput)
      | Inr relation \<Rightarrow>
          let ownerKey = runRelationOwnerKey relation; childRunID = rl_ChildRunID relation in
          case rr_byOwner store ownerKey of
            Some owned \<Rightarrow>
              let existing = child_of store owned in
              if EqualIdentity existing relation then (store, Inr (existing, True)) else (store, Inl RErrConflict)
          | None \<Rightarrow>
              (case map_of (rr_byChild store) childRunID of
                 Some existing \<Rightarrow>
                   if EqualIdentity existing relation then (store, Inr (existing, True)) else (store, Inl RErrConflict)
               | None \<Rightarrow>
                   let index = SearchStrings (rr_childIDs store) childRunID in
                   (store\<lparr>rr_byChild := AList.update childRunID relation (rr_byChild store),
                          rr_byOwner := (rr_byOwner store)(ownerKey \<mapsto> childRunID),
                          rr_childIDs := take index (rr_childIDs store) @ [childRunID] @ drop index (rr_childIDs store)\<rparr>,
                    Inr (relation, False))))"

definition GetByChild :: "string \<Rightarrow> RunRelationStore \<Rightarrow> relation_error + Relation" where
  "GetByChild childRunID store =
     (case map_of (rr_byChild store) (trim_space childRunID) of None \<Rightarrow> Inl RErrNotFound | Some r \<Rightarrow> Inr r)"

definition ListChildren :: "string \<Rightarrow> RunRelationStore \<Rightarrow> relation_error + Relation list" where
  "ListChildren parentRunID store =
     (let p = trim_space parentRunID in
      if p = [] then Inl RErrInvalidInput
      else Inr (Sort (filter (\<lambda>r. rl_ParentRunID r = p) (map snd (rr_byChild store)))))"

definition ListAll :: "RunRelationStore \<Rightarrow> relation_error + Relation list" where
  "ListAll store = Inr (Sort (map snd (rr_byChild store)))"

definition MaxReconcilePageSize :: int where
  "MaxReconcilePageSize = 128"

definition candidate :: "RunRelationStore \<Rightarrow> string \<Rightarrow> ReconciliationCandidate" where
  "candidate store k = \<lparr>rc_Relation = child_of store k, rc_LastParentRevision = pg_parentRevision (progress_of store k),
     rc_LastChildRevision = pg_childRevision (progress_of store k)\<rparr>"

definition ListReconcilePage :: "string \<Rightarrow> int \<Rightarrow> RunRelationStore \<Rightarrow> relation_error + ReconciliationPage" where
  "ListReconcilePage afterChildRunID limit store =
     (if limit \<le> 0 \<or> MaxReconcilePageSize < limit then Inl RErrInvalidInput
      else
        let ids = rr_childIDs store;
            start = go_Search (length ids) (\<lambda>i. afterChildRunID < ids ! i);
            stop = min (start + nat limit) (length ids);
            page = take (stop - start) (drop start ids) in
        Inr \<lparr>rp_Candidates = map (candidate store) page,
             rp_NextCursor = (if page = [] then afterChildRunID else last page),
             rp_HasMore = (stop < length ids)\<rparr>)"

definition ListReconcileCandidates :: "string \<Rightarrow> int \<Rightarrow> RunRelationStore \<Rightarrow> relation_error + ReconciliationCandidate list" where
  "ListReconcileCandidates afterChildRunID limit store = map_sum (\<lambda>e. e) rp_Candidates (ListReconcilePage afterChildRunID limit store)"

definition MarkEnqueued :: "string \<Rightarrow> u64 \<Rightarrow> u64 \<Rightarrow> RunRelationStore \<Rightarrow> RunRelationStore \<times> relation_error option" where
  "MarkEnqueued childRunID parentRevision childRevision store =
     (let k = trim_space childRunID in
      if k = [] \<or> parentRevision = 0 \<or> childRevision = 0 then (store, Some RErrInvalidInput)
      else if map_of (rr_byChild store) k = None then (store, Some RErrNotFound)
      else
        let p = progress_of store k;
            p1 = (if pg_parentRevision p < parentRevision then p\<lparr>pg_parentRevision := parentRevision\<rparr> else p);
            p2 = (if pg_childRevision p1 < childRevision then p1\<lparr>pg_childRevision := childRevision\<rparr> else p1) in
        (store\<lparr>rr_reconciled := (rr_reconciled store)(k \<mapsto> p2)\<rparr>, None))"

definition MarkObserved :: "string \<Rightarrow> u64 \<Rightarrow> u64 \<Rightarrow> RunRelationStore \<Rightarrow> RunRelationStore \<times> relation_error option" where
  "MarkObserved childRunID parentRevision childRevision store = MarkEnqueued childRunID parentRevision childRevision store"

definition memory_relations :: "RunRelationStore relation_port" where
  "memory_relations = \<lparr>pt_Put = Put, pt_GetByChild = GetByChild, pt_ListChildren = ListChildren, pt_ListAll = ListAll\<rparr>"

end
