(* ===== verification/Run_Relation_Properties.thy ===== *)
theory Run_Relation_Properties
  imports Run_Relation
begin

text \<open>
  What the run relations promise: the binary search finds the first position, the invariant of the
  in-memory store, the contract \<open>relation_store\<close> of the registry with its interpretation on that
  store, and the properties of ownership and of the recovery scan.
\<close>

subsection \<open>Binary search\<close>

lemma search_loop_first:
  assumes "i \<le> j" and "\<forall>x<i. \<not> f x" and "\<forall>x\<ge>j. x < n \<longrightarrow> f x" and "j \<le> n"
    and mono: "\<And>x y. x \<le> y \<Longrightarrow> y < n \<Longrightarrow> f x \<Longrightarrow> f y"
  shows "search_loop f i j \<le> n \<and> (\<forall>x < search_loop f i j. \<not> f x) \<and> (\<forall>x \<ge> search_loop f i j. x < n \<longrightarrow> f x)"
  using assms(1-4)
proof (induction "j - i" arbitrary: i j rule: less_induct)
  case less
  note eq = search_loop.simps [of f i j]
  show ?case
  proof (cases "i < j")
    case False
    then have "search_loop f i j = i" unfolding eq by (rule if_not_P)
    moreover have "i = j" using False less.prems(1) by simp
    ultimately show ?thesis using less.prems by simp
  next
    case True
    define h where "h = (i + j) div 2"
    have h: "i \<le> h" "h < j" "h < n" using True less.prems(4) by (auto simp: h_def)
    show ?thesis
    proof (cases "f h")
      case hit: True
      then have go: "search_loop f i j = search_loop f i h" using True by (simp add: eq Let_def flip: h_def)
      have up: "\<forall>x\<ge>h. x < n \<longrightarrow> f x" by (intro allI impI) (rule mono [OF _ _ hit])
      have "h - i < j - i" using h by arith
      then show ?thesis unfolding go by (rule less.hyps [OF _ h(1) less.prems(2) up less_imp_le [OF h(3)]])
    next
      case miss: False
      then have go: "search_loop f i j = search_loop f (h + 1) j" using True by (simp add: eq Let_def flip: h_def)
      have down: "\<forall>x<h + 1. \<not> f x"
      proof (intro allI impI notI)
        fix x
        assume "x < h + 1" "f x"
        then have "f h" by (intro mono [of x h]) (use h(3) in simp_all)
        then show False using miss by simp
      qed
      have "j - (h + 1) < j - i" "h + 1 \<le> j" using h by arith+
      then show ?thesis unfolding go by (rule less.hyps [OF _ _ down less.prems(3,4)])
    qed
  qed
qed

lemma go_Search_first:
  assumes "\<And>x y. x \<le> y \<Longrightarrow> y < n \<Longrightarrow> f x \<Longrightarrow> f y"
  shows "go_Search n f \<le> n" "x < go_Search n f \<Longrightarrow> \<not> f x" "go_Search n f \<le> x \<Longrightarrow> x < n \<Longrightarrow> f x"
proof -
  have "search_loop f 0 n \<le> n \<and> (\<forall>x < search_loop f 0 n. \<not> f x) \<and> (\<forall>x \<ge> search_loop f 0 n. x < n \<longrightarrow> f x)"
    by (rule search_loop_first [OF _ _ _ _ assms]) simp_all
  then show "go_Search n f \<le> n" "x < go_Search n f \<Longrightarrow> \<not> f x" "go_Search n f \<le> x \<Longrightarrow> x < n \<Longrightarrow> f x"
    unfolding go_Search_def by blast+
qed

text \<open>On a sorted list a search for an upward closed predicate splits the list by that predicate.\<close>

lemma search_split:
  assumes "sorted ids" and up: "\<And>x y. x \<le> y \<Longrightarrow> P x \<Longrightarrow> P y"
  shows "take (go_Search (length ids) (\<lambda>i. P (ids ! i))) ids = filter (\<lambda>x. \<not> P x) ids"
    and "drop (go_Search (length ids) (\<lambda>i. P (ids ! i))) ids = filter P ids"
proof -
  define s where "s = go_Search (length ids) (\<lambda>i. P (ids ! i))"
  have mono: "P (ids ! y)" if "x \<le> y" "y < length ids" "P (ids ! x)" for x y
    using up [OF sorted_nth_mono [OF assms(1) that(1,2)] that(3)] .
  note first = go_Search_first [of "length ids" "\<lambda>i. P (ids ! i)", OF mono, folded s_def]
  have t: "\<forall>x\<in>set (take s ids). \<not> P x" using first(2) by (auto simp: in_set_conv_nth)
  have d: "\<forall>x\<in>set (drop s ids). P x" using first(1,3) by (auto simp: in_set_conv_nth)
  have "filter (\<lambda>x. \<not> P x) (take s ids @ drop s ids) = take s ids" "filter P (take s ids @ drop s ids) = drop s ids"
    using t d by (auto simp: filter_empty_conv simp del: append_take_drop_id intro!: filter_True)
  then show "take (go_Search (length ids) (\<lambda>i. P (ids ! i))) ids = filter (\<lambda>x. \<not> P x) ids"
    and "drop (go_Search (length ids) (\<lambda>i. P (ids ! i))) ids = filter P ids" by (simp_all add: s_def)
qed

subsection \<open>The invariant of the store\<close>

definition prepared :: "Relation \<Rightarrow> bool" where
  "prepared r \<longleftrightarrow> Prepare r = Inr r"

lemma Prepare_prepared: "Prepare r = Inr r' \<Longrightarrow> prepared r'"
  by (auto simp: prepared_def Prepare_def Let_def split: if_splits)

lemma preparedD:
  "prepared r \<Longrightarrow> rl_ChildRunID r \<noteq> []" "prepared r \<Longrightarrow> trim_space (rl_ChildRunID r) = rl_ChildRunID r"
  by (cases r; auto simp: prepared_def Prepare_def Let_def split: if_splits)+

definition relations_inv :: "RunRelationStore \<Rightarrow> bool" where
  "relations_inv store \<longleftrightarrow>
     distinct (map fst (rr_byChild store)) \<and>
     (\<forall>k r. map_of (rr_byChild store) k = Some r \<longrightarrow> rl_ChildRunID r = k \<and> prepared r) \<and>
     (\<forall>ow k. rr_byOwner store ow = Some k \<longleftrightarrow> (\<exists>r. map_of (rr_byChild store) k = Some r \<and> runRelationOwnerKey r = ow)) \<and>
     sorted (rr_childIDs store) \<and> distinct (rr_childIDs store) \<and>
     set (rr_childIDs store) = dom (map_of (rr_byChild store))"

lemma relations_invD:
  assumes "relations_inv store"
  shows "distinct (map fst (rr_byChild store))"
    and "map_of (rr_byChild store) k = Some r \<Longrightarrow> rl_ChildRunID r = k \<and> prepared r"
    and "rr_byOwner store ow = Some k \<longleftrightarrow> (\<exists>r. map_of (rr_byChild store) k = Some r \<and> runRelationOwnerKey r = ow)"
    and "sorted (rr_childIDs store)" and "distinct (rr_childIDs store)" and "set (rr_childIDs store) = dom (map_of (rr_byChild store))"
  using assms by (simp_all add: relations_inv_def del: map_of_eq_Some_iff)

lemma new_relations_inv: "relations_inv NewRunRelationStore"
  by (simp add: relations_inv_def NewRunRelationStore_def)

text \<open>The outcomes of \<open>Put\<close> for a prepared relation.\<close>

lemma EqualIdentity_owner: "EqualIdentity q r \<Longrightarrow> runRelationOwnerKey q = runRelationOwnerKey r \<and> rl_ChildRunID q = rl_ChildRunID r"
  by (simp add: EqualIdentity_def runRelationOwnerKey_def)

lemma ownerI:
  assumes "relations_inv store" and "map_of (rr_byChild store) k = Some r"
  shows "rr_byOwner store (runRelationOwnerKey r) = Some k"
  unfolding relations_invD(3) [OF assms(1)] using assms(2) by (intro exI [of _ r]) simp

lemma ownerE:
  assumes "relations_inv store" and "rr_byOwner store ow = Some k"
  obtains r where "map_of (rr_byChild store) k = Some r" "runRelationOwnerKey r = ow" "rl_ChildRunID r = k"
  using assms(2) relations_invD(2) [OF assms(1)] unfolding relations_invD(3) [OF assms(1)] by blast

lemma Put_existing:
  assumes inv: "relations_inv store" and r: "Prepare r0 = Inr r" and q: "map_of (rr_byChild store) (rl_ChildRunID r) = Some q"
  shows "Put r0 store = (store, if EqualIdentity q r then Inr (q, True) else Inl RErrConflict)"
proof (cases "rr_byOwner store (runRelationOwnerKey r)")
  case None
  then show ?thesis using r q by (simp add: Put_def Let_def del: map_of_eq_Some_iff)
next
  case (Some k)
  then obtain p where p: "map_of (rr_byChild store) k = Some p" "rl_ChildRunID p = k" using ownerE [OF inv] by blast
  have "p = q" if "EqualIdentity q r"
  proof -
    have "rr_byOwner store (runRelationOwnerKey r) = Some (rl_ChildRunID r)"
      using ownerI [OF inv q] EqualIdentity_owner [OF that] by simp
    then show ?thesis using Some p(1) q by simp
  qed
  moreover have "p = q" if "EqualIdentity p r" using EqualIdentity_owner [OF that] p q by simp
  ultimately have "EqualIdentity p r \<longleftrightarrow> EqualIdentity q r" "EqualIdentity q r \<Longrightarrow> p = q" by blast+
  moreover have "Put r0 store = (store, if EqualIdentity p r then Inr (p, True) else Inl RErrConflict)"
    using r Some p(1) by (simp add: Put_def Let_def child_of_def del: map_of_eq_Some_iff)
  ultimately show ?thesis by simp
qed

lemma Put_owned:
  assumes inv: "relations_inv store" and r: "Prepare r0 = Inr r" and new: "map_of (rr_byChild store) (rl_ChildRunID r) = None"
    and k: "rr_byOwner store (runRelationOwnerKey r) = Some k"
  shows "Put r0 store = (store, Inl RErrConflict)"
proof -
  obtain p where p: "map_of (rr_byChild store) k = Some p" "rl_ChildRunID p = k" using ownerE [OF inv k] by blast
  have "\<not> EqualIdentity p r"
  proof
    assume "EqualIdentity p r"
    then show False using EqualIdentity_owner [of p r] p new by simp
  qed
  then show ?thesis using r k p(1) by (simp add: Put_def Let_def child_of_def del: map_of_eq_Some_iff)
qed

definition added :: "Relation \<Rightarrow> RunRelationStore \<Rightarrow> RunRelationStore" where
  "added r store = store\<lparr>rr_byChild := AList.update (rl_ChildRunID r) r (rr_byChild store),
     rr_byOwner := (rr_byOwner store)(runRelationOwnerKey r \<mapsto> rl_ChildRunID r),
     rr_childIDs := insort (rl_ChildRunID r) (rr_childIDs store)\<rparr>"

lemma insort_filter: "sorted ids \<Longrightarrow> insort x ids = filter (\<lambda>y. \<not> x \<le> y) ids @ [x] @ filter (\<lambda>y. x \<le> y) ids"
proof (induction ids)
  case (Cons a ids)
  show ?case
  proof (cases "x \<le> a")
    case True
    then have "\<forall>y\<in>set (a # ids). x \<le> y" using Cons.prems by auto
    then have "filter (\<lambda>y. \<not> x \<le> y) (a # ids) = []" "filter (\<lambda>y. x \<le> y) (a # ids) = a # ids"
      by (simp_all only: filter_False filter_True not_not simp_thms)
    then show ?thesis using True by (simp only: insort_key.simps) simp
  qed (use Cons in simp)
qed simp

lemma Put_new:
  assumes inv: "relations_inv store" and r: "Prepare r0 = Inr r" and "map_of (rr_byChild store) (rl_ChildRunID r) = None"
    and "rr_byOwner store (runRelationOwnerKey r) = None"
  shows "Put r0 store = (added r store, Inr (r, False))"
proof -
  let ?ids = "rr_childIDs store" and ?x = "rl_ChildRunID r"
  have "take (SearchStrings ?ids ?x) ?ids @ [?x] @ drop (SearchStrings ?ids ?x) ?ids = insort ?x ?ids"
    unfolding SearchStrings_def insort_filter [OF relations_invD(4) [OF inv]]
    using search_split [OF relations_invD(4) [OF inv], of "\<lambda>y. ?x \<le> y"] by auto
  then show ?thesis using assms(2-4) by (simp add: Put_def Let_def added_def)
qed

lemma added_inv:
  assumes inv: "relations_inv store" and "prepared r" and new: "map_of (rr_byChild store) (rl_ChildRunID r) = None"
    and own: "rr_byOwner store (runRelationOwnerKey r) = None"
  shows "relations_inv (added r store)"
proof -
  have "rr_byOwner (added r store) ow = Some k \<longleftrightarrow>
      (\<exists>q. map_of (rr_byChild (added r store)) k = Some q \<and> runRelationOwnerKey q = ow)" for ow k
  proof (cases "k = rl_ChildRunID r")
    case True
    then have "rr_byOwner store ow \<noteq> Some k" using new ownerE [OF inv, of ow k] by fastforce
    then show ?thesis using True by (auto simp: added_def update_conv')
  next
    case False
    have "rr_byOwner store ow = Some k \<Longrightarrow> ow \<noteq> runRelationOwnerKey r" using own by auto
    then show ?thesis using False relations_invD(3) [OF inv, of ow k]
      by (auto simp: added_def update_conv' simp del: map_of_eq_Some_iff)
  qed
  moreover have "rl_ChildRunID r \<notin> set (rr_childIDs store)" using relations_invD(6) [OF inv] new by auto
  ultimately show ?thesis using assms(2) relations_invD(1,2,4,5,6) [OF inv] unfolding relations_inv_def
    by (auto simp: added_def update_conv' distinct_update sorted_insort distinct_insort set_insort_key simp del: map_of_eq_Some_iff)
qed

subsection \<open>Drafts\<close>

definition draft_relation :: "time \<Rightarrow> Draft \<Rightarrow> relation_error + Relation" where
  "draft_relation now d = Prepare \<lparr>rl_ParentRunID = dr_ParentRunID d, rl_ChildRunID = dr_ChildRunID d, rl_Kind = dr_Kind d,
     rl_OwnerNodeID = dr_OwnerNodeID d, rl_CreatedAt = now\<rparr>"

lemma draft_prepared:
  assumes "draft_relation now d = Inr r"
  shows "Prepare r = Inr r" and "rl_ChildRunID r = trim_space (dr_ChildRunID d)"
  using Prepare_prepared [of _ r] assms
  by (auto simp: draft_relation_def prepared_def) (auto simp: Prepare_def Let_def split: if_splits)

lemma draft_time: "draft_relation now d = Inr r \<Longrightarrow> now' \<noteq> 0 \<Longrightarrow> draft_relation now' d = Inr (r\<lparr>rl_CreatedAt := now'\<rparr>)"
  by (auto simp: draft_relation_def Prepare_def Let_def split: if_splits)

lemma map_sum_Inr: "map_sum f g x = Inr y \<Longrightarrow> (\<And>z. x = Inr z \<Longrightarrow> y = g z \<Longrightarrow> R) \<Longrightarrow> R"
  by (cases x) auto

subsection \<open>The contract of a relation store\<close>

text \<open>What the registry relies on: \<open>facts\<close> are the stored relations by child; a put never changes or removes one,
  an accepted put has its relation stored, and a put of a stored identity returns the stored relation.\<close>

locale relation_store =
  fixes port :: "'s relation_port" and ok :: "'s \<Rightarrow> bool" and facts :: "'s \<Rightarrow> string \<Rightarrow> Relation option"
  assumes get: "ok st \<Longrightarrow> pt_GetByChild port k st = (case facts st (trim_space k) of None \<Rightarrow> Inl RErrNotFound | Some r \<Rightarrow> Inr r)"
    and put_ok: "ok st \<Longrightarrow> pt_Put port r st = (st', out) \<Longrightarrow> ok st' \<and> facts st \<subseteq>\<^sub>m facts st'"
    and put_stored: "ok st \<Longrightarrow> Prepare r0 = Inr r \<Longrightarrow> pt_Put port r0 st = (st', Inr (q, reused)) \<Longrightarrow>
      facts st' (rl_ChildRunID r) = Some q \<and> EqualIdentity q r"
    and put_again: "ok st \<Longrightarrow> Prepare r0 = Inr r \<Longrightarrow> facts st (rl_ChildRunID r) = Some q \<Longrightarrow>
      pt_Put port r0 st = (st, if EqualIdentity q r then Inr (q, True) else Inl RErrConflict)"
    and list_all: "ok st \<Longrightarrow> pt_ListAll port st = Inr rs \<Longrightarrow> set rs = ran (facts st) \<and> distinct rs"
begin

lemma ensure_stored:
  assumes "ok st" and call: "reg_Ensure port now d st = (st', Inr q)"
  shows "ok st' \<and> facts st \<subseteq>\<^sub>m facts st' \<and> facts st' (trim_space (dr_ChildRunID d)) = Some q"
proof -
  from call obtain r reused where r: "draft_relation now d = Inr r" "pt_Put port r st = (st', Inr (q, reused))"
    by (auto simp: reg_Ensure_def draft_relation_def map_prod_def split: sum.splits prod.splits elim!: map_sum_Inr)
  note p = draft_prepared [OF r(1)]
  show ?thesis using put_ok [OF assms(1) r(2)] put_stored [OF assms(1) p(1) r(2)] p(2) by simp
qed

lemma ensure_kept:
  assumes "ok st" and "reg_Ensure port now d st = (st', out)"
  shows "ok st' \<and> facts st \<subseteq>\<^sub>m facts st'"
  using assms put_ok [OF assms(1)] by (auto simp: reg_Ensure_def map_prod_def split: sum.splits prod.splits)

lemma ensure_again:
  assumes "ok st" and call: "reg_Ensure port now d st = (st', Inr q)" and "ok later" and "facts st' \<subseteq>\<^sub>m facts later" and "now' \<noteq> 0"
  shows "reg_Ensure port now' d later = (later, Inr q)"
proof -
  from call obtain r reused where r: "draft_relation now d = Inr r" "pt_Put port r st = (st', Inr (q, reused))"
    by (auto simp: reg_Ensure_def draft_relation_def map_prod_def split: sum.splits prod.splits elim!: map_sum_Inr)
  note p = draft_prepared [OF r(1)]
  have r': "draft_relation now' d = Inr (r\<lparr>rl_CreatedAt := now'\<rparr>)" using draft_time [OF r(1) assms(5)] .
  note p' = draft_prepared [OF r']
  have q: "facts st' (rl_ChildRunID r) = Some q" "EqualIdentity q r" using put_stored [OF assms(1) p(1) r(2)] by simp_all
  then have "facts later (rl_ChildRunID (r\<lparr>rl_CreatedAt := now'\<rparr>)) = Some q" using assms(4) by (auto simp: map_le_def dom_def)
  from put_again [OF assms(3) p'(1) this] q(2) r' show ?thesis
    by (simp add: reg_Ensure_def draft_relation_def EqualIdentity_def)
qed

end

subsection \<open>The in-memory store keeps the contract\<close>

lemma Put_cases:
  assumes inv: "relations_inv store" and "Prepare r0 = Inr r"
  obtains (old) q where "map_of (rr_byChild store) (rl_ChildRunID r) = Some q"
      "Put r0 store = (store, if EqualIdentity q r then Inr (q, True) else Inl RErrConflict)"
  | (owned) k where "map_of (rr_byChild store) (rl_ChildRunID r) = None" "rr_byOwner store (runRelationOwnerKey r) = Some k"
      "Put r0 store = (store, Inl RErrConflict)"
  | (new) "map_of (rr_byChild store) (rl_ChildRunID r) = None" "rr_byOwner store (runRelationOwnerKey r) = None"
      "Put r0 store = (added r store, Inr (r, False))"
proof (cases "map_of (rr_byChild store) (rl_ChildRunID r)")
  case (Some q)
  then show ?thesis using Put_existing [OF assms] old by blast
next
  case None
  show ?thesis
  proof (cases "rr_byOwner store (runRelationOwnerKey r)")
    case (Some k)
    then show ?thesis using Put_owned [OF assms None] None owned by blast
  next
    case none: None
    then show ?thesis using Put_new [OF assms None] None new by blast
  qed
qed

lemma EqualIdentity_refl [simp]: "EqualIdentity r r"
  by (simp add: EqualIdentity_def)

lemma Put_inv:
  assumes "relations_inv store"
  shows "relations_inv (fst (Put r0 store)) \<and> map_of (rr_byChild store) \<subseteq>\<^sub>m map_of (rr_byChild (fst (Put r0 store))) \<and>
    rr_reconciled (fst (Put r0 store)) = rr_reconciled store"
proof (cases "Prepare r0")
  case (Inl e)
  then show ?thesis using assms by (simp add: Put_def)
next
  case (Inr r)
  from assms Inr show ?thesis
  proof (cases rule: Put_cases)
    case new
    then have "map_of (rr_byChild store) \<subseteq>\<^sub>m map_of (rr_byChild (added r store))"
      by (auto simp: map_le_def added_def update_conv')
    then show ?thesis using added_inv [OF assms Prepare_prepared [OF Inr] new(1,2)] new(3) by (simp add: added_def)
  qed (use assms in simp_all)
qed

lemma map_snd_distinct:
  assumes "relations_inv store"
  shows "distinct (map snd (rr_byChild store))" "snd ` set (rr_byChild store) = ran (map_of (rr_byChild store))"
proof -
  note d = relations_invD(1) [OF assms]
  have k: "rl_ChildRunID r = k" if "(k, r) \<in> set (rr_byChild store)" for k r
    using that d relations_invD(2) [OF assms, of k r] by simp
  then have "map rl_ChildRunID (map snd (rr_byChild store)) = map fst (rr_byChild store)" by (auto simp: map_eq_conv)
  then have "distinct (map rl_ChildRunID (map snd (rr_byChild store)))" using d by (simp only:)
  then show "distinct (map snd (rr_byChild store))" unfolding distinct_map [of rl_ChildRunID] by (rule conjunct1)
  show "snd ` set (rr_byChild store) = ran (map_of (rr_byChild store))" using ran_distinct [OF d] by simp
qed

interpretation mem_relations: relation_store memory_relations relations_inv "\<lambda>store. map_of (rr_byChild store)"
proof
  fix st k
  assume "relations_inv st"
  show "pt_GetByChild memory_relations k st =
      (case map_of (rr_byChild st) (trim_space k) of None \<Rightarrow> Inl RErrNotFound | Some r \<Rightarrow> Inr r)"
    by (simp add: memory_relations_def GetByChild_def)
next
  fix st r st' out
  assume "relations_inv st" "pt_Put memory_relations r st = (st', out)"
  then show "relations_inv st' \<and> map_of (rr_byChild st) \<subseteq>\<^sub>m map_of (rr_byChild st')"
    using Put_inv [of st r] by (simp add: memory_relations_def)
next
  fix st r0 r st' q reused
  assume "relations_inv st" "Prepare r0 = Inr r" and put: "pt_Put memory_relations r0 st = (st', Inr (q, reused))"
  then show "map_of (rr_byChild st') (rl_ChildRunID r) = Some q \<and> EqualIdentity q r"
  proof (cases rule: Put_cases)
    case new
    then have "q = r" "st' = added r st" using put by (auto simp: memory_relations_def)
    then show ?thesis by (simp add: added_def update_conv')
  qed (use put in \<open>auto simp: memory_relations_def simp del: map_of_eq_Some_iff split: if_splits\<close>)
next
  fix st r0 r q
  assume "relations_inv st" "Prepare r0 = Inr r" "map_of (rr_byChild st) (rl_ChildRunID r) = Some q"
  then show "pt_Put memory_relations r0 st = (st, if EqualIdentity q r then Inr (q, True) else Inl RErrConflict)"
    using Put_existing by (simp add: memory_relations_def del: map_of_eq_Some_iff)
next
  fix st rs
  assume "relations_inv st" "pt_ListAll memory_relations st = Inr rs"
  then show "set rs = ran (map_of (rr_byChild st)) \<and> distinct rs"
    using map_snd_distinct [of st] by (auto simp: memory_relations_def ListAll_def Sort_def)
qed

subsection \<open>Runs of calls\<close>

datatype relation_call = CallEnsure time Draft | CallEnqueued string u64 u64 | CallObserved string u64 u64

fun rel_step :: "relation_call \<Rightarrow> RunRelationStore \<Rightarrow> RunRelationStore" where
  "rel_step (CallEnsure now d) st = fst (reg_Ensure memory_relations now d st)"
| "rel_step (CallEnqueued k p c) st = fst (MarkEnqueued k p c st)"
| "rel_step (CallObserved k p c) st = fst (MarkObserved k p c st)"

definition after_calls :: "relation_call list \<Rightarrow> RunRelationStore" where
  "after_calls cs = fold rel_step cs NewRunRelationStore"

definition kept :: "RunRelationStore \<Rightarrow> RunRelationStore \<Rightarrow> bool" where
  "kept st st' \<longleftrightarrow> map_of (rr_byChild st) \<subseteq>\<^sub>m map_of (rr_byChild st') \<and>
     (\<forall>k. pg_parentRevision (progress_of st k) \<le> pg_parentRevision (progress_of st' k) \<and>
          pg_childRevision (progress_of st k) \<le> pg_childRevision (progress_of st' k))"

lemma MarkEnqueued_kept:
  assumes "relations_inv st"
  shows "relations_inv (fst (MarkEnqueued k p c st)) \<and> kept st (fst (MarkEnqueued k p c st))"
proof -
  have "relations_inv (st\<lparr>rr_reconciled := m\<rparr>)" for m using assms by (simp add: relations_inv_def)
  then show ?thesis using assms by (auto simp: MarkEnqueued_def Let_def kept_def progress_of_def)
qed

lemma relation_call_kept:
  assumes "relations_inv st"
  shows "relations_inv (rel_step cl st) \<and> kept st (rel_step cl st)"
proof (cases cl)
  case (CallEnsure now d)
  obtain st' out where call: "reg_Ensure memory_relations now d st = (st', out)" by fastforce
  have "rr_reconciled st' = rr_reconciled st"
    using call Put_inv [OF assms] by (auto simp: reg_Ensure_def memory_relations_def map_prod_def split: sum.splits prod.splits)
      (metis fst_conv)
  then show ?thesis using mem_relations.ensure_kept [OF assms call] CallEnsure call by (simp add: kept_def progress_of_def)
qed (use MarkEnqueued_kept [OF assms] in \<open>simp_all add: MarkObserved_def\<close>)

lemma kept_trans: "kept a b \<Longrightarrow> kept b c \<Longrightarrow> kept a c"
  unfolding kept_def by (meson map_le_trans order_trans)

lemma relation_calls_kept:
  "relations_inv st \<Longrightarrow> relations_inv (fold rel_step cs st) \<and> kept st (fold rel_step cs st)"
proof (induction cs arbitrary: st)
  case Nil
  then show ?case by (simp add: kept_def)
next
  case (Cons cl cs)
  then show ?case using relation_call_kept [OF Cons.prems, of cl] kept_trans by fastforce
qed

lemma after_calls_inv: "relations_inv (after_calls cs)"
  using relation_calls_kept [OF new_relations_inv] by (simp add: after_calls_def)

text \<open>C35: Ownership of a child run is permanent: once the registry has accepted a draft, every later store yields the
  accepted relation for the child, a repetition of the draft at any later time returns it again and changes nothing,
  and the progress recorded for a child never goes back, whatever calls come in between.\<close>

theorem relation_is_permanent:
  assumes "reg_Ensure memory_relations now d (after_calls cs) = (st, Inr q)" and "now' \<noteq> 0"
  shows "reg_GetByChild memory_relations (dr_ChildRunID d) (fold rel_step cs' st) = Inr q \<and>
    reg_Ensure memory_relations now' d (fold rel_step cs' st) = (fold rel_step cs' st, Inr q) \<and>
    (\<forall>k. pg_parentRevision (progress_of st k) \<le> pg_parentRevision (progress_of (fold rel_step cs' st) k) \<and>
         pg_childRevision (progress_of st k) \<le> pg_childRevision (progress_of (fold rel_step cs' st) k))"
proof -
  let ?later = "fold rel_step cs' st"
  have st: "relations_inv st" "map_of (rr_byChild st) (trim_space (dr_ChildRunID d)) = Some q"
    using mem_relations.ensure_stored [OF after_calls_inv assms(1)] by simp_all
  have later: "relations_inv ?later" "kept st ?later" using relation_calls_kept [OF st(1)] by simp_all
  then have "map_of (rr_byChild ?later) (trim_space (dr_ChildRunID d)) = Some q"
    using st(2) by (auto simp: kept_def map_le_def dom_def simp del: map_of_eq_Some_iff)
  then have "reg_GetByChild memory_relations (dr_ChildRunID d) ?later = Inr q"
    using mem_relations.get [OF later(1)] by (simp add: reg_GetByChild_def)
  moreover have "reg_Ensure memory_relations now' d ?later = (?later, Inr q)"
    using mem_relations.ensure_again [OF after_calls_inv assms(1) later(1) _ assms(2)] later(2) by (simp add: kept_def)
  ultimately show ?thesis using later(2) by (simp add: kept_def)
qed

definition rx_draft :: "string \<Rightarrow> string \<Rightarrow> Draft" where
  "rx_draft child owner = \<lparr>dr_ParentRunID = ''root'', dr_ChildRunID = child, dr_Kind = ''delegation'', dr_OwnerNodeID = owner\<rparr>"

theorem relation_is_permanent_witness:
  "\<exists>st q. reg_Ensure memory_relations 10 (rx_draft ''b'' ''n1'') (after_calls [CallEnsure 5 (rx_draft ''a'' ''n0'')]) = (st, Inr q) \<and>
     (let later = fold rel_step [CallEnqueued ''b'' 3 4, CallEnsure 20 (rx_draft ''c'' ''n1''), CallObserved ''b'' 2 9] st in
      reg_GetByChild memory_relations ''b'' later = Inr q \<and> reg_Ensure memory_relations 30 (rx_draft ''b'' ''n1'') later = (later, Inr q))"
proof -
  let ?call = "reg_Ensure memory_relations 10 (rx_draft ''b'' ''n1'') (after_calls [CallEnsure 5 (rx_draft ''a'' ''n0'')])"
  have "case ?call of (st, Inr q) \<Rightarrow> True | _ \<Rightarrow> False" by code_simp
  then obtain st q where call: "?call = (st, Inr q)" by (auto split: prod.splits sum.splits)
  have "dr_ChildRunID (rx_draft ''b'' ''n1'') = ''b''" by (simp add: rx_draft_def)
  with relation_is_permanent [OF call, of 30
      "[CallEnqueued ''b'' 3 4, CallEnsure 20 (rx_draft ''c'' ''n1''), CallObserved ''b'' 2 9]"] call
  show ?thesis by (auto simp: Let_def)
qed

text \<open>C36: In every reachable store the relations are well formed (trimmed, non-empty IDs, a declared kind, a child that is
  not its own parent), every owner node of a parent has at most one child of a kind, and the listings are complete:
  \<open>ListAll\<close> and \<open>ListChildren\<close> return exactly the stored relations, each once, in the order of \<open>Sort\<close>.\<close>

theorem one_child_per_owner:
  "let st = after_calls cs; stored = ran (map_of (rr_byChild st)) in
    (\<forall>r\<in>stored. Prepare r = Inr r \<and> reg_GetByChild memory_relations (rl_ChildRunID r) st = Inr r) \<and>
    (\<forall>r\<in>stored. \<forall>q\<in>stored. rl_ParentRunID r = rl_ParentRunID q \<longrightarrow> rl_Kind r = rl_Kind q \<longrightarrow> rl_OwnerNodeID r = rl_OwnerNodeID q \<longrightarrow> r = q) \<and>
    (\<exists>rs. reg_ListAll memory_relations st = Inr rs \<and> set rs = stored \<and> distinct rs \<and> sorted (map relation_key rs)) \<and>
    (\<forall>p. \<not> blank p \<longrightarrow> (\<exists>rs. reg_ListChildren memory_relations p st = Inr rs \<and>
       set rs = {r \<in> stored. rl_ParentRunID r = trim_space p} \<and> distinct rs \<and> sorted (map relation_key rs)))"
proof -
  define st where "st = after_calls cs"
  have inv: "relations_inv st" using after_calls_inv by (simp add: st_def)
  define stored where "stored = ran (map_of (rr_byChild st))"
  have wf: "map_of (rr_byChild st) (rl_ChildRunID r) = Some r \<and> prepared r" if "r \<in> stored" for r
    using that relations_invD(2) [OF inv] unfolding stored_def ran_def by blast
  have "Prepare r = Inr r \<and> reg_GetByChild memory_relations (rl_ChildRunID r) st = Inr r" if "r \<in> stored" for r
    using wf [OF that] mem_relations.get [OF inv] preparedD(2) by (simp add: reg_GetByChild_def prepared_def del: map_of_eq_Some_iff)
  moreover have "r = q" if "r \<in> stored" "q \<in> stored" "rl_ParentRunID r = rl_ParentRunID q" "rl_Kind r = rl_Kind q"
      "rl_OwnerNodeID r = rl_OwnerNodeID q" for r q
  proof -
    have "runRelationOwnerKey r = runRelationOwnerKey q" using that by (simp add: runRelationOwnerKey_def)
    then have "rl_ChildRunID r = rl_ChildRunID q" using ownerI [OF inv conjunct1 [OF wf]] that(1,2) by (metis option.inject)
    then have "Some r = Some q" using wf [OF that(1)] wf [OF that(2)] by (simp only:)
    then show ?thesis by simp
  qed
  moreover have "\<exists>rs. reg_ListAll memory_relations st = Inr rs \<and> set rs = stored \<and> distinct rs \<and> sorted (map relation_key rs)"
    using map_snd_distinct [OF inv] by (simp add: reg_ListAll_def memory_relations_def ListAll_def Sort_def stored_def)
  moreover have "\<exists>rs. reg_ListChildren memory_relations p st = Inr rs \<and>
      set rs = {r \<in> stored. rl_ParentRunID r = trim_space p} \<and> distinct rs \<and> sorted (map relation_key rs)" if "\<not> blank p" for p
    using that map_snd_distinct [OF inv]
    by (auto simp: reg_ListChildren_def memory_relations_def ListChildren_def Let_def Sort_def stored_def blank_def)
  ultimately show ?thesis unfolding st_def [symmetric] stored_def [symmetric] Let_def by blast
qed

definition rx_calls :: "relation_call list" where
  "rx_calls = [CallEnsure 7 (rx_draft ''b'' ''n1''), CallEnsure 5 (rx_draft '' a'' ''n0''), CallEnsure 9 (rx_draft ''c'' ''n1''),
     CallEnqueued ''a'' 1 2]"

theorem one_child_per_owner_witness:
  "(case map_of (rr_byChild (after_calls rx_calls)) ''a'' of None \<Rightarrow> False
    | Some r \<Rightarrow> rl_OwnerNodeID r = ''n0'' \<and> map_of (rr_byChild (after_calls rx_calls)) ''c'' = None) \<and>
   (\<exists>rs. reg_ListChildren memory_relations ''root'' (after_calls rx_calls) = Inr rs \<and>
     set rs = {r \<in> ran (map_of (rr_byChild (after_calls rx_calls))). rl_ParentRunID r = trim_space ''root''} \<and> distinct rs)"
proof -
  have "case map_of (rr_byChild (after_calls rx_calls)) ''a'' of None \<Rightarrow> False
    | Some r \<Rightarrow> rl_OwnerNodeID r = ''n0'' \<and> map_of (rr_byChild (after_calls rx_calls)) ''c'' = None" by code_simp
  moreover have "\<not> blank ''root''" by code_simp
  ultimately show ?thesis using one_child_per_owner [of rx_calls, unfolded Let_def] by blast
qed

subsection \<open>The recovery scan\<close>

text \<open>The pages a scan reads, each from the cursor of the one before, while there is more.\<close>

fun scan :: "nat \<Rightarrow> string \<Rightarrow> int \<Rightarrow> RunRelationStore \<Rightarrow> ReconciliationCandidate list" where
  "scan 0 cursor limit st = []"
| "scan (Suc n) cursor limit st =
     (case ListReconcilePage cursor limit st of
        Inl e \<Rightarrow> []
      | Inr page \<Rightarrow> rp_Candidates page @ (if rp_HasMore page then scan n (rp_NextCursor page) limit st else []))"

lemma page_eq:
  assumes inv: "relations_inv st" and "0 < limit" and "limit \<le> MaxReconcilePageSize"
  shows "ListReconcilePage cursor limit st =
    (let rest = filter (\<lambda>k. cursor < k) (rr_childIDs st); page = take (nat limit) rest in
     Inr \<lparr>rp_Candidates = map (candidate st) page, rp_NextCursor = (if page = [] then cursor else last page),
          rp_HasMore = (nat limit < length rest)\<rparr>)"
proof -
  let ?ids = "rr_childIDs st"
  define start where "start = go_Search (length ?ids) (\<lambda>i. cursor < ?ids ! i)"
  have rest: "filter (\<lambda>k. cursor < k) ?ids = drop start ?ids"
    unfolding start_def by (rule search_split(2) [OF relations_invD(4) [OF inv], symmetric]) (rule order.strict_trans2)
  have page: "take (min (start + nat limit) (length ?ids) - start) (drop start ?ids) = take (nat limit) (drop start ?ids)"
    by (simp add: take_all_iff min_def)
  have more: "min (start + nat limit) (length ?ids) < length ?ids \<longleftrightarrow> nat limit < length (drop start ?ids)" using assms(2) by auto
  have "\<not> (limit \<le> 0 \<or> MaxReconcilePageSize < limit)" using assms(2,3) by simp
  then show ?thesis unfolding ListReconcilePage_def Let_def rest start_def [symmetric] page more by (rule if_not_P)
qed

lemma sorted_le_last: "sorted xs \<Longrightarrow> x \<in> set xs \<Longrightarrow> x \<le> last xs"
  by (induction xs) auto

lemma scan_eq:
  assumes inv: "relations_inv st" and l: "0 < limit" "limit \<le> MaxReconcilePageSize"
    and "length (filter (\<lambda>k. cursor < k) (rr_childIDs st)) \<le> n * nat limit"
  shows "scan n cursor limit st = map (candidate st) (filter (\<lambda>k. cursor < k) (rr_childIDs st))"
  using assms(4)
proof (induction n arbitrary: cursor)
  case (Suc n)
  let ?ids = "rr_childIDs st"
  define rest where "rest = filter (\<lambda>k. cursor < k) ?ids"
  show ?case
  proof (cases "nat limit < length rest")
    case False
    then show ?thesis by (simp add: page_eq [OF inv l] Let_def flip: rest_def)
  next
    case True
    define c where "c = last (take (nat limit) rest)"
    have ne: "take (nat limit) rest \<noteq> []" using True l(1) by auto
    have sd: "sorted rest" "distinct rest" using relations_invD(4,5) [OF inv] by (simp_all add: rest_def sorted_wrt_filter)
    have "\<forall>x\<in>set (take (nat limit) rest). x \<le> c"
      using sorted_le_last [OF sorted_wrt_take [OF sd(1)]] by (simp add: c_def)
    moreover have "\<forall>x\<in>set (drop (nat limit) rest). c < x"
    proof
      fix x assume x: "x \<in> set (drop (nat limit) rest)"
      have c: "c \<in> set (take (nat limit) rest)" using ne by (simp add: c_def)
      have "sorted (take (nat limit) rest @ drop (nat limit) rest)" "distinct (take (nat limit) rest @ drop (nat limit) rest)"
        using sd by simp_all
      then show "c < x" using x c unfolding sorted_append distinct_append by (metis disjoint_iff order_less_le)
    qed
    ultimately have "filter (\<lambda>k. c < k) (take (nat limit) rest @ drop (nat limit) rest) = drop (nat limit) rest"
      by (auto simp: filter_empty_conv not_less simp del: append_take_drop_id intro!: filter_True)
    moreover have "cursor < c" using ne last_in_set [OF ne] in_set_takeD [of c "nat limit" rest] by (simp add: c_def rest_def)
    then have "filter (\<lambda>k. c < k) rest = filter (\<lambda>k. c < k) ?ids"
      unfolding rest_def filter_filter by (intro filter_cong) auto
    ultimately have tail: "filter (\<lambda>k. c < k) ?ids = drop (nat limit) rest" by simp
    have "scan n c limit st = map (candidate st) (drop (nat limit) rest)"
      using Suc.IH [of c] Suc.prems unfolding tail by (simp flip: rest_def)
    then show ?thesis using True ne
      by (simp add: page_eq [OF inv l] Let_def c_def flip: rest_def map_append)
  qed
qed simp

text \<open>C37: A recovery scan is complete: pages of any admissible size, read one after the other from the empty cursor, together
  contain every stored relation exactly once, in the order of the child IDs, with the progress recorded for it.\<close>

theorem recovery_scan_complete:
  assumes "0 < limit" and "limit \<le> MaxReconcilePageSize" and "length (rr_byChild (after_calls cs)) \<le> n * nat limit"
  shows "let st = after_calls cs; found = scan n [] limit st in
    sorted (map (rl_ChildRunID \<circ> rc_Relation) found) \<and> distinct (map rc_Relation found) \<and>
    set (map rc_Relation found) = ran (map_of (rr_byChild st)) \<and>
    list_all (\<lambda>c. c = candidate st (rl_ChildRunID (rc_Relation c))) found"
proof -
  define st where "st = after_calls cs"
  have inv: "relations_inv st" using after_calls_inv by (simp add: st_def)
  have child: "\<exists>r. map_of (rr_byChild st) k = Some r \<and> rc_Relation (candidate st k) = r \<and> rl_ChildRunID r = k \<and> k \<noteq> []"
    if "k \<in> set (rr_childIDs st)" for k
  proof -
    obtain r where "map_of (rr_byChild st) k = Some r" using \<open>k \<in> _\<close> relations_invD(6) [OF inv] by auto
    then show ?thesis using relations_invD(2) [OF inv] preparedD(1) by (auto simp: candidate_def child_of_def simp del: map_of_eq_Some_iff)
  qed
  have all: "filter (\<lambda>k. [] < k) (rr_childIDs st) = rr_childIDs st"
  proof (intro filter_True ballI)
    fix k
    assume "k \<in> set (rr_childIDs st)"
    then have "k \<noteq> []" using child by blast
    then show "[] < k" by (cases k) simp_all
  qed
  have ids: "map (rl_ChildRunID \<circ> rc_Relation \<circ> candidate st) (rr_childIDs st) = rr_childIDs st"
    using child by (intro map_idI) auto
  have "length (rr_childIDs st) = length (rr_byChild st)"
    using relations_invD(1,5,6) [OF inv] distinct_card by (metis dom_map_of_conv_image_fst length_map set_map)
  then have found: "scan n [] limit st = map (candidate st) (rr_childIDs st)"
    using scan_eq [OF inv assms(1,2), of "[]" n] assms(3) all by (simp add: st_def)
  have "set (map (rc_Relation \<circ> candidate st) (rr_childIDs st)) = ran (map_of (rr_byChild st))"
  proof (rule set_eqI)
    fix r
    show "r \<in> set (map (rc_Relation \<circ> candidate st) (rr_childIDs st)) \<longleftrightarrow> r \<in> ran (map_of (rr_byChild st))"
      using child relations_invD(6) [OF inv] by (fastforce simp: ran_def dom_def simp del: map_of_eq_Some_iff)
  qed
  moreover have "distinct (map (rc_Relation \<circ> candidate st) (rr_childIDs st))"
    using relations_invD(5) [OF inv] ids by (metis distinct_map map_map)
  moreover have "list_all (\<lambda>c. c = candidate st (rl_ChildRunID (rc_Relation c))) (map (candidate st) (rr_childIDs st))"
    using child by (auto simp: list_all_iff)
  ultimately show ?thesis using relations_invD(4) [OF inv] ids unfolding st_def [symmetric] Let_def found by (simp add: comp_def)
qed

theorem recovery_scan_complete_witness:
  "let st = after_calls rx_calls in length (rr_byChild st) = 2 \<and> length (scan 2 [] 1 st) = 2 \<and>
     set (map rc_Relation (scan 2 [] 1 st)) = ran (map_of (rr_byChild st))"
proof -
  have l: "length (rr_byChild (after_calls rx_calls)) = 2" "length (scan 2 [] 1 (after_calls rx_calls)) = 2" by code_simp+
  have "0 < (1 :: int)" "1 \<le> MaxReconcilePageSize" "length (rr_byChild (after_calls rx_calls)) \<le> 2 * nat 1"
    using l by (simp_all add: MaxReconcilePageSize_def)
  from recovery_scan_complete [OF this] l show ?thesis by (simp add: Let_def)
qed

end
