(* ===== verification/Run_Feed.thy ===== *)
theory Run_Feed
  imports Go_Util
begin

text \<open>
  The live event feed of runs: \<open>runfeed/runfeed.go\<close> (publication, replay and the polling
  subscription over an arbitrary store) and the in-memory store of \<open>memory/runfeed.go\<close>, which
  numbers the events of a run and drops them after their retention.

  Every store method holds the mutex, so it is one function of the store; a clock reading is an
  argument of the call, two where the code reads the clock twice. Sequence numbers are 64-bit
  integers and wrap around. The zero time is 0; \<open>clone*\<close> copies are the identity on values.
  Methods are modelled on non-nil receivers.

  A subscription is a goroutine that polls the store: \<open>follow\<close> runs a given number of rounds;
  \<open>env k\<close> is what other goroutines do to the store before round \<open>k\<close>, \<open>sent k i\<close> whether the
  \<open>select\<close> that sends the \<open>i\<close>-th event of that round chose the send, and \<open>tick k\<close> whether the wait
  after the round chose the tick.
\<close>

datatype feed_error = FErrInvalidInput | CursorExpiredError int int | FErrStore string

record FeedDraft =
  fd_Type :: string
  fd_Delta :: string
  fd_Message :: string
  fd_Data :: string
  fd_Revision :: u64
  fd_Status :: string
  fd_Terminal :: bool

record FeedEvent =
  fe_Seq :: int
  fe_RunID :: string
  fe_Type :: string
  fe_Delta :: string
  fe_Message :: string
  fe_Data :: string
  fe_Revision :: u64
  fe_Status :: string
  fe_Terminal :: bool
  fe_CreatedAt :: time

subsection \<open>The feed\<close>

record 's feed_port =
  fp_Append :: "string \<Rightarrow> FeedDraft \<Rightarrow> time \<Rightarrow> duration \<Rightarrow> 's \<Rightarrow> 's \<times> (feed_error + FeedEvent)"
  fp_List :: "string \<Rightarrow> int \<Rightarrow> int \<Rightarrow> 's \<Rightarrow> 's \<times> (feed_error + FeedEvent list)"
  fp_ReleaseTerminal :: "string \<Rightarrow> duration \<Rightarrow> 's \<Rightarrow> 's \<times> feed_error option"

record Feed =
  ff_retention :: duration
  ff_pollInterval :: duration
  ff_batchSize :: int
  ff_bufferSize :: int

text \<open>\<open>New\<close> on the options: retention, poll interval, batch and buffer size.\<close>

definition NewFeed :: "duration \<Rightarrow> duration \<Rightarrow> int \<Rightarrow> int \<Rightarrow> Feed" where
  "NewFeed retention pollInterval batchSize bufferSize =
     \<lparr>ff_retention = (if retention \<le> 0 then 900 * 1000000000 else retention),
      ff_pollInterval = (if pollInterval \<le> 0 then 100 * 1000000 else pollInterval),
      ff_batchSize = (if batchSize \<le> 0 then 128 else batchSize),
      ff_bufferSize = (if bufferSize \<le> 0 then 32 else bufferSize)\<rparr>"

definition normalizeDraft :: "FeedDraft \<Rightarrow> FeedDraft" where
  "normalizeDraft d = d\<lparr>fd_Type := trim_space (fd_Type d), fd_Message := trim_space (fd_Message d), fd_Status := trim_space (fd_Status d)\<rparr>"

definition validDraft :: "FeedDraft \<Rightarrow> bool" where
  "validDraft d \<longleftrightarrow> fd_Type d \<noteq> [] \<and> (fd_Data d = [] \<or> json_valid (fd_Data d))"

definition Publish :: "'s feed_port \<Rightarrow> Feed \<Rightarrow> time \<Rightarrow> string \<Rightarrow> FeedDraft \<Rightarrow> 's \<Rightarrow> 's \<times> (feed_error + FeedEvent)" where
  "Publish port feed now runID draft st =
     (let r = trim_space runID; d = normalizeDraft draft in
      if r = [] \<or> \<not> validDraft d then (st, Inl FErrInvalidInput)
      else fp_Append port r d now (ff_retention feed) st)"

definition Replay :: "'s feed_port \<Rightarrow> Feed \<Rightarrow> string \<Rightarrow> int \<Rightarrow> 's \<Rightarrow> 's \<times> (feed_error + FeedEvent list)" where
  "Replay port feed runID afterSeq st =
     (let r = trim_space runID in
      if r = [] \<or> afterSeq < 0 then (st, Inl FErrInvalidInput)
      else fp_List port r afterSeq (ff_batchSize feed) st)"

definition feed_ReleaseTerminal :: "'s feed_port \<Rightarrow> Feed \<Rightarrow> string \<Rightarrow> 's \<Rightarrow> 's \<times> feed_error option" where
  "feed_ReleaseTerminal port feed runID st =
     (let r = trim_space runID in
      if r = [] then (st, Some FErrInvalidInput) else fp_ReleaseTerminal port r (ff_retention feed) st)"

subsection \<open>Subscriptions\<close>

record Subscription =
  sb_Replay :: "FeedEvent list"
  sb_after :: int
  sb_following :: bool

definition Subscribe :: "'s feed_port \<Rightarrow> Feed \<Rightarrow> string \<Rightarrow> int \<Rightarrow> 's \<Rightarrow> 's \<times> (feed_error + Subscription)" where
  "Subscribe port feed runID afterSeq st =
     (case Replay port feed runID afterSeq st of
        (st', Inl e) \<Rightarrow> (st', Inl e)
      | (st', Inr replay) \<Rightarrow>
          (st', Inr (if replay = [] then \<lparr>sb_Replay = replay, sb_after = afterSeq, sb_following = True\<rparr>
                     else \<lparr>sb_Replay = replay, sb_after = fe_Seq (last replay), sb_following = \<not> fe_Terminal (last replay)\<rparr>)))"

text \<open>The loop of \<open>deliverAvailable\<close>: the cursor, whether a terminal event was sent, whether the subscriber
  stopped, and the events sent.\<close>

fun deliver_loop :: "(nat \<Rightarrow> bool) \<Rightarrow> nat \<Rightarrow> int \<Rightarrow> FeedEvent list \<Rightarrow> int \<times> bool \<times> bool \<times> FeedEvent list" where
  "deliver_loop sent i afterSeq [] = (afterSeq, False, False, [])"
| "deliver_loop sent i afterSeq (event # items) =
     (if \<not> sent i then (afterSeq, False, True, [])
      else if fe_Terminal event then (fe_Seq event, True, False, [event])
      else case deliver_loop sent (Suc i) (fe_Seq event) items of (a, t, s, d) \<Rightarrow> (a, t, s, event # d))"

definition deliverAvailable :: "'s feed_port \<Rightarrow> Feed \<Rightarrow> (nat \<Rightarrow> bool) \<Rightarrow> string \<Rightarrow> int \<Rightarrow> 's \<Rightarrow>
  's \<times> (feed_error + int \<times> bool \<times> bool \<times> FeedEvent list)" where
  "deliverAvailable port feed sent runID afterSeq st =
     (case fp_List port runID afterSeq (ff_batchSize feed) st of
        (st', Inl e) \<Rightarrow> (st', Inl e)
      | (st', Inr items) \<Rightarrow> (st', Inr (deliver_loop sent 0 afterSeq items)))"

datatype follow_end = Polling | Closed | Failed feed_error

fun follow :: "(nat \<Rightarrow> 's feed_port) \<Rightarrow> Feed \<Rightarrow> (nat \<Rightarrow> 's \<Rightarrow> 's) \<Rightarrow> (nat \<Rightarrow> nat \<Rightarrow> bool) \<Rightarrow> (nat \<Rightarrow> bool) \<Rightarrow> string \<Rightarrow>
  nat \<Rightarrow> nat \<Rightarrow> int \<Rightarrow> 's \<Rightarrow> 's \<times> int \<times> FeedEvent list \<times> follow_end" where
  "follow ports feed env sent tick runID 0 k afterSeq st = (st, afterSeq, [], Polling)"
| "follow ports feed env sent tick runID (Suc n) k afterSeq st =
     (case deliverAvailable (ports k) feed (sent k) runID afterSeq (env k st) of
        (st', Inl e) \<Rightarrow> (st', afterSeq, [], Failed e)
      | (st', Inr (nextSeq, terminal, stopped, d)) \<Rightarrow>
          if terminal \<or> stopped \<or> \<not> tick k then (st', nextSeq, d, Closed)
          else case follow ports feed env sent tick runID n (Suc k) nextSeq st' of
                 (st'', a, ds, out) \<Rightarrow> (st'', a, d @ ds, out))"

text \<open>What the channel \<open>Events\<close> of a subscription carries: \<open>Subscribe\<close> closes it at once when the replay ends with a
  terminal event, and otherwise starts the goroutine \<open>follow\<close>.\<close>

definition subscription_Events :: "(nat \<Rightarrow> 's feed_port) \<Rightarrow> Feed \<Rightarrow> (nat \<Rightarrow> 's \<Rightarrow> 's) \<Rightarrow> (nat \<Rightarrow> nat \<Rightarrow> bool) \<Rightarrow> (nat \<Rightarrow> bool) \<Rightarrow>
  string \<Rightarrow> nat \<Rightarrow> Subscription \<Rightarrow> 's \<Rightarrow> 's \<times> int \<times> FeedEvent list \<times> follow_end" where
  "subscription_Events ports feed env sent tick runID n sub st =
     (if sb_following sub then follow ports feed env sent tick (trim_space runID) n 0 (sb_after sub) st
      else (st, sb_after sub, [], Closed))"

subsection \<open>The in-memory store\<close>

record runFeedRecord =
  fr_sequence :: int
  fr_terminal :: bool
  fr_events :: "FeedEvent list"
  fr_expiresAt :: time

type_synonym RunFeedStore = "string \<rightharpoonup> runFeedRecord"

definition zero_record :: runFeedRecord where
  "zero_record = \<lparr>fr_sequence = 0, fr_terminal = False, fr_events = [], fr_expiresAt = 0\<rparr>"

definition record_of :: "RunFeedStore \<Rightarrow> string \<Rightarrow> runFeedRecord" where
  "record_of records runID = (case records runID of None \<Rightarrow> zero_record | Some r \<Rightarrow> r)"

definition expireEventsLocked :: "time \<Rightarrow> string \<Rightarrow> RunFeedStore \<Rightarrow> RunFeedStore" where
  "expireEventsLocked now runID records =
     (case records runID of
        None \<Rightarrow> records
      | Some record \<Rightarrow>
          if \<not> now < fr_expiresAt record then
            if fr_terminal record then records(runID := None)
            else records(runID \<mapsto> record\<lparr>fr_events := [], fr_expiresAt := 0\<rparr>)
          else records)"

definition Append :: "time \<Rightarrow> time \<Rightarrow> string \<Rightarrow> FeedDraft \<Rightarrow> time \<Rightarrow> duration \<Rightarrow> RunFeedStore \<Rightarrow>
  RunFeedStore \<times> (feed_error + FeedEvent)" where
  "Append now1 now2 runID0 draft createdAt retention records =
     (let runID = trim_space runID0 in
      if runID = [] \<or> blank (fd_Type draft) \<or> retention \<le> 0 \<or> (fd_Data draft \<noteq> [] \<and> \<not> json_valid (fd_Data draft))
      then (records, Inl FErrInvalidInput)
      else
        let records1 = expireEventsLocked now1 runID records;
            record = record_of records1 runID;
            sequence = wrap_s64 (fr_sequence record + 1);
            event = \<lparr>fe_Seq = sequence, fe_RunID = runID, fe_Type = fd_Type draft, fe_Delta = fd_Delta draft,
              fe_Message = fd_Message draft, fe_Data = fd_Data draft, fe_Revision = fd_Revision draft,
              fe_Status = fd_Status draft, fe_Terminal = fd_Terminal draft, fe_CreatedAt = createdAt\<rparr> in
        (records1(runID \<mapsto> \<lparr>fr_sequence = sequence, fr_terminal = fd_Terminal draft, fr_events = fr_events record @ [event],
           fr_expiresAt = now2 + retention\<rparr>), Inr event))"

definition cursorExpired :: "runFeedRecord \<Rightarrow> int \<Rightarrow> bool" where
  "cursorExpired record afterSeq =
     (if fr_sequence record \<le> afterSeq then False
      else if fr_events record = [] then True
      else wrap_s64 (afterSeq + 1) < fe_Seq (hd (fr_events record)))"

text \<open>The loop of \<open>List\<close> over the retained events, with the result so far.\<close>

fun list_loop :: "int \<Rightarrow> int \<Rightarrow> FeedEvent list \<Rightarrow> FeedEvent list \<Rightarrow> FeedEvent list" where
  "list_loop afterSeq limit result [] = result"
| "list_loop afterSeq limit result (event # events) =
     (if fe_Seq event \<le> afterSeq then list_loop afterSeq limit result events
      else let result' = result @ [event] in
        if 0 < limit \<and> limit \<le> int (length result') then result' else list_loop afterSeq limit result' events)"

definition ListFeed :: "time \<Rightarrow> string \<Rightarrow> int \<Rightarrow> int \<Rightarrow> RunFeedStore \<Rightarrow> RunFeedStore \<times> (feed_error + FeedEvent list)" where
  "ListFeed now runID0 afterSeq limit records =
     (let runID = trim_space runID0 in
      if runID = [] \<or> afterSeq < 0 then (records, Inl FErrInvalidInput)
      else
        let records1 = expireEventsLocked now runID records; record = record_of records1 runID in
        (records1, if cursorExpired record afterSeq then Inl (CursorExpiredError afterSeq (fr_sequence record))
                   else Inr (list_loop afterSeq limit [] (fr_events record))))"

definition ReleaseTerminal :: "time \<Rightarrow> time \<Rightarrow> string \<Rightarrow> duration \<Rightarrow> RunFeedStore \<Rightarrow> RunFeedStore \<times> feed_error option" where
  "ReleaseTerminal now1 now2 runID0 retention records =
     (let runID = trim_space runID0 in
      if runID = [] \<or> retention \<le> 0 then (records, Some FErrInvalidInput)
      else
        let records1 = expireEventsLocked now1 runID records in
        case records1 runID of
          None \<Rightarrow> (records1, None)
        | Some record \<Rightarrow>
            if fr_sequence record = 0 then (records1, None)
            else (records1(runID \<mapsto> record\<lparr>fr_terminal := True, fr_expiresAt := now2 + retention\<rparr>), None))"

definition memory_feed :: "time \<Rightarrow> time \<Rightarrow> RunFeedStore feed_port" where
  "memory_feed now1 now2 = \<lparr>fp_Append = Append now1 now2, fp_List = ListFeed now1, fp_ReleaseTerminal = ReleaseTerminal now1 now2\<rparr>"

end
