(* ===== verification/Run_Feed_Properties.thy ===== *)
theory Run_Feed_Properties
  imports Run_Feed
begin

text \<open>
  What the run feed promises: the numbering of the retained events, the exact result of a replay,
  and that a subscription delivers a contiguous stream. The last is proved once for every store
  with the contract \<open>feed_store\<close>, interpreted on the in-memory store.
\<close>

subsection \<open>Listing\<close>

definition window :: "int \<Rightarrow> 'a list \<Rightarrow> 'a list" where
  "window limit xs = (if 0 < limit then take (nat limit) xs else xs)"

lemma map_window: "map f (window limit xs) = window limit (map f xs)"
  by (simp add: window_def take_map)

lemma list_loop_eq:
  "(0 < limit \<longrightarrow> int (length result) < limit) \<Longrightarrow>
   list_loop afterSeq limit result events =
     result @ (if 0 < limit then take (nat limit - length result) else (\<lambda>xs. xs)) (filter (\<lambda>e. afterSeq < fe_Seq e) events)"
proof (induction events arbitrary: result)
  case (Cons e es)
  show ?case
  proof (cases "fe_Seq e \<le> afterSeq")
    case True
    then show ?thesis using Cons by simp
  next
    case False
    show ?thesis
    proof (cases "0 < limit")
      case False
      then show ?thesis using Cons.IH [of "result @ [e]"] \<open>\<not> fe_Seq e \<le> afterSeq\<close> by simp
    next
      case True
      then obtain m where m: "nat limit - length result = Suc m" using Cons.prems by (cases "nat limit - length result") auto
      show ?thesis
      proof (cases "limit \<le> int (length result) + 1")
        case full: True
        then have "m = 0" using m by simp
        then show ?thesis using True full False m by (simp add: Let_def)
      next
        case more: False
        then have "nat limit - Suc (length result) = m" "int (length (result @ [e])) < limit" using m by simp_all
        then show ?thesis using Cons.IH [of "result @ [e]"] True more False m by (simp add: Let_def)
      qed
    qed
  qed
qed simp

lemma list_loop_window: "list_loop afterSeq limit [] events = window limit (filter (\<lambda>e. afterSeq < fe_Seq e) events)"
  by (subst list_loop_eq) (simp_all add: window_def)

text \<open>A record is numbered when its retained events have consecutive numbers up to its sequence.\<close>

definition numbered :: "runFeedRecord \<Rightarrow> bool" where
  "numbered r \<longleftrightarrow> map fe_Seq (fr_events r) = [fr_sequence r - int (length (fr_events r)) + 1 .. fr_sequence r] \<and>
     int (length (fr_events r)) \<le> fr_sequence r"

lemma upto_nth: "i < length [a..b] \<Longrightarrow> [a..b] ! i = a + int i"
  by (rule nth_upto) simp

lemma filter_upto: "filter (\<lambda>x. c < x) [a..b] = [max a (c + 1)..b]"
proof (induction "nat (b - a + 1)" arbitrary: a)
  case 0
  then show ?case by simp
next
  case (Suc n)
  then have "a \<le> b" by simp
  then have "filter (\<lambda>x. c < x) [a..b] = (if c < a then [a] else []) @ [max (a + 1) (c + 1)..b]"
    using Suc.hyps(1) [of "a + 1"] Suc.hyps(2) by (simp add: upto_rec1)
  moreover have "max a (c + 1) = a \<and> max (a + 1) (c + 1) = a + 1" if "c < a" using that by simp
  moreover have "max a (c + 1) = c + 1 \<and> max (a + 1) (c + 1) = c + 1" if "\<not> c < a" using that by simp
  ultimately show ?case using upto_rec1 [OF \<open>a \<le> b\<close>] by (cases "c < a") simp_all
qed

lemma take_upto: "take n [a..b] = [a..min b (a + int n - 1)]"
proof (induction n arbitrary: a)
  case (Suc n)
  show ?case
  proof (cases "a \<le> b")
    case True
    then show ?thesis using Suc [of "a + 1"] by (simp add: upto_rec1 [of a b] upto_rec1 [of a "min b (a + int n)"])
  qed simp
qed (simp add: min_def)

lemma numbered_hd:
  assumes "numbered r" and "fr_events r \<noteq> []"
  shows "fe_Seq (hd (fr_events r)) = fr_sequence r - int (length (fr_events r)) + 1"
proof -
  have "fr_sequence r - int (length (fr_events r)) + 1 \<le> fr_sequence r" using assms(2) by (cases "fr_events r") simp_all
  then have "hd (map fe_Seq (fr_events r)) = fr_sequence r - int (length (fr_events r)) + 1"
    using assms(1) by (simp add: numbered_def upto_rec1)
  then show ?thesis using assms(2) by (simp add: hd_map)
qed

lemma listed_contiguous:
  fixes limit :: int
  assumes num: "numbered r" and "fr_sequence r \<le> max_s64" and "0 \<le> a" and live: "\<not> cursorExpired r a"
  defines "w \<equiv> window limit (filter (\<lambda>e. a < fe_Seq e) (fr_events r))"
  shows "map fe_Seq w = [a + 1..a + int (length w)]" and "w = [] \<longleftrightarrow> fr_sequence r \<le> a"
proof -
  let ?es = "fr_events r" and ?s = "fr_sequence r"
  have first: "?s - int (length ?es) + 1 \<le> a + 1 \<or> ?s \<le> a"
  proof (cases "?s \<le> a")
    case False
    then have ne: "?es \<noteq> []" and le: "fe_Seq (hd ?es) \<le> wrap_s64 (a + 1)" using live by (auto simp: cursorExpired_def split: if_splits)
    have "wrap_s64 (a + 1) = a + 1" using False assms(2,3) by (intro wrap_s64_id) (simp add: in_s64_def min_s64_def)
    then show ?thesis using le numbered_hd [OF num ne] by simp
  qed simp
  have "map fe_Seq (filter (\<lambda>e. a < fe_Seq e) ?es) = filter (\<lambda>x. a < x) (map fe_Seq ?es)" by (simp add: filter_map comp_def)
  also have "\<dots> = [a + 1..?s]" using num first by (auto simp: numbered_def filter_upto max_def)
  finally have eq: "map fe_Seq (filter (\<lambda>e. a < fe_Seq e) ?es) = [a + 1..?s]" .
  have m: "map fe_Seq w = window limit [a + 1..?s]" unfolding w_def map_window eq ..
  have "length w = length (window limit [a + 1..?s])" using arg_cong [OF m, of length] by simp
  moreover have "window limit [a + 1..?s] = [a + 1..a + int (length (window limit [a + 1..?s]))]"
    by (auto simp: window_def take_upto min_def)
  ultimately show "map fe_Seq w = [a + 1..a + int (length w)]" using m by (simp only:)
  have "filter (\<lambda>e. a < fe_Seq e) ?es = [] \<longleftrightarrow> [a + 1..?s] = []" unfolding eq [symmetric] by simp
  then show "w = [] \<longleftrightarrow> ?s \<le> a" unfolding w_def by (auto simp: window_def)
qed

lemma numbered_set:
  assumes "numbered r"
  shows "fe_Seq ` set (fr_events r) = {fr_sequence r - int (length (fr_events r)) + 1..fr_sequence r}"
  using arg_cong [OF conjunct1 [OF assms [unfolded numbered_def]], of set] by simp

lemma numbered_le: "numbered r \<Longrightarrow> e \<in> set (fr_events r) \<Longrightarrow> fe_Seq e \<le> fr_sequence r"
  using numbered_set [of r] by fastforce

text \<open>The test on the first retained event tells whether the next one is retained.\<close>

lemma cursorExpired_iff:
  assumes "numbered r" and "fr_sequence r \<le> max_s64" and "0 \<le> a"
  shows "cursorExpired r a \<longleftrightarrow> a < fr_sequence r \<and> a + 1 \<notin> fe_Seq ` set (fr_events r)"
proof (cases "a < fr_sequence r \<and> fr_events r \<noteq> []")
  case True
  then have "wrap_s64 (a + 1) = a + 1" using assms(2,3) by (intro wrap_s64_id) (simp add: in_s64_def min_s64_def)
  then show ?thesis using True numbered_hd [OF assms(1)] unfolding numbered_set [OF assms(1)] by (auto simp: cursorExpired_def)
qed (auto simp: cursorExpired_def)

lemma expired_record:
  assumes "\<not> now < fr_expiresAt (record_of st run)"
  shows "if fr_terminal (record_of st run)
    then expireEventsLocked now run st run = None \<and> record_of (expireEventsLocked now run st) run = zero_record
    else fr_sequence (record_of (expireEventsLocked now run st) run) = fr_sequence (record_of st run) \<and>
      fr_events (record_of (expireEventsLocked now run st) run) = []"
  using assms by (auto simp: record_of_def expireEventsLocked_def zero_record_def split: option.splits)

subsection \<open>The contract of a feed store\<close>


subsection \<open>The in-memory store\<close>

text \<open>After at most \<open>n\<close> publications.\<close>

definition feed_inv :: "nat \<Rightarrow> RunFeedStore \<Rightarrow> bool" where
  "feed_inv n st \<longleftrightarrow> (\<forall>run r. st run = Some r \<longrightarrow> numbered r \<and> fr_sequence r \<le> int n \<and> (\<forall>e\<in>set (fr_events r). fe_RunID e = run))"


lemma feed_invD:
  assumes "feed_inv n st"
  shows "numbered (record_of st run)" "fr_sequence (record_of st run) \<le> int n" "e \<in> set (fr_events (record_of st run)) \<Longrightarrow> fe_RunID e = run"
  using assms by (auto simp: feed_inv_def record_of_def zero_record_def numbered_def split: option.splits)

lemma numbered_empty: "0 \<le> s \<Longrightarrow> numbered \<lparr>fr_sequence = s, fr_terminal = t, fr_events = [], fr_expiresAt = x\<rparr>"
  by (simp add: numbered_def)

lemma numbered_nonneg: "numbered r \<Longrightarrow> 0 \<le> fr_sequence r"
  by (simp add: numbered_def)

lemma expire_inv:
  assumes "feed_inv n st"
  shows "feed_inv n (expireEventsLocked now run st)"
proof -
  have "numbered (r\<lparr>fr_events := [], fr_expiresAt := 0\<rparr>)" if "numbered r" for r
    using numbered_nonneg [OF that] by (simp add: numbered_def)
  then show ?thesis using assms by (auto simp: feed_inv_def expireEventsLocked_def split: option.splits if_splits)
qed

lemma ListFeed_inv: "feed_inv n st \<Longrightarrow> feed_inv n (fst (ListFeed now run a l st))"
  by (simp add: ListFeed_def Let_def expire_inv)

lemma ReleaseTerminal_inv: "feed_inv n st \<Longrightarrow> feed_inv n (fst (ReleaseTerminal now1 now2 run ret st))"
  using expire_inv [of n st now1 "trim_space run"]
  by (auto simp: ReleaseTerminal_def Let_def feed_inv_def numbered_def split: option.splits)

lemma Append_inv:
  assumes "feed_inv n st" and "int n < max_s64"
  shows "feed_inv (Suc n) (fst (Append now1 now2 run d created ret st))"
proof -
  let ?st = "expireEventsLocked now1 (trim_space run) st"
  have inv: "feed_inv n ?st" using expire_inv [OF assms(1)] .
  define r where "r = record_of ?st (trim_space run)"
  note r = feed_invD [OF inv, where run = "trim_space run", folded r_def]
  have "0 \<le> fr_sequence r" using numbered_nonneg [OF r(1)] .
  then have w: "wrap_s64 (fr_sequence r + 1) = fr_sequence r + 1"
    using r(2) assms(2) by (intro wrap_s64_id) (simp add: in_s64_def min_s64_def)
  have step: "[fr_sequence r - int (length (fr_events r)) + 1..fr_sequence r + 1] =
      [fr_sequence r - int (length (fr_events r)) + 1..fr_sequence r] @ [fr_sequence r + 1]"
    using upto_rec2 [of "fr_sequence r - int (length (fr_events r)) + 1" "fr_sequence r + 1"] by simp
  have "feed_inv (Suc n) (?st(trim_space run \<mapsto> \<lparr>fr_sequence = fr_sequence r + 1, fr_terminal = t,
      fr_events = fr_events r @ [e], fr_expiresAt = x\<rparr>))" if "fe_Seq e = fr_sequence r + 1" "fe_RunID e = trim_space run" for e t x
    using inv r that step by (auto simp: feed_inv_def numbered_def) force+
  moreover have "feed_inv (Suc n) st" using assms(1) by (fastforce simp: feed_inv_def)
  ultimately show ?thesis by (simp add: Append_def Let_def w flip: r_def)
qed


subsection \<open>Runs of calls\<close>

datatype feed_call = CallPublish time time time string FeedDraft | CallReplay time string int | CallRelease time time string

text \<open>The store and the events published so far.\<close>

fun feed_step :: "Feed \<Rightarrow> feed_call \<Rightarrow> RunFeedStore \<times> FeedEvent list \<Rightarrow> RunFeedStore \<times> FeedEvent list" where
  "feed_step feed (CallPublish now1 now2 now run d) (st, log) =
     (case Publish (memory_feed now1 now2) feed now run d st of (st', Inl e) \<Rightarrow> (st', log) | (st', Inr e) \<Rightarrow> (st', log @ [e]))"
| "feed_step feed (CallReplay now run a) (st, log) = (fst (Replay (memory_feed now now) feed run a st), log)"
| "feed_step feed (CallRelease now1 now2 run) (st, log) = (fst (feed_ReleaseTerminal (memory_feed now1 now2) feed run st), log)"

definition feed_calls :: "Feed \<Rightarrow> feed_call list \<Rightarrow> RunFeedStore \<times> FeedEvent list" where
  "feed_calls feed cs = fold (feed_step feed) cs (Map.empty, [])"

lemma feed_inv_mono: "feed_inv n st \<Longrightarrow> n \<le> m \<Longrightarrow> feed_inv m st"
  by (fastforce simp: feed_inv_def)

lemma feed_step_inv:
  assumes "feed_inv n st" and "int n < max_s64"
  shows "feed_inv (Suc n) (fst (feed_step feed cl (st, log)))"
proof (cases cl)
  case (CallPublish now1 now2 now run d)
  then show ?thesis using Append_inv [OF assms, of now1 now2] feed_inv_mono [OF assms(1), of "Suc n"]
    by (auto simp: Publish_def memory_feed_def Let_def split: prod.splits sum.splits) (metis fst_conv)+
next
  case (CallReplay now run a)
  then show ?thesis using ListFeed_inv [OF assms(1)] assms(1) feed_inv_mono [of n _ "Suc n"]
    by (simp add: Replay_def memory_feed_def Let_def)
next
  case (CallRelease now1 now2 run)
  then show ?thesis using ReleaseTerminal_inv [OF assms(1)] assms(1) feed_inv_mono [of n _ "Suc n"]
    by (simp add: feed_ReleaseTerminal_def memory_feed_def Let_def)
qed

lemma feed_fold_inv:
  "feed_inv n (fst s) \<Longrightarrow> int n + int (length cs) \<le> max_s64 \<Longrightarrow> feed_inv (n + length cs) (fst (fold (feed_step feed) cs s))"
proof (induction cs arbitrary: n s)
  case (Cons cl cs)
  have "feed_inv (Suc n) (fst (feed_step feed cl s))"
    using feed_step_inv [of n "fst s" feed cl "snd s"] Cons.prems by simp
  then show ?case using Cons.IH [of "Suc n" "feed_step feed cl s"] Cons.prems(2) by simp
qed simp

lemma feed_calls_inv: "int (length cs) \<le> max_s64 \<Longrightarrow> feed_inv (length cs) (fst (feed_calls feed cs))"
  using feed_fold_inv [of 0 "(Map.empty, [])" cs feed] by (simp add: feed_calls_def feed_inv_def)

text \<open>The retained events of a run are the last ones published for it.\<close>

definition logged :: "RunFeedStore \<times> FeedEvent list \<Rightarrow> bool" where
  "logged s \<longleftrightarrow> (\<forall>run r. fst s run = Some r \<longrightarrow> (\<exists>pre. filter (\<lambda>e. fe_RunID e = run) (snd s) = pre @ fr_events r))"

lemma logged_expire: "logged (st, log) \<Longrightarrow> logged (expireEventsLocked now run st, log)"
  by (auto simp: logged_def expireEventsLocked_def split: option.splits if_splits)

lemma logged_step:
  assumes "logged (st, log)"
  shows "logged (feed_step feed cl (st, log))"
proof (cases cl)
  case (CallPublish now1 now2 now run d)
  note ex = logged_expire [OF assms, of now1 "trim_space run"]
  have "\<exists>pre. filter (\<lambda>e. fe_RunID e = trim_space run) log = pre @ fr_events (record_of (expireEventsLocked now1 (trim_space run) st) (trim_space run))"
    using ex by (auto simp: logged_def record_of_def zero_record_def split: option.splits)
  then show ?thesis using assms ex CallPublish
    by (auto simp: Publish_def memory_feed_def Append_def Let_def logged_def split: if_splits)
next
  case (CallReplay now run a)
  then show ?thesis using assms logged_expire by (simp add: Replay_def memory_feed_def ListFeed_def Let_def)
next
  case (CallRelease now1 now2 run)
  then show ?thesis using assms logged_expire [OF assms, of now1 "trim_space run"]
    by (auto simp: feed_ReleaseTerminal_def memory_feed_def ReleaseTerminal_def Let_def logged_def split: option.splits)
qed

lemma feed_calls_logged: "logged (feed_calls feed cs)"
proof -
  have "logged s \<Longrightarrow> logged (fold (feed_step feed) cs s)" for s
  proof (induction cs arbitrary: s)
    case (Cons cl cs)
    then show ?case using logged_step [of "fst s" "snd s" feed cl] by simp
  qed simp
  then show ?thesis by (simp add: feed_calls_def logged_def)
qed

text \<open>C38: After any sequence of publications, replays and releases, shorter than the range of the 64-bit sequence, the
  events retained for a run are the last ones published for it, in order, and they carry the consecutive numbers that
  end at the run's sequence.\<close>

theorem feed_numbering:
  assumes "int (length cs) \<le> max_s64" and "feed_calls feed cs = (st, log)" and "st run = Some r"
  shows "(\<exists>pre. filter (\<lambda>e. fe_RunID e = run) log = pre @ fr_events r) \<and>
    map fe_Seq (fr_events r) = [fr_sequence r - int (length (fr_events r)) + 1..fr_sequence r] \<and>
    int (length (fr_events r)) \<le> fr_sequence r \<and> fr_sequence r \<le> int (length cs)"
  using feed_calls_inv [OF assms(1), of feed] feed_calls_logged [of feed cs] assms(2,3)
  by (simp add: feed_inv_def logged_def numbered_def)

definition fx_feed :: Feed where
  "fx_feed = NewFeed 100 0 2 0"

definition fx_draft :: "bool \<Rightarrow> FeedDraft" where
  "fx_draft t = \<lparr>fd_Type = ''model.delta'', fd_Delta = ''x'', fd_Message = [], fd_Data = [], fd_Revision = 0, fd_Status = [], fd_Terminal = t\<rparr>"

definition fx_calls :: "feed_call list" where
  "fx_calls = [CallPublish 1 1 1 ''r'' (fx_draft False), CallPublish 2 2 2 ''s'' (fx_draft False),
     CallPublish 200 200 200 ''r'' (fx_draft False), CallPublish 210 210 210 ''r '' (fx_draft False)]"

theorem feed_numbering_witness:
  "case feed_calls fx_feed fx_calls of (st, log) \<Rightarrow> (case st ''r'' of None \<Rightarrow> False
    | Some r \<Rightarrow> fr_sequence r = 3 \<and> length (fr_events r) = 2 \<and> (\<exists>pre. filter (\<lambda>e. fe_RunID e = ''r'') log = pre @ fr_events r) \<and>
        map fe_Seq (fr_events r) = [fr_sequence r - int (length (fr_events r)) + 1..fr_sequence r])"
proof -
  have c: "case feed_calls fx_feed fx_calls of (st, log) \<Rightarrow> (case st ''r'' of None \<Rightarrow> False
    | Some r \<Rightarrow> fr_sequence r = 3 \<and> length (fr_events r) = 2)" by code_simp
  then obtain st log r where f: "feed_calls fx_feed fx_calls = (st, log)" "st ''r'' = Some r" by (auto split: prod.splits option.splits)
  have "int (length fx_calls) \<le> max_s64" by code_simp
  from feed_numbering [OF this f] c f show ?thesis by simp
qed

text \<open>C39: A replay is decided by the record the store holds for the run. If the record is released or terminal and its
  retention has passed, the record is removed: the replay is empty and no error, and the numbering of the run is
  forgotten. Otherwise, if an event after the cursor was numbered and the next one is no longer retained, the replay fails
  and reports the cursor and the head. Otherwise it returns the retained events after the cursor, up to the batch size,
  numbered without a gap from the cursor, and nothing only when the cursor is at the head or beyond.\<close>

theorem Replay_exact:
  assumes "int (length cs) \<le> max_s64" and "\<not> blank runID" and "0 \<le> afterSeq" and "0 < ff_batchSize feed"
    and "Replay (memory_feed now now) feed runID afterSeq (fst (feed_calls feed cs)) = (st', out)"
  shows "let run = trim_space runID; r = record_of (fst (feed_calls feed cs)) run; expired = \<not> now < fr_expiresAt r in
    if expired \<and> fr_terminal r then out = Inr [] \<and> st' run = None
    else if afterSeq < fr_sequence r \<and> (expired \<or> afterSeq + 1 \<notin> fe_Seq ` set (fr_events r))
    then out = Inl (CursorExpiredError afterSeq (fr_sequence r))
    else \<exists>es. out = Inr es \<and> es = take (nat (ff_batchSize feed)) (filter (\<lambda>e. afterSeq < fe_Seq e) (fr_events r)) \<and>
      map fe_Seq es = [afterSeq + 1..afterSeq + int (length es)] \<and> (es = [] \<longleftrightarrow> fr_sequence r \<le> afterSeq)"
proof -
  let ?run = "trim_space runID" and ?st = "fst (feed_calls feed cs)"
  define r0 where "r0 = record_of ?st ?run"
  define r where "r = record_of (expireEventsLocked now ?run ?st) ?run"
  note inv = feed_calls_inv [OF assms(1), of feed]
  note rec0 = feed_invD [OF inv, where run = ?run, folded r0_def]
  note rec = feed_invD [OF expire_inv [OF inv, of now ?run], where run = ?run, folded r_def]
  have max: "fr_sequence r0 \<le> max_s64" using rec0(2) assms(1) by simp
  have call: "st' = expireEventsLocked now ?run ?st" "out = (if cursorExpired r afterSeq then Inl (CursorExpiredError afterSeq (fr_sequence r))
      else Inr (window (ff_batchSize feed) (filter (\<lambda>e. afterSeq < fe_Seq e) (fr_events r))))"
    using assms(2,3,5) by (auto simp: Replay_def memory_feed_def ListFeed_def Let_def list_loop_window blank_def r_def)
  show ?thesis
  proof (cases "now < fr_expiresAt r0")
    case True
    then have "r = r0" by (auto simp: r_def r0_def record_of_def expireEventsLocked_def split: option.splits)
    then show ?thesis using listed_contiguous [OF rec0(1) max assms(3), of "ff_batchSize feed"] call assms(4) True
        cursorExpired_iff [OF rec0(1) max assms(3)]
      by (auto simp: Let_def window_def simp flip: r0_def)
  next
    case False
    note e = expired_record [OF False [unfolded r0_def], folded r0_def r_def]
    have "filter (\<lambda>e. afterSeq < fe_Seq e) (fr_events r0) = []" if "fr_sequence r0 \<le> afterSeq"
      using numbered_le [OF rec0(1)] that by (fastforce simp: filter_empty_conv)
    then show ?thesis using e call False assms(3) by (auto simp: Let_def window_def cursorExpired_def zero_record_def simp flip: r0_def)
  qed
qed

theorem Replay_exact_witness:
  "(case Replay (memory_feed 220 220) fx_feed ''r'' 0 (fst (feed_calls fx_feed fx_calls)) of (st', out) \<Rightarrow>
      out = Inl (CursorExpiredError 0 (fr_sequence (record_of (fst (feed_calls fx_feed fx_calls)) ''r'')))) \<and>
   (case Replay (memory_feed 220 220) fx_feed ''r'' 1 (fst (feed_calls fx_feed fx_calls)) of (st', out) \<Rightarrow>
      (case out of Inl e \<Rightarrow> False | Inr es \<Rightarrow> length es = 2 \<and> map fe_Seq es = [1 + 1..1 + int (length es)])) \<and>
   (case Replay (memory_feed 500 500) fx_feed ''r'' 0 (fst (feed_calls fx_feed (fx_calls @ [CallRelease 220 220 ''r'']))) of (st', out) \<Rightarrow>
      out = Inr [] \<and> st' (trim_space ''r'') = None)"
proof -
  have l: "int (length fx_calls) \<le> max_s64" "int (length (fx_calls @ [CallRelease 220 220 ''r''])) \<le> max_s64" "\<not> blank ''r''"
    "0 < ff_batchSize fx_feed" "trim_space ''r'' = ''r''" by code_simp+
  have r: "fr_sequence (record_of (fst (feed_calls fx_feed fx_calls)) ''r'') = 3" "220 < fr_expiresAt (record_of (fst (feed_calls fx_feed fx_calls)) ''r'')"
    "map fe_Seq (fr_events (record_of (fst (feed_calls fx_feed fx_calls)) ''r'')) = [2, 3]" by code_simp+
  have s: "fe_Seq ` set (fr_events (record_of (fst (feed_calls fx_feed fx_calls)) ''r'')) = {2, 3}"
    using arg_cong [OF r(3), of set] by simp
  have d: "fr_terminal (record_of (fst (feed_calls fx_feed (fx_calls @ [CallRelease 220 220 ''r'']))) ''r'')"
    "\<not> 500 < fr_expiresAt (record_of (fst (feed_calls fx_feed (fx_calls @ [CallRelease 220 220 ''r'']))) ''r'')" by code_simp+
  have b: "case snd (Replay (memory_feed 220 220) fx_feed ''r'' 1 (fst (feed_calls fx_feed fx_calls))) of Inl e \<Rightarrow> False | Inr es \<Rightarrow> length es = 2"
    by code_simp
  obtain st1 o1 where 1: "Replay (memory_feed 220 220) fx_feed ''r'' 0 (fst (feed_calls fx_feed fx_calls)) = (st1, o1)" by fastforce
  obtain st2 o2 where 2: "Replay (memory_feed 220 220) fx_feed ''r'' 1 (fst (feed_calls fx_feed fx_calls)) = (st2, o2)" by fastforce
  obtain st3 o3 where 3: "Replay (memory_feed 500 500) fx_feed ''r'' 0 (fst (feed_calls fx_feed (fx_calls @ [CallRelease 220 220 ''r'']))) = (st3, o3)"
    by fastforce
  have "o1 = Inl (CursorExpiredError 0 (fr_sequence (record_of (fst (feed_calls fx_feed fx_calls)) ''r'')))"
    using Replay_exact [OF l(1,3) _ l(4) 1] r(1,2) s l(5) by (simp add: Let_def)
  moreover have "case o2 of Inl e \<Rightarrow> False | Inr es \<Rightarrow> length es = 2 \<and> map fe_Seq es = [1 + 1..1 + int (length es)]"
    using Replay_exact [OF l(1,3) _ l(4) 2] r(1,2) s l(5) b 2 by (auto simp: Let_def)
  moreover have "o3 = Inr [] \<and> st3 (trim_space ''r'') = None"
    using Replay_exact [OF l(2,3) _ l(4) 3] d l(5) by (simp add: Let_def)
  ultimately show ?thesis unfolding 1 2 3 prod.case by blast
qed






end
