(* ===== verification/Observations.thy ===== *)
theory Observations
  imports Kernel_Properties Outbox Apply_Evidence_Properties Queue_Properties Ledger_Properties Run_Relation_Properties
    Run_Feed_Properties
begin

text \<open>
  Concrete executions in which the code does something that its comments or its other functions do
  not lead one to expect.
\<close>

text \<open>\<open>Runtime.Load\<close> trims the identifier of a run, and \<open>Runtime.apply\<close> loads and validates with it, but hands the
  untrimmed identifier to the store: a write that passed every check is then not found.\<close>

lemma untrimmed_write_is_not_found:
  "rt_Load memory_port '' run-1'' (sys_store (ex_created False)) = Inr ex_cur"
  "rt_Apply memory_port CtxLive None 20 '' run-1'' 1 ex_mutation (sys_store (ex_created False)) =
     (sys_store (ex_created False), Inl ErrNotFound)"
proof -
  have id: "trim_space '' run-1'' = ex_id" "\<not> blank '' run-1''" "'' run-1'' \<noteq> ex_id" by code_simp+
  show load: "rt_Load memory_port '' run-1'' (sys_store (ex_created False)) = Inr ex_cur"
    using id by (simp add: rt_Load_def Load_def ex_created_store)
  show "rt_Apply memory_port CtxLive None 20 '' run-1'' 1 ex_mutation (sys_store (ex_created False)) =
     (sys_store (ex_created False), Inl ErrNotFound)"
    using id ex_operation(4-6)
    by (simp add: rt_Apply_def rt_apply_def apply_prepare_def apply_commit_def validBoundRun_def Load_def Apply_def
        applyLocked_def ex_created_store zero_execution_def)
qed

text \<open>An operation ID that is not valid UTF-8 is admitted, but \<open>json.Marshal\<close> replaces its bytes, so the proof in the
  journal belongs to another operation.\<close>

lemma unquote_escape_invalid: "unquote (escape_string [CHR 0xFF]) = [CHR 0xEF, CHR 0xBF, CHR 0xBD]"
proof -
  have "escape_string [CHR 0xFF] = hex_u 65533" by (simp add: rune_len_eq)
  moreover have "unquote (hex_u 65533) = encode_rune 65533"
    unfolding hex_u_def using hex4_digits [of 65533] by (simp add: Let_def)
  moreover have "encode_rune 65533 = [CHR 0xEF, CHR 0xBF, CHR 0xBD]"
    by (simp add: encode_rune_def char_of_def bit_0)
  ultimately show ?thesis by simp
qed

lemma invalid_utf8_operation_is_lost:
  "validApplyOperation [CHR 0xFF] 1"
  "unmarshal_proof (marshal_proof \<lparr>ip_OperationID = [CHR 0xFF], ip_SourceRevision = 1, ip_MutationDigest = sha256_hex x\<rparr>) =
     Some \<lparr>ip_OperationID = [CHR 0xEF, CHR 0xBF, CHR 0xBD], ip_SourceRevision = 1, ip_MutationDigest = sha256_hex x\<rparr>"
  subgoal by code_simp
  subgoal using unmarshal_marshal [of "\<lparr>ip_OperationID = [CHR 0xFF], ip_SourceRevision = 1, ip_MutationDigest = sha256_hex x\<rparr>"]
    by (simp add: unquote_escape_invalid unquote_escape [OF valid_utf8_digest] del: escape_string.simps unquote.simps)
  done

text \<open>When the record of a released or terminal feed expires, the numbering of the run is forgotten: a later event has
  the number 1 again, and a reader who resumes at an old cursor gets neither the event nor an error.\<close>

lemma renumbered_events_are_skipped:
  "case feed_calls fx_feed (fx_calls @ [CallRelease 220 220 ''r'', CallPublish 500 500 500 ''r'' (fx_draft False)]) of (st, log) \<Rightarrow>
     fe_Seq (last log) = 1 \<and> snd (Replay (memory_feed 510 510) fx_feed ''r'' 3 st) = Inr []"
  by code_simp

text \<open>The receipt of a child registration replaces a dispatched reservation whose ID is \<open>child:\<close> and the child's
  run, so a charge that may have been incurred is forgotten.\<close>

definition receipt_ops :: "ledger_op list" where
  "receipt_ops = [OpRegister ''a'' \<lparr>rb_ParentRunID = [], rb_Limits = zero_limits\<rparr>,
     OpReserve (lx_request ''child:b'' ''a'' 2) True, OpDispatch ''child:b'']"

lemma child_receipt_replaces_reservation:
  "case run_ops receipt_ops (new_ledger ''turn'' lx_limits) of None \<Rightarrow> False
   | Some L \<Rightarrow> in_flight ''child:b'' ''a'' (zero_usage\<lparr>us_LLMCalls := 2\<rparr>) (lg_Reservations L)"
  "case run_ops (receipt_ops @ [OpRegister ''b'' \<lparr>rb_ParentRunID = ''a'', rb_Limits = zero_limits\<rparr>])
     (new_ledger ''turn'' lx_limits) of None \<Rightarrow> False
   | Some L \<Rightarrow> map_of (lg_Reservations L) ''child:b'' = Some (child_reservation ''b'' ''a'')"
  by code_simp+

text \<open>The owner key joins its parts with NUL bytes, which identifiers may contain: two owners share a key, and the
  second relation is refused as a conflict.\<close>

definition nul_relation :: "string \<Rightarrow> string \<Rightarrow> string \<Rightarrow> Relation" where
  "nul_relation parent child node = \<lparr>rl_ParentRunID = parent, rl_ChildRunID = child, rl_Kind = ''delegation'',
     rl_OwnerNodeID = node, rl_CreatedAt = 1\<rparr>"

lemma owner_keys_collide:
  "case Put (nul_relation (''p'' @ CHR 0x00 # ''delegation'' @ CHR 0x00 # ''x'') ''c1'' ''n'') NewRunRelationStore of
     (store, res) \<Rightarrow> is_ok res \<and>
       snd (Put (nul_relation ''p'' ''c2'' (''x'' @ CHR 0x00 # ''delegation'' @ CHR 0x00 # ''n'')) store) = Inl RErrConflict"
  by code_simp

text \<open>\<open>Ledger.View\<close> ignores the error of \<open>AddUsage\<close>: when settled usage exceeds the range of a counter the sum starts again
  from zero, and a scope beyond its limit has room again.\<close>

definition overflow_ops :: "ledger_op list" where
  "overflow_ops = [OpRegister ''a'' \<lparr>rb_ParentRunID = [], rb_Limits = zero_limits\<rparr>,
     OpReserve (lx_request ''model:1'' ''a'' 1) False, OpReserve (lx_request ''model:2'' ''a'' 1) False,
     OpSettle ''model:1'' (zero_usage\<lparr>us_InputTokens := 9223372036854775807\<rparr>) [],
     OpSettle ''model:2'' (zero_usage\<lparr>us_InputTokens := 1\<rparr>) []]"

lemma view_forgets_overflow:
  "case run_ops overflow_ops (new_ledger ''turn'' (zero_limits\<lparr>lm_MaxInputTokens := 100\<rparr>)) of None \<Rightarrow> False
   | Some L \<Rightarrow> (case View L [] of None \<Rightarrow> False | Some view \<Rightarrow> lv_Usage view = zero_usage)"
  by code_simp

end
