(* ===== verification/Spec2Isabelle.thy ===== *)
theory Spec2Isabelle
  imports Observations
begin

text \<open>
  A verification development for the Go agent runtime under \<open>src/go/agent-runtime\<close>: its durable core,
  that is, the parts that decide what is stored, who may write it and what it costs.

  \<^bold>\<open>The program.\<close>
  A \<^emph>\<open>run\<close> is a state machine with a revision, an opaque feature state and an append-only journal of
  events. The \<^emph>\<open>kernel\<close> (\<open>kernel/\<close>) validates requests and writes runs through a store interface by
  compare-and-swap on the revision. A store (\<open>memory/store.go\<close> and its neighbours) keeps runs,
  journals, execution leases with their epochs, quarantines and an outbox of committed
  transitions; workers hold a run by a lease and write with it (fenced execution), trusted
  controls (approve, cancel, expire, \<dots>) write without one and revoke it. An \<^emph>\<open>identified write\<close> puts a
  proof of itself into the journal, so that a caller who lost the response can find out whether
  it committed (\<open>kernel/apply_evidence.go\<close>). The \<^emph>\<open>delivery queue\<close> (\<open>queue/\<close>) hands jobs to workers at
  least once, with leases, retries and dead letters. The \<^emph>\<open>budget ledger\<close> (\<open>budget/\<close>) is shared by the
  runs of a tree: every model or tool call reserves usage before it is sent and settles
  afterwards. \<^emph>\<open>Run relations\<close> (\<open>runrelation/\<close>) record which node of a parent run owns a child run and page
  through them for recovery. The \<^emph>\<open>run feed\<close> (\<open>runfeed/\<close>) is the retained live stream of events of a run.
  The packages meet at the store interfaces only; features, hosts and adapters are their callers.

  \<^bold>\<open>Theories and sources.\<close>
  \<^item> \<open>Prelude\<close>, \<open>Go_Strings\<close>, \<open>Go_Json\<close>, \<open>Go_Sha256\<close>, \<open>Go_Util\<close>: the language and the parts of its standard
    library that the sources use (64-bit integers, instants, contexts; \<open>strings\<close>, \<open>strconv\<close>,
    \<open>encoding/hex\<close>, \<open>encoding/json\<close>, \<open>crypto/sha256\<close>). \<open>Json_Roundtrip\<close> proves that encoding and decoding
    are inverse.
  \<^item> \<open>Kernel_Types\<close>: the structs of \<open>kernel/types.go\<close>, \<open>store.go\<close>, \<open>execution.go\<close>, \<open>quarantine.go\<close>, \<open>control.go\<close>, each a
    record whose fields carry a prefix of the struct (\<open>Run.Status\<close> is \<open>run_Status\<close>).
    \<open>Kernel_Validate\<close>: the validators of \<open>runtime.go\<close>, \<open>store.go\<close>, \<open>execution.go\<close> and \<open>quarantine.go\<close>,
    \<open>ValidateControl\<close> and the sealed proofs of \<open>internal/featurecontrol\<close>.
  \<^item> \<open>Memory_Store\<close>: \<open>memory/store.go\<close>, \<open>execution.go\<close>, \<open>control.go\<close>, \<open>quarantine.go\<close>; \<open>Store\<close> is the struct, each method
    (\<open>Create\<close>, \<open>Apply\<close>, \<open>ApplyExecution\<close>, \<open>ApplyControl\<close>, \<open>AcquireExecution\<close>, \<open>ClaimTransitions\<close>, \<dots>) one function,
    atomic because it holds the mutex.
  \<^item> \<open>Kernel_Runtime\<close>: the methods of \<open>kernel.Runtime\<close> over any store (\<open>store_port\<close>), named \<open>rt_\<close> where the store
    has a method of the same name; reads and writes of one call are separate phases.
    \<open>Apply_Evidence\<close>: \<open>ApplyIdentified\<close> and \<open>VerifyIdentifiedApply\<close> of \<open>kernel/apply_evidence.go\<close>.
  \<^item> \<open>Queue\<close>: \<open>queue/queue.go\<close> and every method of \<open>queue/memory.go\<close>.
  \<^item> \<open>Budget\<close>: \<open>budget/budget.go\<close>, \<open>ledger_usage.go\<close>. \<open>Ledger\<close>: \<open>ledger.go\<close>, \<open>receipt_transfer.go\<close>,
    \<open>memory_ledger.go\<close>; a coordinator call is a change function inside the compare-and-swap loop
    \<open>update_loop\<close>.
  \<^item> \<open>Run_Relation\<close>: \<open>runrelation/runrelation.go\<close> and \<open>memory/runrelation.go\<close>.
  \<^item> \<open>Run_Feed\<close>: \<open>runfeed/runfeed.go\<close> and \<open>memory/runfeed.go\<close>.

  \<^bold>\<open>What is proved.\<close>
  \<^item> \<open>Memory_Facts\<close>, \<open>Kernel_System\<close>, \<open>Kernel_Safety\<close>, \<open>Kernel_Properties\<close>: \<open>kstep\<close> interleaves all callers of kernel
    and store; \<open>sys_inv\<close> is its invariant. Terminal runs are final, superseded leases stay dead, one
    write commits per revision, journals only grow and are numbered without gaps, quarantined
    runs stay frozen, controls revoke leases and do exactly what their guard allows, and an error is
    classified as without effect exactly when no write was attempted.
  \<^item> \<open>Outbox\<close>: a committed transition stays until it is acknowledged; claims are served in order, and a claim
    makes the leases of earlier claims useless.
  \<^item> \<open>Apply_Evidence_Facts\<close>, \<open>Apply_Evidence_Properties\<close>: a proof survives its encoding, the paged verification
    equals one pass over the journal; if all operation IDs are valid UTF-8, which the code does not check,
    an operation commits at most once and is recognised for ever.
  \<^item> \<open>Queue_Facts\<close>, \<open>Queue_Properties\<close>: the invariant of stored jobs, finality, dead letters, fences, the exact
    retry delay, the order and determinism of claims, idempotent enqueueing.
  \<^item> \<open>Ledger_Facts\<close>, \<open>Ledger_Invariant\<close>, \<open>Ledger_Store\<close>, \<open>Ledger_Properties\<close>: no scope is overspent, dispatched charges are
    kept, every coordinator call (\<open>Reserve\<close> and \<open>Ensure\<close> included) is atomic under interference and returns.
  \<^item> \<open>Run_Relation_Properties\<close>: relations are permanent, an owner has one child, the recovery scan is complete.
  \<^item> \<open>Run_Feed_Properties\<close>: numbering and retention, exact replay, contiguous subscription.
  \<^item> \<open>Observations\<close>: concrete executions in which the code does something its comments or its other
    functions do not lead one to expect.

  \<^bold>\<open>Interfaces.\<close>
  Four locales state what a client relies on of a store, hold the client's facts, and are
  interpreted on the in-memory store: \<open>kernel_store\<close> (compare-and-swap of runs; \<open>mem\<close>), \<open>ledger_store\<close>
  (\<open>LedgerStore\<close> of the coordinator; \<open>mem_ledger\<close>), \<open>relation_store\<close> (store of the relation registry;
  \<open>mem_relations\<close>), \<open>feed_store\<close> (store of a subscription; \<open>mem_feed\<close>).

  \<^bold>\<open>Parameters.\<close>
  Clock readings, fresh identifiers, entropy failures, the state of a context, the choice of a
  channel \<open>select\<close> and the interference of other workers are arguments of the definitions. Clocks
  need not be monotonic. Identities of an \<open>IDSource\<close> are assumed not to be blank (\<open>id_source_ok\<close>).

  \<^bold>\<open>Bounds and fuel.\<close>
  \<^item> \<open>uint64\<close> is \<open>64 word\<close> and wraps; \<open>int\<close>, \<open>int64\<close> and durations are \<open>int\<close> with \<open>wrap_s64\<close> where the source can overflow.
    Paths of \<open>kstep'\<close> stop when a revision reaches its largest value, where \<open>makeStoreMutation\<close> wraps.
  \<^item> The JSON parser takes fuel, one more than twice the length of the input; \<open>parse_json_fuel\<close> proves that
    more changes nothing. Go's scanner limits nesting to 10000, and so does the model.
  \<^item> Loops over the ancestry of a run and the compare-and-swap loops are \<open>partial_function\<close>s, \<open>None\<close> when they
    do not end; the invariant shows that the ancestry has no cycle, so the first always end, and
    \<open>coordinator_call_returns\<close> and \<open>ensure_returns\<close> that the others end once a round is undisturbed. All other loops are total.
  \<^item> A subscription is \<open>follow\<close> for any number of rounds.

  \<^bold>\<open>Not modelled.\<close>
  \<^item> Copies (\<open>clone*\<close>), nil receivers, descriptors and constructors that only store their arguments: values here
    are immutable and configurations are arguments.
  \<^item> \<open>continuation\<close>, \<open>workflow\<close>, \<open>handoff\<close>, \<open>interaction\<close>: the features and the delivery glue above the kernel. They keep
    what is durable in the opaque state of a run, in the outbox and in the queue, and are clients of
    the interfaces modelled here; their own state machines are not part of the development.
  \<^item> \<open>plugin\<close>, \<open>context\<close>, \<open>jsoncontract\<close>: registries of host functions, planning of model prompts and checks of documents
    against schemas of an external library; they keep no durable state.
  \<^item> \<open>agent\<close>, \<open>tools\<close>, \<open>model\<close>, \<open>groupchat\<close>, \<open>team\<close>, the harness: loops around model and tool calls, whose behaviour lies
    outside the repository.
  \<^item> The SQL and Redis stores: their meaning is that of a database server or of scripts it runs. The
    locales above state what they must provide.
  \<^item> HTTP, A2A, MCP, model providers, observability, bootstrap, workbench, evaluation, conformance
    suites: network adapters, wiring, projections and tests.
\<close>

end
